(* ===== verification/Go_Prelude.thy ===== *)
theory Go_Prelude
  imports Complex_Main "HOL-Library.Word" "HOL-Library.Char_ord" "HOL-Library.List_Lexorder"
    "HOL-Library.Multiset" "HOL-Library.Sublist"
begin

section \<open>Prelude: what the Go code uses of its language\<close>

text \<open>
  The shared vocabulary of the development.

  \<^item> \<open>first_err\<close>: the idiom \<^verbatim>\<open>if err := check; err != nil { return err }\<close>. A check is an
    \<open>'e option\<close>, \<open>None\<close> for Go's \<open>nil\<close>, and a sequence of checks reports the first failure.
  \<^item> \<open>gotime\<close>: a \<^verbatim>\<open>time.Time\<close> is an instant together with a location. \<open>Before\<close> and
    \<open>IsZero\<close> look at the instant only; Go's \<open>==\<close> on the struct looks at both.
  \<^item> \<open>int32_of\<close>, \<open>int64_of\<close>: Go's wrapping integer conversions.
  \<^item> \<open>float32\<close>: the IEEE values a \<^verbatim>\<open>float32\<close> can hold, with Go's comparisons, in which every
    comparison with NaN is false.
  \<^item> \<open>sort_by\<close>: a stable sort by a \<^verbatim>\<open>less or equal\<close> test, used for \<^verbatim>\<open>slices.SortFunc\<close>
    and for \<^verbatim>\<open>ORDER BY\<close>; the locale \<open>total_preorder\<close> carries its lemmas.
\<close>

named_theorems validate_simps \<open>unfolding of the checks the code makes before it acts\<close>
named_theorems time_simps \<open>operations on instants\<close>

subsection \<open>Errors as the first failing check\<close>

fun first_err :: "'e option list \<Rightarrow> 'e option" where
  "first_err [] = None"
| "first_err (c # cs) = (case c of Some e \<Rightarrow> Some e | None \<Rightarrow> first_err cs)"

lemma first_err_None [simp]: "first_err cs = None \<longleftrightarrow> (\<forall>c \<in> set cs. c = None)"
  by (induction cs) (auto split: option.splits)

declare first_err.simps(2) [simp del]

lemma first_err_Cons [simp]:
  "first_err (None # cs) = first_err cs" "first_err (Some e # cs) = Some e"
  by (simp_all add: first_err.simps)

lemma first_err_append:
  "first_err (xs @ ys) = (case first_err xs of Some e \<Rightarrow> Some e | None \<Rightarrow> first_err ys)"
  by (induction xs) (simp_all del: first_err_None add: first_err.simps split: option.split)

lemma first_err_Some_mem: "first_err cs = Some e \<Longrightarrow> Some e \<in> set cs"
  by (induction cs) (auto simp: first_err.simps split: option.splits)

definition reject_if :: "bool \<Rightarrow> 'e \<Rightarrow> 'e option" where
  "reject_if b e = (if b then Some e else None)"

lemma reject_if_cases [simp]: "reject_if False e = None" "reject_if True e = Some e"
  by (simp_all add: reject_if_def)

lemma reject_if_None [simp]: "reject_if b e = None \<longleftrightarrow> \<not> b"
  by (simp add: reject_if_def)

lemma reject_if_Some [simp]:
  "reject_if b e = Some e' \<longleftrightarrow> b \<and> e' = e" "Some e' = reject_if b e \<longleftrightarrow> b \<and> e' = e"
  by (auto simp: reject_if_def)

subsection \<open>Instants\<close>

datatype gotime = Time (instant: int) (location: nat)

definition zero_time :: gotime where
  "zero_time = Time 0 0"

definition IsZero :: "gotime \<Rightarrow> bool" where [time_simps]:
  "IsZero t \<longleftrightarrow> instant t = 0"

definition Before :: "gotime \<Rightarrow> gotime \<Rightarrow> bool" where [time_simps]:
  "Before t u \<longleftrightarrow> instant t < instant u"

definition After :: "gotime \<Rightarrow> gotime \<Rightarrow> bool" where [time_simps]:
  "After t u \<longleftrightarrow> instant u < instant t"

definition time_Add :: "gotime \<Rightarrow> int \<Rightarrow> gotime" where [time_simps]:
  "time_Add t d = Time (instant t + d) (location t)"

definition UTC :: "gotime \<Rightarrow> gotime" where [time_simps]:
  "UTC t = Time (instant t) 0"

lemma instant_zero_time [simp]: "instant zero_time = 0"
  by (simp add: zero_time_def)

lemma IsZero_zero_time [simp]: "IsZero zero_time"
  by (simp add: IsZero_def)

lemma instant_UTC [simp]: "instant (UTC t) = instant t"
  by (simp add: UTC_def)

lemma instant_time_Add [simp]: "instant (time_Add t d) = instant t + d"
  by (simp add: time_Add_def)

lemma UTC_idem [simp]: "UTC (UTC t) = UTC t"
  by (simp add: UTC_def)

text \<open>A \<^verbatim>\<open>time.Duration\<close> counts nanoseconds.\<close>

definition Second :: int where "Second = 1000000000"
definition Minute :: int where "Minute = 60 * Second"

subsection \<open>Fixed-width integers\<close>

definition int32_of :: "int \<Rightarrow> int" where
  "int32_of k = signed_take_bit 31 k"

definition int64_of :: "int \<Rightarrow> int" where
  "int64_of k = signed_take_bit 63 k"

lemma int32_of_id [simp]: "- (2 ^ 31) \<le> k \<Longrightarrow> k < 2 ^ 31 \<Longrightarrow> int32_of k = k"
  by (simp add: int32_of_def signed_take_bit_int_eq_self)

lemma int64_of_id [simp]: "- (2 ^ 63) \<le> k \<Longrightarrow> k < 2 ^ 63 \<Longrightarrow> int64_of k = k"
  by (simp add: int64_of_def signed_take_bit_int_eq_self)

lemma int32_of_bounds: "- (2 ^ 31) \<le> int32_of k \<and> int32_of k < 2 ^ 31"
  unfolding int32_of_def
  using signed_take_bit_int_greater_eq_minus_exp[of 31 k] signed_take_bit_int_less_exp[of 31 k]
  by simp

subsection \<open>Floating point values\<close>

datatype float32 = Fin rat | PosInf | NegInf | NaN

fun flt :: "float32 \<Rightarrow> float32 \<Rightarrow> bool" where
  "flt (Fin a) (Fin b) = (a < b)"
| "flt (Fin _) PosInf = True"
| "flt NegInf (Fin _) = True"
| "flt NegInf PosInf = True"
| "flt _ _ = False"

definition is_finite :: "float32 \<Rightarrow> bool" where
  "is_finite f \<longleftrightarrow> (case f of Fin _ \<Rightarrow> True | _ \<Rightarrow> False)"

text \<open>PostgreSQL orders \<^verbatim>\<open>real\<close> totally: NaN equals itself and is above every other value.\<close>

fun pg_le :: "float32 \<Rightarrow> float32 \<Rightarrow> bool" where
  "pg_le _ NaN = True"
| "pg_le NaN _ = False"
| "pg_le NegInf _ = True"
| "pg_le _ PosInf = True"
| "pg_le (Fin a) (Fin b) = (a \<le> b)"
| "pg_le _ _ = False"

subsection \<open>Stable sorting\<close>

fun insert_by :: "('a \<Rightarrow> 'a \<Rightarrow> bool) \<Rightarrow> 'a \<Rightarrow> 'a list \<Rightarrow> 'a list" where
  "insert_by le x [] = [x]"
| "insert_by le x (y # ys) = (if le x y then x # y # ys else y # insert_by le x ys)"

definition sort_by :: "('a \<Rightarrow> 'a \<Rightarrow> bool) \<Rightarrow> 'a list \<Rightarrow> 'a list" where
  "sort_by le xs = foldr (insert_by le) xs []"

lemma sort_by_simps [simp]:
  "sort_by le [] = []"
  "sort_by le (x # xs) = insert_by le x (sort_by le xs)"
  by (simp_all add: sort_by_def)

lemma mset_insert_by [simp]: "mset (insert_by le x xs) = add_mset x (mset xs)"
  by (induction xs) auto

lemma mset_sort_by [simp]: "mset (sort_by le xs) = mset xs"
  by (induction xs) auto

lemma set_sort_by [simp]: "set (sort_by le xs) = set xs"
  by (metis mset_sort_by set_mset_mset)

lemma length_sort_by [simp]: "length (sort_by le xs) = length xs"
  by (metis mset_sort_by size_mset)

lemma distinct_sort_by [simp]: "distinct (sort_by le xs) = distinct xs"
  by (metis mset_sort_by mset_eq_imp_distinct_iff)

lemma mset_map_sort_by: "mset (map f (sort_by le xs)) = mset (map f xs)"
  by simp

lemma distinct_map_sort_by [simp]: "distinct (map f (sort_by le xs)) = distinct (map f xs)"
  by (rule mset_eq_imp_distinct_iff) simp

text \<open>The contract a comparison must meet for the result of \<open>sort_by\<close> to be ordered.\<close>

locale total_preorder =
  fixes le :: "'a \<Rightarrow> 'a \<Rightarrow> bool"
  assumes total: "le x y \<or> le y x"
    and trans: "le x y \<Longrightarrow> le y z \<Longrightarrow> le x z"
begin

lemma refl: "le x x"
  using total by blast

lemma set_insert_by: "set (insert_by le x xs) = insert x (set xs)"
  by (induction xs) auto

lemma sorted_insert_by: "sorted_wrt le xs \<Longrightarrow> sorted_wrt le (insert_by le x xs)"
proof (induction xs)
  case Nil
  then show ?case by simp
next
  case (Cons y ys)
  show ?case
  proof (cases "le x y")
    case True
    with Cons.prems show ?thesis by (auto intro: trans)
  next
    case False
    then have "le y x" using total by blast
    with Cons False show ?thesis by (auto simp: set_insert_by)
  qed
qed

lemma sorted_sort_by: "sorted_wrt le (sort_by le xs)"
  by (induction xs) (simp_all add: sorted_insert_by)

lemma insert_by_head: "\<forall>y \<in> set ys. le x y \<Longrightarrow> insert_by le x ys = x # ys"
  by (cases ys) auto

lemma sort_by_sorted: "sorted_wrt le xs \<Longrightarrow> sort_by le xs = xs"
  by (induction xs) (simp_all add: insert_by_head)

lemma sort_by_idem: "sort_by le (sort_by le xs) = sort_by le xs"
  by (rule sort_by_sorted) (rule sorted_sort_by)

text \<open>Everything a \<^verbatim>\<open>LIMIT\<close> cut off ranks no better than what it kept.\<close>

lemma take_sort_by_best:
  assumes "x \<in> set (take n (sort_by le xs))" "y \<in> set (drop n (sort_by le xs))"
  shows "le x y"
  using sorted_sort_by[of xs] assms
  by (metis append_take_drop_id sorted_wrt_append)

text \<open>What a \<^verbatim>\<open>LIMIT\<close> leaves out: nothing, unless it is exhausted by elements that sort no later.\<close>

lemma take_sort_by_complete:
  assumes "x \<in> set xs"
  shows "x \<in> set (take n (sort_by le xs)) \<or>
    length (take n (sort_by le xs)) = n \<and> (\<forall>y \<in> set (take n (sort_by le xs)). le y x)"
proof (cases "x \<in> set (take n (sort_by le xs))")
  case False
  have "x \<in> set (take n (sort_by le xs) @ drop n (sort_by le xs))" using assms by simp
  then have x: "x \<in> set (drop n (sort_by le xs))" using False unfolding set_append by blast
  then have "n < length (sort_by le xs)" by (metis drop_all empty_iff leI list.set(1))
  moreover have "\<forall>y \<in> set (take n (sort_by le xs)). le y x" using x take_sort_by_best by blast
  ultimately show ?thesis by (metis length_take min.absorb4)
qed simp

text \<open>
  Where the comparison also separates the elements there is only one sorted arrangement, so the
  result does not depend on the order the elements arrived in.
\<close>

lemma sorted_unique:
  assumes "sorted_wrt le xs" "sorted_wrt le ys" "mset xs = mset ys"
    and "\<And>x y. x \<in> set xs \<Longrightarrow> y \<in> set xs \<Longrightarrow> le x y \<Longrightarrow> le y x \<Longrightarrow> x = y"
  shows "xs = ys"
  using assms
proof (induction xs arbitrary: ys)
  case Nil
  then show ?case by simp
next
  case (Cons x xs)
  from Cons.prems(3) obtain y zs where ys: "ys = y # zs"
    by (cases ys) auto
  have mem: "x \<in> set ys" "y \<in> set (x # xs)"
    using Cons.prems(3) ys by (metis list.set_intros(1) set_mset_mset)+
  then have "le y x" "le x y"
    using Cons.prems(1,2) ys refl by auto
  then have "x = y"
    using mem Cons.prems(4) by (meson list.set_intros(1))
  with Cons ys show ?case by simp
qed

lemma sort_by_perm:
  assumes "mset xs = mset ys"
    and "\<And>x y. x \<in> set xs \<Longrightarrow> y \<in> set xs \<Longrightarrow> le x y \<Longrightarrow> le y x \<Longrightarrow> x = y"
  shows "sort_by le xs = sort_by le ys"
  by (rule sorted_unique) (simp_all add: sorted_sort_by assms)

end

subsection \<open>Comparing by a sequence of keys\<close>

text \<open>
  \<^verbatim>\<open>ORDER BY a, b\<close> and the comparison functions of the code compare by a first key and, where it
  is equal, by a second. \<open>le_key\<close> compares by one key, \<open>ge_key\<close> downwards, \<open>then_by\<close> chains two.
\<close>

definition le_key :: "('a \<Rightarrow> 'k::linorder) \<Rightarrow> 'a \<Rightarrow> 'a \<Rightarrow> bool" where
  "le_key f x y \<longleftrightarrow> f x \<le> f y"

definition ge_key :: "('a \<Rightarrow> 'k::linorder) \<Rightarrow> 'a \<Rightarrow> 'a \<Rightarrow> bool" where
  "ge_key f x y \<longleftrightarrow> f y \<le> f x"

definition then_by :: "('a \<Rightarrow> 'a \<Rightarrow> bool) \<Rightarrow> ('a \<Rightarrow> 'a \<Rightarrow> bool) \<Rightarrow> 'a \<Rightarrow> 'a \<Rightarrow> bool" where
  "then_by r s x y \<longleftrightarrow> r x y \<and> (r y x \<longrightarrow> s x y)"

lemma total_preorder_le_key: "total_preorder (le_key f)"
  by unfold_locales (auto simp: le_key_def)

lemma total_preorder_ge_key: "total_preorder (ge_key f)"
  by unfold_locales (auto simp: ge_key_def)

lemma total_preorder_then_by:
  assumes "total_preorder r" "total_preorder s"
  shows "total_preorder (then_by r s)"
proof -
  note r = total_preorder.total[OF assms(1)] total_preorder.trans[OF assms(1)]
    and s = total_preorder.total[OF assms(2)] total_preorder.trans[OF assms(2)]
  show ?thesis
  proof
    fix x y z
    show "then_by r s x y \<or> then_by r s y x"
      unfolding then_by_def using r(1) s(1) by blast
    assume "then_by r s x y" "then_by r s y z"
    then show "then_by r s x z"
      unfolding then_by_def using r(2) s(2) by blast
  qed
qed

lemmas total_preorder_intros =
  total_preorder_le_key total_preorder_ge_key total_preorder_then_by

subsection \<open>Lists\<close>

text \<open>An SQL \<^verbatim>\<open>UPDATE ... WHERE\<close> on a table.\<close>

definition update_where :: "('r \<Rightarrow> bool) \<Rightarrow> ('r \<Rightarrow> 'r) \<Rightarrow> 'r list \<Rightarrow> 'r list" where
  "update_where p f = map (\<lambda>r. if p r then f r else r)"

text \<open>An SQL \<^verbatim>\<open>DELETE ... WHERE\<close> on a table.\<close>

definition delete_where :: "('r \<Rightarrow> bool) \<Rightarrow> 'r list \<Rightarrow> 'r list" where
  "delete_where p = filter (\<lambda>r. \<not> p r)"

lemma length_update_where [simp]: "length (update_where p f rs) = length rs"
  by (simp add: update_where_def)

lemma set_update_where:
  "set (update_where p f rs) = {r \<in> set rs. \<not> p r} \<union> f ` {r \<in> set rs. p r}"
  by (auto simp: update_where_def)

lemma update_where_mem: "r \<in> set rs \<Longrightarrow> (if p r then f r else r) \<in> set (update_where p f rs)"
  by (auto simp: update_where_def)

lemma map_update_where: "(\<And>r. k (f r) = k r) \<Longrightarrow> map k (update_where p f rs) = map k rs"
  by (simp add: update_where_def)

lemma update_where_none: "(\<And>r. r \<in> set rs \<Longrightarrow> \<not> p r) \<Longrightarrow> update_where p f rs = rs"
  by (simp add: update_where_def map_idI)

lemma set_delete_where [simp]: "set (delete_where p rs) = {r \<in> set rs. \<not> p r}"
  by (auto simp: delete_where_def)

lemma delete_where_none: "(\<And>r. r \<in> set rs \<Longrightarrow> \<not> p r) \<Longrightarrow> delete_where p rs = rs"
  by (simp add: delete_where_def filter_id_conv)

lemma distinct_map_delete_where: "distinct (map k rs) \<Longrightarrow> distinct (map k (delete_where p rs))"
  by (simp add: delete_where_def distinct_map_filter)

lemma length_delete_where:
  "length (filter p rs) + length (delete_where p rs) = length rs"
  by (induction rs) (auto simp: delete_where_def)

text \<open>
  A result set is scanned row by row and the first row that fails to scan fails the whole read.
\<close>

fun traverse :: "('r \<Rightarrow> 'e + 'a) \<Rightarrow> 'r list \<Rightarrow> 'e + 'a list" where
  "traverse f [] = Inr []"
| "traverse f (r # rs) =
     (case f r of Inl e \<Rightarrow> Inl e
      | Inr a \<Rightarrow> (case traverse f rs of Inl e \<Rightarrow> Inl e | Inr as \<Rightarrow> Inr (a # as)))"

lemma traverse_Inr: "(\<And>r. r \<in> set rs \<Longrightarrow> f r = Inr (g r)) \<Longrightarrow> traverse f rs = Inr (map g rs)"
  by (induction rs) auto

lemma traverse_set: "traverse f rs = Inr as \<Longrightarrow> a \<in> set as \<longleftrightarrow> (\<exists>r \<in> set rs. f r = Inr a)"
proof (induction rs arbitrary: as)
  case (Cons r rs)
  then show ?case by (auto split: sum.splits)
qed simp

lemma traverse_length: "traverse f rs = Inr as \<Longrightarrow> length as = length rs"
  by (induction rs arbitrary: as) (auto split: sum.splits)

lemma distinct_map_inj_on: "distinct (map k rs) \<Longrightarrow> inj_on k (set rs)"
  by (simp add: distinct_map)

lemma distinct_map_find:
  assumes "distinct (map k rs)" "r \<in> set rs"
  shows "find (\<lambda>x. k x = k r) rs = Some r"
  using assms by (induction rs) (auto simp: rev_image_eqI)

end
