(* ===== verification/Go_Strings.thy ===== *)
theory Go_Strings
  imports Go_Prelude
begin

section \<open>Strings: UTF-8 and the string functions the code calls\<close>

text \<open>
  A Go \<^verbatim>\<open>string\<close> is a sequence of bytes; here it is a \<open>char list\<close>, a \<open>char\<close> being one byte, so
  \<open>length\<close> is Go's \<open>len\<close>. This theory models what the code uses of
  \<^verbatim>\<open>unicode/utf8\<close>, \<^verbatim>\<open>unicode\<close> and \<^verbatim>\<open>strings\<close>: decoding a rune, \<open>ValidString\<close>, \<open>IndexFunc\<close>,
  \<open>IsControl\<close>, \<open>IsSpace\<close> and \<open>TrimSpace\<close>. The decoder is proved against the encoder: a string is
  valid exactly when it is the encoding of a sequence of Unicode scalar values.
\<close>

type_synonym bytes = "nat list"

definition bytes_of :: "string \<Rightarrow> bytes" where
  "bytes_of s = map of_char s"

lemma length_bytes_of [simp]: "length (bytes_of s) = length s"
  by (simp add: bytes_of_def)

lemma bytes_of_append [simp]: "bytes_of (s @ t) = bytes_of s @ bytes_of t"
  by (simp add: bytes_of_def)

lemma bytes_of_Nil [simp]: "bytes_of [] = []"
  by (simp add: bytes_of_def)

lemma bytes_of_take [simp]: "bytes_of (take n s) = take n (bytes_of s)"
  by (simp add: bytes_of_def take_map)

lemma bytes_of_drop [simp]: "bytes_of (drop n s) = drop n (bytes_of s)"
  by (simp add: bytes_of_def drop_map)

subsection \<open>Runes\<close>

definition scalar :: "nat \<Rightarrow> bool" where
  "scalar r \<longleftrightarrow> r < 0xD800 \<or> 0xE000 \<le> r \<and> r < 0x110000"

definition cont :: "nat \<Rightarrow> bool" where
  "cont b \<longleftrightarrow> 0x80 \<le> b \<and> b \<le> 0xBF"

definition utf8_encode :: "nat \<Rightarrow> bytes" where
  "utf8_encode r =
     (if r < 0x80 then [r]
      else if r < 0x800 then [0xC0 + r div 64, 0x80 + r mod 64]
      else if r < 0x10000 then [0xE0 + r div 4096, 0x80 + r div 64 mod 64, 0x80 + r mod 64]
      else [0xF0 + r div 262144, 0x80 + r div 4096 mod 64, 0x80 + r div 64 mod 64, 0x80 + r mod 64])"

text \<open>
  \<^verbatim>\<open>utf8.DecodeRune\<close>: the rune and its width, or \<open>None\<close> where Go answers \<^verbatim>\<open>(RuneError, 1)\<close>. The
  second byte's range depends on the first, which is how over-long forms, surrogates and values
  above U+10FFFF are refused.
\<close>

definition lo3 :: "nat \<Rightarrow> nat" where "lo3 b0 = (if b0 = 0xE0 then 0xA0 else 0x80)"
definition hi3 :: "nat \<Rightarrow> nat" where "hi3 b0 = (if b0 = 0xED then 0x9F else 0xBF)"
definition lo4 :: "nat \<Rightarrow> nat" where "lo4 b0 = (if b0 = 0xF0 then 0x90 else 0x80)"
definition hi4 :: "nat \<Rightarrow> nat" where "hi4 b0 = (if b0 = 0xF4 then 0x8F else 0xBF)"

fun decode2 :: "nat \<Rightarrow> bytes \<Rightarrow> (nat \<times> nat) option" where
  "decode2 b0 (b1 # _) = (if cont b1 then Some ((b0 - 0xC0) * 64 + (b1 - 0x80), 2) else None)"
| "decode2 _ _ = None"

fun decode3 :: "nat \<Rightarrow> bytes \<Rightarrow> (nat \<times> nat) option" where
  "decode3 b0 (b1 # b2 # _) =
     (if lo3 b0 \<le> b1 \<and> b1 \<le> hi3 b0 \<and> cont b2
      then Some ((b0 - 0xE0) * 4096 + (b1 - 0x80) * 64 + (b2 - 0x80), 3) else None)"
| "decode3 _ _ = None"

fun decode4 :: "nat \<Rightarrow> bytes \<Rightarrow> (nat \<times> nat) option" where
  "decode4 b0 (b1 # b2 # b3 # _) =
     (if lo4 b0 \<le> b1 \<and> b1 \<le> hi4 b0 \<and> cont b2 \<and> cont b3
      then Some ((b0 - 0xF0) * 262144 + (b1 - 0x80) * 4096 + (b2 - 0x80) * 64 + (b3 - 0x80), 4)
      else None)"
| "decode4 _ _ = None"

fun DecodeRune :: "bytes \<Rightarrow> (nat \<times> nat) option" where
  "DecodeRune [] = None"
| "DecodeRune (b0 # bs) =
     (if b0 < 0x80 then Some (b0, 1)
      else if 0xC2 \<le> b0 \<and> b0 \<le> 0xDF then decode2 b0 bs
      else if 0xE0 \<le> b0 \<and> b0 \<le> 0xEF then decode3 b0 bs
      else if 0xF0 \<le> b0 \<and> b0 \<le> 0xF4 then decode4 b0 bs
      else None)"

lemma decode2_Some:
  "decode2 b0 bs = Some (r, w) \<longleftrightarrow>
     (\<exists>b1 rest. bs = b1 # rest \<and> cont b1 \<and> r = (b0 - 0xC0) * 64 + (b1 - 0x80) \<and> w = 2)"
  by (cases "(b0, bs)" rule: decode2.cases) auto

lemma decode3_Some:
  "decode3 b0 bs = Some (r, w) \<longleftrightarrow>
     (\<exists>b1 b2 rest. bs = b1 # b2 # rest \<and> lo3 b0 \<le> b1 \<and> b1 \<le> hi3 b0 \<and> cont b2 \<and>
       r = (b0 - 0xE0) * 4096 + (b1 - 0x80) * 64 + (b2 - 0x80) \<and> w = 3)"
  by (cases "(b0, bs)" rule: decode3.cases) auto

lemma decode4_Some:
  "decode4 b0 bs = Some (r, w) \<longleftrightarrow>
     (\<exists>b1 b2 b3 rest. bs = b1 # b2 # b3 # rest \<and> lo4 b0 \<le> b1 \<and> b1 \<le> hi4 b0 \<and> cont b2 \<and> cont b3 \<and>
       r = (b0 - 0xF0) * 262144 + (b1 - 0x80) * 4096 + (b2 - 0x80) * 64 + (b3 - 0x80) \<and> w = 4)"
  by (cases "(b0, bs)" rule: decode4.cases) auto

lemmas decode_Some = decode2_Some decode3_Some decode4_Some

lemma DecodeRune_width: "DecodeRune bs = Some (r, w) \<Longrightarrow> 1 \<le> w \<and> w \<le> 4 \<and> w \<le> length bs"
  by (cases bs) (auto simp: decode_Some split: if_splits)

text \<open>The decoder inverts the encoder, and only accepts what the encoder produces.\<close>

lemma digits64:
  fixes r :: nat
  obtains q c where "r = q * 64 + c" "c < 64" "r div 64 = q" "r mod 64 = c"
  using that[of "r div 64" "r mod 64"] by simp

lemma digit_simps:
  fixes q :: nat
  assumes "c < 64"
  shows "(q * 64 + c) div 64 = q" "(q * 64 + c) mod 64 = c"
  using assms by simp_all

lemma div_digits:
  fixes r :: nat
  shows "r div 4096 = r div 64 div 64" "r div 262144 = r div 64 div 64 div 64"
  by (simp_all add: div_mult2_eq[symmetric])

lemma encode_3:
  assumes "0x800 \<le> a * 4096 + b * 64 + c" "a < 16" "b < 64" "c < 64"
  shows "utf8_encode (a * 4096 + b * 64 + c) = [0xE0 + a, 0x80 + b, 0x80 + c]"
proof -
  let ?r = "a * 4096 + b * 64 + c"
  have "?r = (a * 64 + b) * 64 + c" by simp
  then have "?r div 64 = a * 64 + b" "?r mod 64 = c"
    using digit_simps[OF assms(4)] by metis+
  then show ?thesis using assms by (simp add: utf8_encode_def div_digits)
qed

lemma encode_4:
  assumes "0x10000 \<le> a * 262144 + b * 4096 + c * 64 + d" "b < 64" "c < 64" "d < 64"
  shows "utf8_encode (a * 262144 + b * 4096 + c * 64 + d) = [0xF0 + a, 0x80 + b, 0x80 + c, 0x80 + d]"
proof -
  let ?r = "a * 262144 + b * 4096 + c * 64 + d"
  have "?r = ((a * 64 + b) * 64 + c) * 64 + d" by simp
  then have "?r div 64 = (a * 64 + b) * 64 + c" "?r mod 64 = d"
    using digit_simps[OF assms(4)] by metis+
  moreover note digit_simps[OF assms(3), of "a * 64 + b"]
  ultimately show ?thesis using assms by (simp add: utf8_encode_def div_digits)
qed

lemma DecodeRune_encode:
  assumes "scalar r"
  shows "DecodeRune (utf8_encode r @ rest) = Some (r, length (utf8_encode r))"
proof -
  consider "r < 0x80" | "0x80 \<le> r" "r < 0x800" | "0x800 \<le> r" "r < 0x10000" | "0x10000 \<le> r"
    by linarith
  then show ?thesis
  proof cases
    case 1
    then show ?thesis by (simp add: utf8_encode_def)
  next
    case 2
    then have "r div 64 < 32" "2 \<le> r div 64" "r mod 64 < 64" by auto
    with 2 show ?thesis by (simp add: utf8_encode_def cont_def)
  next
    case 3
    obtain q c where q: "r = q * 64 + c" "c < 64" by (rule digits64)
    obtain a b where a: "q = a * 64 + b" "b < 64" by (rule digits64)
    have r: "r = a * 4096 + b * 64 + c" using q a by simp
    have "a < 16" using 3 r by simp
    moreover have "a = 0 \<Longrightarrow> 32 \<le> b" "a = 13 \<Longrightarrow> b < 32"
      using 3 r q a assms unfolding scalar_def by auto
    ultimately show ?thesis using 3 q a r encode_3[of a b c]
      by (auto simp: cont_def lo3_def hi3_def)
  next
    case 4
    obtain q d where q: "r = q * 64 + d" "d < 64" by (rule digits64)
    obtain p c where p: "q = p * 64 + c" "c < 64" by (rule digits64)
    obtain a b where a: "p = a * 64 + b" "b < 64" by (rule digits64)
    have r: "r = a * 262144 + b * 4096 + c * 64 + d" using q p a by simp
    have "r < 0x110000" using 4 assms unfolding scalar_def by auto
    then have "a \<le> 4" "a = 0 \<Longrightarrow> 16 \<le> b" "a = 4 \<Longrightarrow> b < 16" using 4 r q p a by auto
    then show ?thesis using 4 q p a r encode_4[of a b c d]
      by (auto simp: cont_def lo4_def hi4_def)
  qed
qed

lemma DecodeRune_sound:
  assumes "DecodeRune bs = Some (r, w)"
  shows "scalar r \<and> take w bs = utf8_encode r"
proof -
  obtain b0 bs' where bs: "bs = b0 # bs'" using assms by (cases bs) auto
  consider "b0 < 0x80" | "0xC2 \<le> b0" "b0 \<le> 0xDF" | "0xE0 \<le> b0" "b0 \<le> 0xEF" | "0xF0 \<le> b0" "b0 \<le> 0xF4"
    using assms bs by (fastforce split: if_splits)
  then show ?thesis
  proof cases
    case 1
    with assms bs show ?thesis by (auto simp: scalar_def utf8_encode_def)
  next
    case 2
    then obtain b1 rest where b: "bs' = b1 # rest" "cont b1" "r = (b0 - 0xC0) * 64 + (b1 - 0x80)" "w = 2"
      using assms bs by (auto simp: decode2_Some)
    then have "b1 - 0x80 < 64" by (auto simp: cont_def)
    from digit_simps[OF this, of "b0 - 0xC0"] b(3)
    have "r div 64 = b0 - 0xC0" "r mod 64 = b1 - 0x80" by simp_all
    moreover have r: "0x80 \<le> r" "r < 0x800" using 2 b by (auto simp: cont_def)
    ultimately have "utf8_encode r = [b0, b1]"
      using 2 b(2) unfolding utf8_encode_def cont_def by simp
    with r b bs show ?thesis by (simp add: scalar_def)
  next
    case 3
    then obtain b1 b2 rest where b: "bs' = b1 # b2 # rest" "lo3 b0 \<le> b1" "b1 \<le> hi3 b0" "cont b2"
      "r = (b0 - 0xE0) * 4096 + (b1 - 0x80) * 64 + (b2 - 0x80)" "w = 3"
      using assms bs by (auto simp: decode3_Some)
    then have "0x800 \<le> r" "b0 - 0xE0 < 16" "b1 - 0x80 < 64" "b2 - 0x80 < 64" "scalar r"
      using 3 by (auto simp: cont_def lo3_def hi3_def scalar_def split: if_splits)
    then show ?thesis using 3 b bs encode_3[of "b0 - 0xE0" "b1 - 0x80" "b2 - 0x80"]
      by (auto simp: cont_def lo3_def split: if_splits)
  next
    case 4
    then obtain b1 b2 b3 rest where b: "bs' = b1 # b2 # b3 # rest" "lo4 b0 \<le> b1" "b1 \<le> hi4 b0"
      "cont b2" "cont b3"
      "r = (b0 - 0xF0) * 262144 + (b1 - 0x80) * 4096 + (b2 - 0x80) * 64 + (b3 - 0x80)" "w = 4"
      using assms bs by (auto simp: decode4_Some)
    then have "0x10000 \<le> r" "b1 - 0x80 < 64" "b2 - 0x80 < 64" "b3 - 0x80 < 64" "r < 0x110000"
      using 4 by (auto simp: cont_def lo4_def hi4_def split: if_splits)
    then show ?thesis using 4 b bs encode_4[of "b0 - 0xF0" "b1 - 0x80" "b2 - 0x80" "b3 - 0x80"]
      by (auto simp: cont_def lo4_def scalar_def split: if_splits)
  qed
qed

lemma decode_append:
  "decode2 b0 bs = Some x \<Longrightarrow> decode2 b0 (bs @ cs) = Some x"
  "decode3 b0 bs = Some x \<Longrightarrow> decode3 b0 (bs @ cs) = Some x"
  "decode4 b0 bs = Some x \<Longrightarrow> decode4 b0 (bs @ cs) = Some x"
  by (cases x; auto simp: decode_Some)+

lemma DecodeRune_append: "DecodeRune bs = Some x \<Longrightarrow> DecodeRune (bs @ cs) = Some x"
  by (cases bs) (auto split: if_splits intro: decode_append)

subsection \<open>\<open>utf8.ValidString\<close>\<close>

function utf8_valid :: "bytes \<Rightarrow> bool" where
  "utf8_valid bs =
     (case bs of [] \<Rightarrow> True
      | _ # _ \<Rightarrow> (case DecodeRune bs of None \<Rightarrow> False | Some (_, w) \<Rightarrow> utf8_valid (drop w bs)))"
  by pat_completeness auto
termination
  by (relation "measure length") (auto simp del: DecodeRune.simps dest!: DecodeRune_width)

declare utf8_valid.simps [simp del]

lemma utf8_valid_Nil [simp]: "utf8_valid []"
  by (simp add: utf8_valid.simps)

lemma utf8_valid_step:
  "bs \<noteq> [] \<Longrightarrow> utf8_valid bs \<longleftrightarrow> (\<exists>r w. DecodeRune bs = Some (r, w) \<and> utf8_valid (drop w bs))"
  by (subst utf8_valid.simps) (auto split: list.splits option.splits)

definition ValidString :: "string \<Rightarrow> bool" where
  "ValidString s = utf8_valid (bytes_of s)"

lemma utf8_valid_encode_append:
  "scalar r \<Longrightarrow> utf8_valid (utf8_encode r @ bs) = utf8_valid bs"
  using DecodeRune_encode[of r bs] by (subst utf8_valid_step) (auto simp: utf8_encode_def)

lemma utf8_valid_encodes: "\<forall>r \<in> set rs. scalar r \<Longrightarrow> utf8_valid (concat (map utf8_encode rs))"
  by (induction rs) (auto simp: utf8_valid_encode_append)

lemma utf8_valid_decodes:
  "utf8_valid bs \<Longrightarrow> \<exists>rs. (\<forall>r \<in> set rs. scalar r) \<and> bs = concat (map utf8_encode rs)"
proof (induction bs rule: utf8_valid.induct)
  case (1 bs)
  show ?case
  proof (cases "bs = []")
    case True
    then show ?thesis by (intro exI[of _ "[]"]) simp
  next
    case False
    with "1.prems" obtain r w where rw: "DecodeRune bs = Some (r, w)" "utf8_valid (drop w bs)"
      by (auto simp: utf8_valid_step)
    obtain b bs' where bs: "bs = b # bs'" using False by (cases bs) auto
    obtain rs where rs: "\<forall>r \<in> set rs. scalar r" "drop w bs = concat (map utf8_encode rs)"
      using "1.IH"[OF bs rw(1) refl rw(2)] by blast
    have "bs = take w bs @ drop w bs" by simp
    also have "\<dots> = concat (map utf8_encode (r # rs))"
      using rs DecodeRune_sound[OF rw(1)] by simp
    finally show ?thesis using rs DecodeRune_sound[OF rw(1)] by (intro exI[of _ "r # rs"]) auto
  qed
qed

theorem utf8_valid_iff:
  "utf8_valid bs \<longleftrightarrow> (\<exists>rs. (\<forall>r \<in> set rs. scalar r) \<and> bs = concat (map utf8_encode rs))"
  using utf8_valid_encodes utf8_valid_decodes by blast

lemma utf8_valid_append: "utf8_valid as \<Longrightarrow> utf8_valid (as @ bs) = utf8_valid bs"
proof -
  assume "utf8_valid as"
  then obtain rs where "\<forall>r \<in> set rs. scalar r" "as = concat (map utf8_encode rs)"
    by (auto simp: utf8_valid_iff)
  then show ?thesis
  proof (induction rs arbitrary: as)
    case (Cons r rs)
    then show ?case by (simp add: utf8_valid_encode_append)
  qed simp
qed

lemma ValidString_Nil [simp]: "ValidString []"
  by (simp add: ValidString_def)

lemma ValidString_append: "ValidString s \<Longrightarrow> ValidString (s @ t) = ValidString t"
  by (simp add: ValidString_def utf8_valid_append)

text \<open>
  Every prefix of a valid string becomes valid after dropping at most three bytes from its end:
  the bytes of a character cut in two.
\<close>

lemma utf8_valid_prefix_trim:
  assumes "utf8_valid bs" "n \<le> length bs"
  shows "\<exists>k \<le> 3. k \<le> n \<and> utf8_valid (take (n - k) bs)"
proof -
  obtain rs where "\<forall>r \<in> set rs. scalar r" "bs = concat (map utf8_encode rs)"
    using assms(1) by (auto simp: utf8_valid_iff)
  then show ?thesis using assms(2)
  proof (induction rs arbitrary: bs n)
    case Nil
    then show ?case by auto
  next
    case (Cons r rs)
    let ?e = "utf8_encode r"
    have r: "scalar r" and len: "length ?e \<le> 4" "1 \<le> length ?e"
      using Cons.prems by (auto simp: utf8_encode_def)
    show ?case
    proof (cases "n < length ?e")
      case True
      then show ?thesis using len by (intro exI[of _ n]) auto
    next
      case False
      let ?m = "n - length ?e"
      have "?m \<le> length (concat (map utf8_encode rs))" using Cons.prems False by auto
      then obtain k where k: "k \<le> 3" "k \<le> ?m" "utf8_valid (take (?m - k) (concat (map utf8_encode rs)))"
        using Cons.IH[of "concat (map utf8_encode rs)" ?m] Cons.prems by auto
      have "take (n - k) bs = ?e @ take (?m - k) (concat (map utf8_encode rs))"
        using Cons.prems False k by (simp add: take_append add.commute)
      then show ?thesis using k r by (intro exI[of _ k]) (auto simp: utf8_valid_encode_append)
    qed
  qed
qed

subsection \<open>Iterating over runes\<close>

text \<open>
  A \<^verbatim>\<open>for range\<close> over a string yields one rune per step; a byte that starts no valid encoding
  yields U+FFFD and is one byte wide. \<open>next_rune\<close> is one such step.
\<close>

definition RuneError :: nat where "RuneError = 0xFFFD"

definition next_rune :: "bytes \<Rightarrow> nat \<times> nat" where
  "next_rune bs = (case DecodeRune bs of Some rw \<Rightarrow> rw | None \<Rightarrow> (RuneError, 1))"

lemma next_rune_width: "1 \<le> snd (next_rune bs)"
  by (auto simp: next_rune_def split: option.split dest: DecodeRune_width)

function runes :: "bytes \<Rightarrow> nat list" where
  "runes bs = (if bs = [] then [] else fst (next_rune bs) # runes (drop (snd (next_rune bs)) bs))"
  by pat_completeness auto
termination
  by (relation "measure length") (use next_rune_width in \<open>auto simp: Suc_le_eq\<close>)

declare runes.simps [simp del]

lemma runes_Nil [simp]: "runes [] = []"
  by (simp add: runes.simps)

lemma runes_encode_append:
  "scalar r \<Longrightarrow> runes (utf8_encode r @ bs) = r # runes bs"
  using DecodeRune_encode[of r bs]
  by (subst runes.simps) (auto simp: next_rune_def utf8_encode_def)

lemma runes_encodes: "\<forall>r \<in> set rs. scalar r \<Longrightarrow> runes (concat (map utf8_encode rs)) = rs"
proof (induction rs)
  case Nil
  then show ?case by (simp add: runes.simps)
qed (simp add: runes_encode_append)

lemma length_runes_le: "length (runes bs) \<le> length bs"
proof (induction bs rule: runes.induct)
  case (1 bs)
  show ?case
  proof (cases "bs = []")
    case True
    then show ?thesis by (simp add: runes.simps)
  next
    case False
    then have "length (drop (snd (next_rune bs)) bs) < length bs"
      using next_rune_width[of bs] by (simp add: Suc_le_eq)
    with 1 False show ?thesis by (subst runes.simps) simp
  qed
qed

lemma runes_eq_Nil [simp]: "runes bs = [] \<longleftrightarrow> bs = []"
  by (subst runes.simps) simp

text \<open>\<^verbatim>\<open>strings.IndexFunc\<close>: the byte offset of the first rune that satisfies the test.\<close>

function index_from :: "(nat \<Rightarrow> bool) \<Rightarrow> nat \<Rightarrow> bytes \<Rightarrow> nat option" where
  "index_from p i bs =
     (if bs = [] then None
      else if p (fst (next_rune bs)) then Some i
      else index_from p (i + snd (next_rune bs)) (drop (snd (next_rune bs)) bs))"
  by pat_completeness auto
termination
  by (relation "measure (\<lambda>(_, _, bs). length bs)") (use next_rune_width in \<open>auto simp: Suc_le_eq\<close>)

declare index_from.simps [simp del]

definition IndexFunc :: "string \<Rightarrow> (nat \<Rightarrow> bool) \<Rightarrow> nat option" where
  "IndexFunc s p = index_from p 0 (bytes_of s)"

lemma index_from_None: "index_from p i bs = None \<longleftrightarrow> (\<forall>r \<in> set (runes bs). \<not> p r)"
proof (induction p i bs rule: index_from.induct)
  case (1 p i bs)
  then show ?case
    by (subst index_from.simps, subst runes.simps) (cases "bs = []"; auto)
qed

lemma IndexFunc_None: "IndexFunc s p = None \<longleftrightarrow> (\<forall>r \<in> set (runes (bytes_of s)). \<not> p r)"
  by (simp add: IndexFunc_def index_from_None)

subsection \<open>Character classes and trimming\<close>

text \<open>\<^verbatim>\<open>unicode.IsControl\<close> is the category Cc; \<^verbatim>\<open>unicode.IsSpace\<close> is the property White Space.\<close>

definition IsControl :: "nat \<Rightarrow> bool" where
  "IsControl r \<longleftrightarrow> r < 0x20 \<or> 0x7F \<le> r \<and> r < 0xA0"

definition IsSpace :: "nat \<Rightarrow> bool" where
  "IsSpace r \<longleftrightarrow> 0x09 \<le> r \<and> r \<le> 0x0D \<or> r = 0x20 \<or> r = 0x85 \<or> r = 0xA0 \<or> r = 0x1680 \<or>
     0x2000 \<le> r \<and> r \<le> 0x200A \<or> r = 0x2028 \<or> r = 0x2029 \<or> r = 0x202F \<or> r = 0x205F \<or> r = 0x3000"

definition RuneStart :: "nat \<Rightarrow> bool" where
  "RuneStart b \<longleftrightarrow> b < 0x80 \<or> 0xC0 \<le> b"

text \<open>
  \<^verbatim>\<open>utf8.DecodeLastRune\<close>: back up over at most three continuation bytes to a byte that may start
  a rune, and accept what it decodes to only if it ends the string.
\<close>

definition DecodeLastRune :: "bytes \<Rightarrow> nat \<times> nat" where
  "DecodeLastRune bs =
     (let n = length bs in
      if bs ! (n - 1) < 0x80 then (bs ! (n - 1), 1)
      else let lim = n - 4;
               start = (case find (\<lambda>i. RuneStart (bs ! i)) (rev [lim..<n - 1]) of
                          Some i \<Rightarrow> i | None \<Rightarrow> lim - 1);
               (r, size) = next_rune (drop start bs)
           in if start + size = n then (r, size) else (RuneError, 1))"

lemma DecodeLastRune_width: "1 \<le> snd (DecodeLastRune bs)"
  using next_rune_width by (auto simp: DecodeLastRune_def Let_def split: prod.splits) (metis snd_conv)+

function TrimLeft :: "(nat \<Rightarrow> bool) \<Rightarrow> bytes \<Rightarrow> bytes" where
  "TrimLeft p bs =
     (if bs \<noteq> [] \<and> p (fst (next_rune bs)) then TrimLeft p (drop (snd (next_rune bs)) bs) else bs)"
  by pat_completeness auto
termination
  by (relation "measure (\<lambda>(_, bs). length bs)") (use next_rune_width in \<open>auto simp: Suc_le_eq\<close>)

function TrimRight :: "(nat \<Rightarrow> bool) \<Rightarrow> bytes \<Rightarrow> bytes" where
  "TrimRight p bs =
     (if bs \<noteq> [] \<and> p (fst (DecodeLastRune bs))
      then TrimRight p (take (length bs - snd (DecodeLastRune bs)) bs) else bs)"
  by pat_completeness auto
termination
  by (relation "measure (\<lambda>(_, bs). length bs)") (use DecodeLastRune_width in \<open>auto simp: Suc_le_eq\<close>)

declare TrimLeft.simps [simp del] TrimRight.simps [simp del]

definition TrimSpace :: "string \<Rightarrow> string" where
  "TrimSpace s = map char_of (TrimRight IsSpace (TrimLeft IsSpace (bytes_of s)))"

lemma TrimLeft_Nil_iff: "TrimLeft p bs = [] \<longleftrightarrow> (\<forall>r \<in> set (runes bs). p r)"
proof (induction p bs rule: TrimLeft.induct)
  case (1 p bs)
  then show ?case
    by (subst TrimLeft.simps, subst runes.simps) (cases "bs = []"; auto)
qed

lemma TrimSpace_blank: "\<forall>r \<in> set (runes (bytes_of s)). IsSpace r \<Longrightarrow> TrimSpace s = []"
  by (simp add: TrimSpace_def TrimLeft_Nil_iff TrimRight.simps)

lemma TrimSpace_Nil [simp]: "TrimSpace [] = []"
  by (rule TrimSpace_blank) (simp add: runes.simps)

subsection \<open>ASCII\<close>

text \<open>On ASCII text the decoder is the identity, which is how concrete strings are evaluated.\<close>

definition ascii :: "string \<Rightarrow> bool" where
  "ascii s = list_all (\<lambda>c. of_char c < (128 :: nat)) s"

lemma next_rune_ascii: "b < 128 \<Longrightarrow> next_rune (b # bs) = (b, 1)"
  by (simp add: next_rune_def)

lemma runes_ascii: "\<forall>b \<in> set bs. b < 128 \<Longrightarrow> runes bs = bs"
proof (induction bs)
  case (Cons b bs)
  then show ?case by (subst runes.simps) (simp add: next_rune_ascii)
qed simp

lemma utf8_valid_ascii: "\<forall>b \<in> set bs. b < 128 \<Longrightarrow> utf8_valid bs"
proof (induction bs)
  case (Cons b bs)
  then show ?case by (subst utf8_valid_step) auto
qed simp

lemma ascii_bytes: "ascii s \<Longrightarrow> \<forall>b \<in> set (bytes_of s). b < 128"
  by (auto simp: ascii_def bytes_of_def list_all_iff)

lemma ascii_ValidString: "ascii s \<Longrightarrow> ValidString s"
  by (simp add: ValidString_def utf8_valid_ascii ascii_bytes)

lemma ascii_runes: "ascii s \<Longrightarrow> runes (bytes_of s) = map of_char s"
  by (simp add: runes_ascii ascii_bytes bytes_of_def[of s, symmetric])

lemma TrimLeft_ascii: "b < 128 \<Longrightarrow> \<not> p b \<Longrightarrow> TrimLeft p (b # bs) = b # bs"
  by (simp add: TrimLeft.simps next_rune_ascii)

lemma TrimRight_ascii: "b < 128 \<Longrightarrow> \<not> p b \<Longrightarrow> TrimRight p (bs @ [b]) = bs @ [b]"
  by (simp add: TrimRight.simps DecodeLastRune_def)

lemma TrimSpace_nonblank:
  assumes "s \<noteq> []" "of_char (hd s) < (128 :: nat)" "\<not> IsSpace (of_char (hd s))"
    "of_char (last s) < (128 :: nat)" "\<not> IsSpace (of_char (last s))"
  shows "TrimSpace s \<noteq> []"
proof -
  have "bytes_of s = of_char (hd s) # bytes_of (tl s)"
    using assms(1) by (cases s) (simp_all add: bytes_of_def)
  then have "TrimLeft IsSpace (bytes_of s) = bytes_of s" using assms TrimLeft_ascii by metis
  moreover have "bytes_of s = bytes_of (butlast s) @ [of_char (last s)]"
    using assms(1) append_butlast_last_id[OF assms(1)] by (metis bytes_of_append bytes_of_def list.map(1) list.map(2))
  then have "TrimRight IsSpace (bytes_of s) = bytes_of s" using assms TrimRight_ascii by metis
  ultimately show ?thesis using assms(1) by (simp add: TrimSpace_def bytes_of_def)
qed

named_theorems ascii_simps \<open>evaluation of the checks on literal ASCII strings\<close>

declare ascii_ValidString [ascii_simps] ascii_runes [ascii_simps] ascii_def [ascii_simps]
  TrimSpace_nonblank [ascii_simps] IndexFunc_None [ascii_simps] IsControl_def [ascii_simps]
  IsSpace_def [ascii_simps]

end
