(* ===== verification/Types.thy ===== *)
theory Types
  imports Go_Strings
begin

section \<open>The data model\<close>

text \<open>
  Identifiers, limits, sentinel errors and the structs of package \<^verbatim>\<open>mempher\<close>
  (\<^verbatim>\<open>id.go\<close>, \<^verbatim>\<open>errors.go\<close>, \<^verbatim>\<open>episode.go\<close>, \<^verbatim>\<open>encoding.go\<close>, \<^verbatim>\<open>fact.go\<close>, \<^verbatim>\<open>append.go\<close>,
  \<^verbatim>\<open>forget.go\<close>, \<^verbatim>\<open>recall.go\<close>, \<^verbatim>\<open>queue.go\<close>). Records share one name space for their fields, so each
  field carries a short prefix of its struct; the rest of the name is the source's.

  A string type with a closed set of values (\<open>Role\<close>, \<open>Channel\<close>, \<open>JobKind\<close>, \<open>JobState\<close>) stays a
  string, as in the source: a value outside the set can be written down and is what \<open>Valid\<close>
  rejects. A \<^verbatim>\<open>map[string]string\<close> is an association list with distinct keys; nil and empty are
  the same. An id is a 128-bit word, whose order is the order of \<^verbatim>\<open>bytes.Compare\<close>.
\<close>

subsection \<open>Identifiers\<close>

type_synonym uuid = "128 word"
type_synonym EpisodeID = uuid
type_synonym JobID = uuid
type_synonym FactID = uuid
type_synonym ScopeID = string
type_synonym ModelID = string
type_synonym ExtractorID = string
type_synonym WorkerID = string
type_synonym Actor = string
type_synonym Source = string
type_synonym Subject = string
type_synonym Predicate = string

definition id_IsZero :: "uuid \<Rightarrow> bool" where
  "id_IsZero i \<longleftrightarrow> i = 0"

subsection \<open>Limits\<close>

definition MaxScopeIDLen :: nat where "MaxScopeIDLen = 200"
definition MaxActorLen :: nat where "MaxActorLen = 200"
definition MaxSourceLen :: nat where "MaxSourceLen = 100"
definition MaxContentLen :: nat where "MaxContentLen = 2 ^ 20"
definition MaxBindingKeys :: nat where "MaxBindingKeys = 32"
definition MaxBindingKeyLen :: nat where "MaxBindingKeyLen = 64"
definition MaxBindingValueLen :: nat where "MaxBindingValueLen = 512"
definition MaxExtractorLen :: nat where "MaxExtractorLen = 200"
definition MaxSubjectLen :: nat where "MaxSubjectLen = 200"
definition MaxPredicateLen :: nat where "MaxPredicateLen = 100"
definition MaxObjectLen :: nat where "MaxObjectLen = 1000"
definition MaxStatementLen :: nat where "MaxStatementLen = 4000"
definition MaxAssertionsPerExtraction :: nat where "MaxAssertionsPerExtraction = 64"
definition MaxRetractionsPerExtraction :: nat where "MaxRetractionsPerExtraction = 64"
definition MaxAppendBatch :: nat where "MaxAppendBatch = 64"
definition MaxForgetEpisodes :: nat where "MaxForgetEpisodes = 1000"
definition DefaultMaxAttempts :: int where "DefaultMaxAttempts = 5"
definition DefaultLeaseDuration :: int where "DefaultLeaseDuration = 5 * Minute"
definition DefaultRecallLimit :: int where "DefaultRecallLimit = 10"
definition DefaultCandidatesPerChannel :: int where "DefaultCandidatesPerChannel = 50"
definition DefaultFactLimit :: int where "DefaultFactLimit = 32"

lemmas limit_defs =
  MaxScopeIDLen_def MaxActorLen_def MaxSourceLen_def MaxContentLen_def MaxBindingKeys_def
  MaxBindingKeyLen_def MaxBindingValueLen_def MaxExtractorLen_def MaxSubjectLen_def
  MaxPredicateLen_def MaxObjectLen_def MaxStatementLen_def MaxAssertionsPerExtraction_def
  MaxRetractionsPerExtraction_def MaxAppendBatch_def MaxForgetEpisodes_def
  DefaultMaxAttempts_def DefaultLeaseDuration_def DefaultRecallLimit_def
  DefaultCandidatesPerChannel_def DefaultFactLimit_def

subsection \<open>Errors\<close>

text \<open>
  The sentinels of \<^verbatim>\<open>errors.go\<close>, \<^verbatim>\<open>postgres/errors.go\<close> and \<^verbatim>\<open>extract/errors.go\<close>. A wrapped error is
  identified with the sentinel it wraps, which is what \<^verbatim>\<open>errors.Is\<close> sees; an error that wraps
  several is a \<open>Join\<close>. \<open>PgErr\<close> is an error of the server by its SQLSTATE, \<open>Foreign\<close> one that comes
  from a model provider or another dependency.
\<close>

datatype err =
    ErrInvalidScope | ErrInvalidContent | ErrInvalidRole | ErrInvalidSource | ErrInvalidActor
  | ErrInvalidBinding | ErrInvalidChannel | ErrInvalidJobKind | ErrInvalidJobState
  | ErrInvalidFact | ErrInvalidValidity | ErrInvalidExtraction | ErrInvalidConfig
  | ErrNotFound | ErrDimensionMismatch | ErrEmbedderMismatch | ErrFactConflict
  | ErrAllChannelsFailed | ErrJobNotLeased | ErrJobNotDead | ErrJobOutstanding | ErrClosed
  | ErrUnsupportedServer | ErrMissingExtension | ErrUnsupportedExtension | ErrChecksumMismatch
  | ErrDatabaseAhead | ErrSchemaConfigMismatch | ErrSchemaNotReady | ErrLockTimeout
  | ErrMalformedResponse | ErrPromptTooLarge
  | PgErr string | Foreign string | Join "err list"

fun Is :: "err \<Rightarrow> err \<Rightarrow> bool" where
  "Is (Join es) t \<longleftrightarrow> Join es = t \<or> (\<exists>e \<in> set es. Is e t)"
| "Is e t \<longleftrightarrow> e = t"

subsection \<open>Closed string sets\<close>

type_synonym Role = string
type_synonym Channel = string
type_synonym JobKind = string
type_synonym JobState = string

definition RoleUser :: Role where "RoleUser = ''user''"
definition RoleAssistant :: Role where "RoleAssistant = ''assistant''"
definition RoleSystem :: Role where "RoleSystem = ''system''"
definition RoleTool :: Role where "RoleTool = ''tool''"
definition RoleObservation :: Role where "RoleObservation = ''observation''"

definition Role_Valid :: "Role \<Rightarrow> bool" where
  "Role_Valid r \<longleftrightarrow> r \<in> set [RoleUser, RoleAssistant, RoleSystem, RoleTool, RoleObservation]"

text \<open>\<^verbatim>\<open>Role.MarshalText\<close> and \<^verbatim>\<open>Role.UnmarshalText\<close>.\<close>

definition Role_MarshalText :: "Role \<Rightarrow> err + string" where
  "Role_MarshalText r = (if \<not> Role_Valid r then Inl ErrInvalidRole else Inr r)"

definition Role_UnmarshalText :: "string \<Rightarrow> err + Role" where
  "Role_UnmarshalText text = (let candidate = text in
     if \<not> Role_Valid candidate then Inl ErrInvalidRole else Inr candidate)"

definition ChannelSemantic :: Channel where "ChannelSemantic = ''semantic''"
definition ChannelLexical :: Channel where "ChannelLexical = ''lexical''"
definition ChannelFact :: Channel where "ChannelFact = ''fact''"

definition Channel_Valid :: "Channel \<Rightarrow> bool" where
  "Channel_Valid c \<longleftrightarrow> c \<in> set [ChannelSemantic, ChannelLexical, ChannelFact]"

definition JobKindEncode :: JobKind where "JobKindEncode = ''encode''"
definition JobKindExtract :: JobKind where "JobKindExtract = ''extract''"

definition JobKind_Valid :: "JobKind \<Rightarrow> bool" where
  "JobKind_Valid k \<longleftrightarrow> k \<in> set [JobKindEncode, JobKindExtract]"

definition JobStatePending :: JobState where "JobStatePending = ''pending''"
definition JobStateRunning :: JobState where "JobStateRunning = ''running''"
definition JobStateDone :: JobState where "JobStateDone = ''done''"
definition JobStateDead :: JobState where "JobStateDead = ''dead''"

definition JobState_Valid :: "JobState \<Rightarrow> bool" where
  "JobState_Valid s \<longleftrightarrow> s \<in> set [JobStatePending, JobStateRunning, JobStateDone, JobStateDead]"

lemma JobState_neq [simp]:
  "JobStatePending \<noteq> JobStateRunning" "JobStateRunning \<noteq> JobStatePending"
  "JobStatePending \<noteq> JobStateDone" "JobStateDone \<noteq> JobStatePending"
  "JobStatePending \<noteq> JobStateDead" "JobStateDead \<noteq> JobStatePending"
  "JobStateRunning \<noteq> JobStateDone" "JobStateDone \<noteq> JobStateRunning"
  "JobStateRunning \<noteq> JobStateDead" "JobStateDead \<noteq> JobStateRunning"
  "JobStateDone \<noteq> JobStateDead" "JobStateDead \<noteq> JobStateDone"
  by (simp_all add: JobStatePending_def JobStateRunning_def JobStateDone_def JobStateDead_def)

lemma JobState_Valid_simps [simp]:
  "JobState_Valid JobStatePending" "JobState_Valid JobStateRunning"
  "JobState_Valid JobStateDone" "JobState_Valid JobStateDead"
  by (simp_all add: JobState_Valid_def)

lemma Channel_neq [simp]:
  "ChannelSemantic \<noteq> ChannelLexical" "ChannelLexical \<noteq> ChannelSemantic"
  "ChannelSemantic \<noteq> ChannelFact" "ChannelFact \<noteq> ChannelSemantic"
  "ChannelLexical \<noteq> ChannelFact" "ChannelFact \<noteq> ChannelLexical"
  by (simp_all add: ChannelSemantic_def ChannelLexical_def ChannelFact_def)

lemma JobKind_neq [simp]: "JobKindEncode \<noteq> JobKindExtract" "JobKindExtract \<noteq> JobKindEncode"
  by (simp_all add: JobKindEncode_def JobKindExtract_def)

lemma JobKind_Valid_simps [simp]: "JobKind_Valid JobKindEncode" "JobKind_Valid JobKindExtract"
  by (simp_all add: JobKind_Valid_def)

lemmas string_set_defs =
  RoleUser_def RoleAssistant_def RoleSystem_def RoleTool_def RoleObservation_def
  ChannelSemantic_def ChannelLexical_def ChannelFact_def JobKindEncode_def JobKindExtract_def
  JobStatePending_def JobStateRunning_def JobStateDone_def JobStateDead_def

subsection \<open>Episodes and encodings\<close>

type_synonym Binding = "(string \<times> string) list"

record Episode =
  ep_ID :: EpisodeID
  ep_Scope :: ScopeID
  ep_Seq :: int
  ep_Content :: string
  ep_Role :: Role
  ep_Actor :: Actor
  ep_Source :: Source
  ep_OccurredAt :: gotime
  ep_IngestedAt :: gotime
  ep_Binding :: Binding

record NewEpisode =
  ne_Scope :: ScopeID
  ne_Content :: string
  ne_Role :: Role
  ne_Actor :: Actor
  ne_Source :: Source
  ne_OccurredAt :: gotime
  ne_IngestedAt :: gotime
  ne_Binding :: Binding

type_synonym Vector = "float32 list"

record Encoding =
  en_Episode :: EpisodeID
  en_Model :: ModelID
  en_Vector :: Vector
  en_Surprise :: float32
  en_EncodedAt :: gotime

subsection \<open>Facts\<close>

record Validity =
  v_From :: gotime
  v_To :: gotime

record Fact =
  f_ID :: FactID
  f_Scope :: ScopeID
  f_Extractor :: ExtractorID
  f_Subject :: Subject
  f_Predicate :: Predicate
  f_Object :: string
  f_Statement :: string
  f_Valid :: Validity
  f_Confidence :: float32
  f_Episodes :: "EpisodeID list"
  f_AssertedAt :: gotime
  f_UpdatedAt :: gotime

record Assertion =
  a_Subject :: Subject
  a_Predicate :: Predicate
  a_Object :: string
  a_Statement :: string
  a_Valid :: Validity
  a_Confidence :: float32

record Retraction =
  r_Fact :: FactID
  r_At :: gotime

record ExtractRequest =
  xr_Scope :: ScopeID
  xr_Episodes :: "Episode list"
  xr_Known :: "Fact list"
  xr_Now :: gotime

record ExtractResult =
  xs_Assert :: "Assertion list"
  xs_Retract :: "Retraction list"

record ExtractCommand =
  xc_Scope :: ScopeID
  xc_Extractor :: ExtractorID
  xc_Episodes :: "EpisodeID list"
  xc_Assert :: "Assertion list"
  xc_Retract :: "Retraction list"
  xc_At :: gotime

record FactQuery =
  fq_Scope :: ScopeID
  fq_Extractor :: ExtractorID
  fq_AsOf :: gotime
  fq_At :: gotime
  fq_IncludeClosed :: bool
  fq_Subjects :: "Subject list"
  fq_Predicates :: "Predicate list"
  fq_MinConfidence :: float32
  fq_Text :: string
  fq_Limit :: int

subsection \<open>Jobs\<close>

record NewJob =
  nj_Kind :: JobKind
  nj_Scope :: ScopeID
  nj_Episodes :: "EpisodeID list"
  nj_RunAfter :: gotime
  nj_MaxAttempts :: int

record Job =
  j_ID :: JobID
  j_Kind :: JobKind
  j_Scope :: ScopeID
  j_Episodes :: "EpisodeID list"
  j_State :: JobState
  j_Attempts :: int
  j_MaxAttempts :: int
  j_RunAfter :: gotime
  j_LeasedUntil :: gotime
  j_LeasedBy :: WorkerID
  j_LastError :: string
  j_CreatedAt :: gotime
  j_UpdatedAt :: gotime

record LeaseRequest =
  lr_Kinds :: "JobKind list"
  lr_Worker :: WorkerID
  lr_Limit :: int
  lr_Duration :: int
  lr_Now :: gotime

subsection \<open>Writing and erasing\<close>

record AppendRequest =
  ar_Scope :: ScopeID
  ar_Content :: string
  ar_Role :: Role
  ar_Actor :: Actor
  ar_Source :: Source
  ar_OccurredAt :: gotime
  ar_Binding :: Binding

record AppendCommand =
  ac_Episodes :: "NewEpisode list"
  ac_Jobs :: "NewJob list"

record AppendResult =
  as_Episodes :: "Episode list"
  as_Jobs :: "Job list"

record ForgetRequest =
  fr_Scope :: ScopeID
  fr_Episodes :: "EpisodeID list"

record ForgetResult =
  fs_Scope :: ScopeID
  fs_Episodes :: nat
  fs_Encodings :: nat
  fs_Facts :: nat
  fs_Extractions :: nat
  fs_Jobs :: nat
  fs_ScopeRemoved :: bool

subsection \<open>Recall\<close>

record ChannelQuery =
  cq_Scope :: ScopeID
  cq_AsOf :: gotime
  cq_OccurredFrom :: gotime
  cq_OccurredTo :: gotime
  cq_Binding :: Binding
  cq_Roles :: "Role list"
  cq_Limit :: int

record SemanticQuery = ChannelQuery +
  sq_Vector :: Vector
  sq_Model :: ModelID

record LexicalQuery = ChannelQuery +
  lq_Text :: string

text \<open>Scores are \<^verbatim>\<open>float64\<close>; a channel's native score is carried along and never computed with.\<close>

type_synonym float64 = rat

record Candidate =
  cd_Episode :: Episode
  cd_Channel :: Channel
  cd_Rank :: int
  cd_Score :: float64

record RecallRequest =
  rr_Scope :: ScopeID
  rr_Query :: string
  rr_AsOf :: gotime
  rr_OccurredFrom :: gotime
  rr_OccurredTo :: gotime
  rr_Binding :: Binding
  rr_Roles :: "Role list"
  rr_Channels :: "Channel list"
  rr_CandidatesPerChannel :: int
  rr_Limit :: int
  rr_FactLimit :: int
  rr_MinFactConfidence :: float32
  rr_Subjects :: "Subject list"
  rr_MaxTokens :: int

record ChannelHit =
  h_Channel :: Channel
  h_Rank :: int
  h_Score :: float64

record ChannelReport =
  cr_Channel :: Channel
  cr_Candidates :: nat
  cr_Duration :: int
  cr_Err :: "err option"

record RecalledEpisode =
  re_Episode :: Episode
  re_Score :: float64
  re_Hits :: "ChannelHit list"
  re_Tokens :: int

record RecalledFact =
  rf_Fact :: Fact
  rf_Tokens :: int

record Recollection =
  rc_Scope :: ScopeID
  rc_AsOf :: gotime
  rc_Facts :: "RecalledFact list"
  rc_Episodes :: "RecalledEpisode list"
  rc_Channels :: "ChannelReport list"
  rc_Tokens :: int
  rc_Truncated :: bool

end
