(* ===== verification/Validity_Window.thy ===== *)
theory Validity_Window
  imports Types
begin

section \<open>Validity windows\<close>

text \<open>
  \<^verbatim>\<open>Validity\<close> of \<^verbatim>\<open>fact.go\<close> and its validation in \<^verbatim>\<open>validate.go\<close>: the half-open event-time window
  of a fact, open-ended when \<open>To\<close> is the zero time. The operations are related to the set of
  instants a window denotes, and to the PostgreSQL range \<^verbatim>\<open>tstzrange(from, to)\<close> it is stored as.
\<close>

definition IsOpen :: "Validity \<Rightarrow> bool" where
  "IsOpen v \<longleftrightarrow> IsZero (v_To v)"

definition Contains :: "Validity \<Rightarrow> gotime \<Rightarrow> bool" where
  "Contains v t = (if Before t (v_From v) then False else IsOpen v \<or> Before t (v_To v))"

definition Overlaps :: "Validity \<Rightarrow> Validity \<Rightarrow> bool" where
  "Overlaps v other =
     (if \<not> IsOpen v \<and> \<not> Before (v_From other) (v_To v) then False
      else if \<not> IsOpen other \<and> \<not> Before (v_From v) (v_To other) then False
      else True)"

definition Validity_Validate :: "Validity \<Rightarrow> err option" where
  "Validity_Validate v = first_err
     [reject_if (IsZero (v_From v)) ErrInvalidValidity,
      reject_if (\<not> IsOpen v \<and> \<not> Before (v_From v) (v_To v)) ErrInvalidValidity]"

lemmas window_defs = IsOpen_def Contains_def Overlaps_def time_simps

text \<open>What a window denotes: the instants at which it holds.\<close>

definition window :: "Validity \<Rightarrow> int set" where
  "window v = {t. Contains v (Time t 0)}"

lemma mem_window:
  "t \<in> window v \<longleftrightarrow> instant (v_From v) \<le> t \<and> (instant (v_To v) = 0 \<or> t < instant (v_To v))"
  by (auto simp: window_def window_defs)

lemma Contains_window: "Contains v t \<longleftrightarrow> instant t \<in> window v"
  by (auto simp: window_def window_defs)

lemma window_nonempty:
  "window v \<noteq> {} \<longleftrightarrow> IsOpen v \<or> Before (v_From v) (v_To v)"
proof
  assume "window v \<noteq> {}"
  then obtain t where "t \<in> window v" by blast
  then show "IsOpen v \<or> Before (v_From v) (v_To v)" by (auto simp: mem_window window_defs)
next
  assume "IsOpen v \<or> Before (v_From v) (v_To v)"
  then have "instant (v_From v) \<in> window v" by (auto simp: mem_window window_defs)
  then show "window v \<noteq> {}" by blast
qed

lemma Validity_Validate_None:
  "Validity_Validate v = None \<longleftrightarrow> \<not> IsZero (v_From v) \<and> window v \<noteq> {}"
  by (auto simp: Validity_Validate_def window_nonempty)

lemma Validity_Validate_err: "Validity_Validate v = Some e \<Longrightarrow> e = ErrInvalidValidity"
  unfolding Validity_Validate_def by (drule first_err_Some_mem) auto

lemma Overlaps_window:
  assumes "window v \<noteq> {}" "window w \<noteq> {}"
  shows "Overlaps v w \<longleftrightarrow> window v \<inter> window w \<noteq> {}"
proof
  assume "Overlaps v w"
  then have "max (instant (v_From v)) (instant (v_From w)) \<in> window v \<inter> window w"
    using assms by (auto simp: mem_window window_nonempty window_defs split: if_splits)
  then show "window v \<inter> window w \<noteq> {}" by blast
next
  assume "window v \<inter> window w \<noteq> {}"
  then obtain t where "t \<in> window v" "t \<in> window w" by blast
  then show "Overlaps v w" by (auto simp: mem_window window_defs)
qed

lemma Overlaps_commute: "Overlaps v w = Overlaps w v"
  by (auto simp: Overlaps_def)

text \<open>
  Two windows that pass validation overlap, as \<^verbatim>\<open>Validity.Overlaps\<close> decides it, exactly when
  some instant lies in both. Half-openness is part of this: a window that ends at noon and one
  that begins at noon do not overlap.
\<close>

theorem Overlaps_iff_shared_instant:
  assumes "Validity_Validate v = None" "Validity_Validate w = None"
  shows "Overlaps v w \<longleftrightarrow> (\<exists>t. Contains v t \<and> Contains w t)"
proof -
  have "(\<exists>t. Contains v t \<and> Contains w t) \<longleftrightarrow> window v \<inter> window w \<noteq> {}"
    unfolding Contains_window by (metis disjoint_iff gotime.sel(1))
  then show ?thesis using assms by (simp add: Validity_Validate_None Overlaps_window)
qed

theorem Overlaps_iff_shared_instant_witness:
  "Overlaps \<lparr>v_From = Time 10 0, v_To = Time 20 0\<rparr> \<lparr>v_From = Time 15 3, v_To = zero_time\<rparr> \<longleftrightarrow>
     (\<exists>t. Contains \<lparr>v_From = Time 10 0, v_To = Time 20 0\<rparr> t \<and>
          Contains \<lparr>v_From = Time 15 3, v_To = zero_time\<rparr> t)"
  by (rule Overlaps_iff_shared_instant)
     (simp_all add: Validity_Validate_def reject_if_def window_defs)

end
