(* ===== verification/Validate.thy ===== *)
theory Validate
  imports Validity_Window
begin

section \<open>Input validation\<close>

text \<open>
  \<^verbatim>\<open>validate.go\<close>: one definition per \<open>Validate\<close> method, the checks in the source's order, each check
  with the sentinel it reports. \<open>None\<close> is Go's \<open>nil\<close>.
\<close>

definition ScopeID_Validate :: "ScopeID \<Rightarrow> err option" where
  "ScopeID_Validate s = first_err
     [reject_if (length s = 0) ErrInvalidScope,
      reject_if (length s > MaxScopeIDLen) ErrInvalidScope,
      reject_if (\<not> ValidString s) ErrInvalidScope,
      reject_if (IndexFunc s IsControl \<noteq> None) ErrInvalidScope]"

definition Actor_Validate :: "Actor \<Rightarrow> err option" where
  "Actor_Validate a = first_err
     [reject_if (length a > MaxActorLen) ErrInvalidActor,
      reject_if (\<not> ValidString a) ErrInvalidActor]"

definition Source_Validate :: "Source \<Rightarrow> err option" where
  "Source_Validate s = first_err
     [reject_if (length s = 0) ErrInvalidSource,
      reject_if (length s > MaxSourceLen) ErrInvalidSource,
      reject_if (\<not> ValidString s) ErrInvalidSource]"

definition binding_entry_check :: "string \<times> string \<Rightarrow> err option" where
  "binding_entry_check kv = (case kv of (key, value) \<Rightarrow> first_err
     [reject_if (length key = 0) ErrInvalidBinding,
      reject_if (length key > MaxBindingKeyLen) ErrInvalidBinding,
      reject_if (length value > MaxBindingValueLen) ErrInvalidBinding,
      reject_if (\<not> ValidString key \<or> \<not> ValidString value) ErrInvalidBinding])"

definition Binding_Validate :: "Binding \<Rightarrow> err option" where
  "Binding_Validate b = first_err
     (reject_if (length b > MaxBindingKeys) ErrInvalidBinding # map binding_entry_check b)"

definition AppendRequest_Validate :: "AppendRequest \<Rightarrow> err option" where
  "AppendRequest_Validate r = first_err
     [ScopeID_Validate (ar_Scope r),
      reject_if (length (ar_Content r) = 0) ErrInvalidContent,
      reject_if (length (ar_Content r) > MaxContentLen) ErrInvalidContent,
      reject_if (\<not> ValidString (ar_Content r)) ErrInvalidContent,
      reject_if (\<not> Role_Valid (ar_Role r)) ErrInvalidRole,
      Actor_Validate (ar_Actor r),
      Source_Validate (ar_Source r),
      Binding_Validate (ar_Binding r)]"

definition Subject_Validate :: "Subject \<Rightarrow> err option" where
  "Subject_Validate s = first_err
     [reject_if (length s = 0) ErrInvalidFact,
      reject_if (length s > MaxSubjectLen) ErrInvalidFact,
      reject_if (\<not> ValidString s) ErrInvalidFact,
      reject_if (IndexFunc s IsControl \<noteq> None) ErrInvalidFact]"

definition Predicate_Validate :: "Predicate \<Rightarrow> err option" where
  "Predicate_Validate p = first_err
     [reject_if (length p = 0) ErrInvalidFact,
      reject_if (length p > MaxPredicateLen) ErrInvalidFact,
      reject_if (\<not> ValidString p) ErrInvalidFact,
      reject_if (IndexFunc p IsSpace \<noteq> None) ErrInvalidFact,
      reject_if (IndexFunc p IsControl \<noteq> None) ErrInvalidFact]"

definition outside_unit :: "float32 \<Rightarrow> bool" where
  "outside_unit c \<longleftrightarrow> flt c (Fin 0) \<or> flt (Fin 1) c"

definition RecallRequest_Validate :: "RecallRequest \<Rightarrow> err option" where
  "RecallRequest_Validate r = first_err
     ([ScopeID_Validate (rr_Scope r),
       reject_if (TrimSpace (rr_Query r) = '''') ErrInvalidContent,
       reject_if (length (rr_Query r) > MaxContentLen) ErrInvalidContent]
      @ map (\<lambda>ch. reject_if (\<not> Channel_Valid ch) ErrInvalidChannel) (rr_Channels r)
      @ map (\<lambda>role. reject_if (\<not> Role_Valid role) ErrInvalidRole) (rr_Roles r)
      @ map Subject_Validate (rr_Subjects r)
      @ [reject_if (rr_Limit r < 0) ErrInvalidConfig,
         reject_if (rr_FactLimit r < 0) ErrInvalidConfig,
         reject_if (outside_unit (rr_MinFactConfidence r)) ErrInvalidConfig,
         reject_if (rr_CandidatesPerChannel r < 0) ErrInvalidConfig,
         reject_if (rr_MaxTokens r < 0) ErrInvalidConfig,
         reject_if (\<not> IsZero (rr_OccurredFrom r) \<and> \<not> IsZero (rr_OccurredTo r)
           \<and> Before (rr_OccurredTo r) (rr_OccurredFrom r)) ErrInvalidConfig,
         Binding_Validate (rr_Binding r)])"

definition Assertion_Validate :: "Assertion \<Rightarrow> err option" where
  "Assertion_Validate a = first_err
     [Subject_Validate (a_Subject a),
      Predicate_Validate (a_Predicate a),
      reject_if (length (a_Object a) = 0) ErrInvalidFact,
      reject_if (length (a_Object a) > MaxObjectLen) ErrInvalidFact,
      reject_if (\<not> ValidString (a_Object a)) ErrInvalidFact,
      reject_if (TrimSpace (a_Statement a) = '''') ErrInvalidFact,
      reject_if (length (a_Statement a) > MaxStatementLen) ErrInvalidFact,
      reject_if (\<not> ValidString (a_Statement a)) ErrInvalidFact,
      reject_if (outside_unit (a_Confidence a)) ErrInvalidFact,
      Validity_Validate (a_Valid a)]"

definition Retraction_Validate :: "Retraction \<Rightarrow> err option" where
  "Retraction_Validate r = first_err
     [reject_if (id_IsZero (r_Fact r)) ErrInvalidExtraction,
      reject_if (IsZero (r_At r)) ErrInvalidExtraction]"

definition ExtractCommand_Validate :: "ExtractCommand \<Rightarrow> err option" where
  "ExtractCommand_Validate c = first_err
     ([ScopeID_Validate (xc_Scope c),
       reject_if (xc_Extractor c = '''') ErrInvalidExtraction,
       reject_if (length (xc_Episodes c) = 0) ErrInvalidExtraction,
       reject_if (length (xc_Assert c) > MaxAssertionsPerExtraction) ErrInvalidExtraction,
       reject_if (length (xc_Retract c) > MaxRetractionsPerExtraction) ErrInvalidExtraction,
       reject_if (IsZero (xc_At c)) ErrInvalidExtraction]
      @ map (\<lambda>episode. reject_if (id_IsZero episode) ErrInvalidExtraction) (xc_Episodes c)
      @ map Assertion_Validate (xc_Assert c)
      @ map Retraction_Validate (xc_Retract c))"

definition FactQuery_Validate :: "FactQuery \<Rightarrow> err option" where
  "FactQuery_Validate q = first_err
     ([ScopeID_Validate (fq_Scope q),
       reject_if (fq_Extractor q = '''') ErrInvalidConfig]
      @ map Subject_Validate (fq_Subjects q)
      @ map Predicate_Validate (fq_Predicates q)
      @ [reject_if (outside_unit (fq_MinConfidence q)) ErrInvalidConfig,
         reject_if (fq_Limit q < 0) ErrInvalidConfig,
         reject_if (length (fq_Text q) > MaxContentLen) ErrInvalidContent])"

definition ForgetRequest_Validate :: "ForgetRequest \<Rightarrow> err option" where
  "ForgetRequest_Validate r = first_err
     ([ScopeID_Validate (fr_Scope r),
       reject_if (length (fr_Episodes r) > MaxForgetEpisodes) ErrInvalidConfig]
      @ map (\<lambda>i. reject_if (id_IsZero i) ErrInvalidConfig) (fr_Episodes r))"

text \<open>Facts the components rest on: what passing a check guarantees.\<close>

lemma ScopeID_Validate_None:
  "ScopeID_Validate s = None \<longleftrightarrow>
     s \<noteq> '''' \<and> length s \<le> 200 \<and> ValidString s \<and> (\<forall>r \<in> set (runes (bytes_of s)). \<not> IsControl r)"
  by (auto simp: ScopeID_Validate_def limit_defs IndexFunc_None)

lemma Subject_Validate_None:
  "Subject_Validate s = None \<longleftrightarrow>
     s \<noteq> '''' \<and> length s \<le> 200 \<and> ValidString s \<and> (\<forall>r \<in> set (runes (bytes_of s)). \<not> IsControl r)"
  by (auto simp: Subject_Validate_def limit_defs IndexFunc_None)

lemma Predicate_Validate_None:
  "Predicate_Validate s = None \<longleftrightarrow>
     s \<noteq> '''' \<and> length s \<le> 100 \<and> ValidString s
     \<and> (\<forall>r \<in> set (runes (bytes_of s)). \<not> IsControl r \<and> \<not> IsSpace r)"
  by (auto simp: Predicate_Validate_def limit_defs IndexFunc_None)

lemma Binding_Validate_None:
  "Binding_Validate b = None \<longleftrightarrow> length b \<le> 32 \<and>
     (\<forall>(k, v) \<in> set b. k \<noteq> '''' \<and> length k \<le> 64 \<and> length v \<le> 512 \<and> ValidString k \<and> ValidString v)"
  by (auto simp: Binding_Validate_def binding_entry_check_def limit_defs split: prod.splits)

end
