(* ===== verification/Schema.thy ===== *)
theory Schema
  imports Validate
begin

section \<open>The database schema\<close>

text \<open>
  \<^verbatim>\<open>postgres/migrations/*.sql\<close>: one record per table row, the \<^verbatim>\<open>CHECK\<close> constraints of each table as
  a boolean function of the row, and the state of the database as one record of tables. A table is
  a list of rows; \<^verbatim>\<open>INSERT\<close> appends, \<^verbatim>\<open>UPDATE\<close> is \<open>update_where\<close>, \<^verbatim>\<open>DELETE\<close> is \<open>delete_where\<close>. A
  timestamp column holds an instant; \<^verbatim>\<open>NULL\<close> is \<open>None\<close>. \<open>db_inv\<close> is what the keys, foreign keys and
  checks guarantee, together with what the code maintains beyond them: the denormalised columns
  agree with the episode they copy, and no fact names an episode that is gone.

  Two facts about the server are parameters: which byte strings it accepts as \<^verbatim>\<open>text\<close> (\<open>text_ok\<close>) and
  the ids that \<^verbatim>\<open>uuidv7()\<close> mints. PostgreSQL's \<^verbatim>\<open>length(text)\<close> counts characters.
\<close>

subsection \<open>Rows\<close>

record scope_row =
  sc_id :: string
  sc_last_seq :: int
  sc_created_at :: int

record episode_row =
  er_id :: uuid
  er_scope :: string
  er_seq :: int
  er_content :: string
  er_role :: string
  er_actor :: string
  er_source :: string
  er_occurred_at :: int
  er_ingested_at :: int
  er_binding :: Binding

record encoding_row =
  nr_episode :: uuid
  nr_model :: string
  nr_scope :: string
  nr_ingested_at :: int
  nr_vec :: Vector
  nr_surprise :: float32
  nr_encoded_at :: int

record fact_row =
  fw_id :: uuid
  fw_scope :: string
  fw_extractor :: string
  fw_subject :: string
  fw_predicate :: string
  fw_object :: string
  fw_statement :: string
  fw_lower :: int
  fw_upper :: "int option"
  fw_confidence :: float32
  fw_episodes :: "uuid list"
  fw_asserted_at :: int
  fw_updated_at :: int

record extraction_row =
  xw_episode :: uuid
  xw_extractor :: string
  xw_scope :: string
  xw_ingested_at :: int
  xw_fact_count :: nat
  xw_extracted_at :: int

record job_row =
  jr_id :: uuid
  jr_kind :: string
  jr_scope :: string
  jr_episodes :: "uuid list"
  jr_state :: string
  jr_attempts :: int
  jr_max_attempts :: int
  jr_run_after :: int
  jr_leased_until :: "int option"
  jr_leased_by :: "string option"
  jr_last_error :: "string option"
  jr_created_at :: int
  jr_updated_at :: int

text \<open>\<open>db_ready\<close>: the schema exists. \<open>db_dims\<close>: the vector width it was migrated for.\<close>

record db =
  db_ready :: bool
  db_dims :: nat
  scopes :: "scope_row list"
  episodes :: "episode_row list"
  encodings :: "encoding_row list"
  facts :: "fact_row list"
  extractions :: "extraction_row list"
  jobs :: "job_row list"

subsection \<open>Column checks\<close>

definition char_length :: "string \<Rightarrow> nat" where
  "char_length s = length (runes (bytes_of s))"

definition len_between :: "nat \<Rightarrow> nat \<Rightarrow> string \<Rightarrow> bool" where
  "len_between lo hi s \<longleftrightarrow> lo \<le> char_length s \<and> char_length s \<le> hi"

definition in_unit :: "float32 \<Rightarrow> bool" where
  "in_unit c \<longleftrightarrow> pg_le (Fin 0) c \<and> pg_le c (Fin 1)"

definition scope_check :: "scope_row \<Rightarrow> bool" where
  "scope_check r \<longleftrightarrow> len_between 1 200 (sc_id r) \<and> 0 \<le> sc_last_seq r"

definition episode_check :: "episode_row \<Rightarrow> bool" where
  "episode_check r \<longleftrightarrow> 0 < er_seq r \<and> len_between 1 1048576 (er_content r) \<and>
     er_role r \<in> set [''user'', ''assistant'', ''system'', ''tool'', ''observation''] \<and>
     len_between 1 100 (er_source r) \<and> len_between 0 200 (er_actor r) \<and> length (er_binding r) \<le> 32"

definition encoding_check :: "nat \<Rightarrow> encoding_row \<Rightarrow> bool" where
  "encoding_check dims r \<longleftrightarrow> length (nr_vec r) = dims \<and> in_unit (nr_surprise r) \<and>
     len_between 1 200 (nr_model r)"

definition fact_check :: "fact_row \<Rightarrow> bool" where
  "fact_check r \<longleftrightarrow> in_unit (fw_confidence r) \<and> len_between 1 200 (fw_extractor r) \<and>
     len_between 1 200 (fw_subject r) \<and> len_between 1 100 (fw_predicate r) \<and>
     len_between 1 1000 (fw_object r) \<and> len_between 1 4000 (fw_statement r) \<and>
     list_all (\<lambda>c. \<not> IsSpace c) (runes (bytes_of (fw_predicate r))) \<and>
     fw_episodes r \<noteq> [] \<and> (case fw_upper r of None \<Rightarrow> True | Some u \<Rightarrow> fw_lower r < u)"

definition extraction_check :: "extraction_row \<Rightarrow> bool" where
  "extraction_check r \<longleftrightarrow> len_between 1 200 (xw_extractor r)"

definition job_check :: "job_row \<Rightarrow> bool" where
  "job_check r \<longleftrightarrow> jr_kind r \<in> set [''encode'', ''extract''] \<and>
     jr_state r \<in> set [''pending'', ''running'', ''done'', ''dead''] \<and> jr_episodes r \<noteq> [] \<and>
     0 \<le> jr_attempts r \<and> 0 < jr_max_attempts r \<and> jr_attempts r \<le> jr_max_attempts r \<and>
     (jr_state r = ''running'') = (jr_leased_until r \<noteq> None \<and> jr_leased_by r \<noteq> None)"

subsection \<open>Keys\<close>

definition inflight :: "job_row \<Rightarrow> bool" where
  "inflight r \<longleftrightarrow> jr_state r \<in> set [''pending'', ''running'']"

definition job_key :: "job_row \<Rightarrow> string \<times> string \<times> uuid list" where
  "job_key r = (jr_kind r, jr_scope r, jr_episodes r)"

definition claim_key :: "fact_row \<Rightarrow> string \<times> string \<times> string \<times> string \<times> string" where
  "claim_key r = (fw_scope r, fw_extractor r, fw_subject r, fw_predicate r, fw_object r)"

text \<open>Whether two ranges \<^verbatim>\<open>[l, u)\<close> overlap, an absent upper bound being infinity (\<^verbatim>\<open>&&\<close>).\<close>

definition below :: "int \<Rightarrow> int option \<Rightarrow> bool" where
  "below t u = (case u of None \<Rightarrow> True | Some u \<Rightarrow> t < u)"

definition range_overlaps :: "int \<Rightarrow> int option \<Rightarrow> int \<Rightarrow> int option \<Rightarrow> bool" where
  "range_overlaps l1 u1 l2 u2 \<longleftrightarrow> below l1 u2 \<and> below l2 u1"

definition claims_overlap :: "fact_row \<Rightarrow> fact_row \<Rightarrow> bool" where
  "claims_overlap r s \<longleftrightarrow> claim_key r = claim_key s \<and>
     range_overlaps (fw_lower r) (fw_upper r) (fw_lower s) (fw_upper s)"

subsection \<open>The invariant of the database\<close>

definition scopes_ok :: "db \<Rightarrow> bool" where
  "scopes_ok d \<longleftrightarrow> distinct (map sc_id (scopes d)) \<and> (\<forall>r \<in> set (scopes d). scope_check r)"

definition episodes_ok :: "db \<Rightarrow> bool" where
  "episodes_ok d \<longleftrightarrow> distinct (map er_id (episodes d)) \<and>
     distinct (map (\<lambda>r. (er_scope r, er_seq r)) (episodes d)) \<and>
     (\<forall>r \<in> set (episodes d). episode_check r \<and>
        (\<exists>s \<in> set (scopes d). sc_id s = er_scope r \<and> er_seq r \<le> sc_last_seq s))"

definition encodings_ok :: "db \<Rightarrow> bool" where
  "encodings_ok d \<longleftrightarrow> distinct (map (\<lambda>r. (nr_episode r, nr_model r)) (encodings d)) \<and>
     (\<forall>r \<in> set (encodings d). encoding_check (db_dims d) r \<and>
        (\<exists>e \<in> set (episodes d). er_id e = nr_episode r \<and> er_scope e = nr_scope r \<and>
           er_ingested_at e = nr_ingested_at r))"

definition facts_ok :: "db \<Rightarrow> bool" where
  "facts_ok d \<longleftrightarrow> distinct (map fw_id (facts d)) \<and>
     (\<forall>r \<in> set (facts d). \<forall>s \<in> set (facts d). claims_overlap r s \<longrightarrow> fw_id r = fw_id s) \<and>
     (\<forall>r \<in> set (facts d). fact_check r \<and> fw_scope r \<in> sc_id ` set (scopes d) \<and>
        (\<forall>i \<in> set (fw_episodes r). \<exists>e \<in> set (episodes d). er_id e = i \<and> er_scope e = fw_scope r))"

definition extractions_ok :: "db \<Rightarrow> bool" where
  "extractions_ok d \<longleftrightarrow> distinct (map (\<lambda>r. (xw_episode r, xw_extractor r)) (extractions d)) \<and>
     (\<forall>r \<in> set (extractions d). extraction_check r \<and>
        (\<exists>e \<in> set (episodes d). er_id e = xw_episode r \<and> er_scope e = xw_scope r \<and>
           er_ingested_at e = xw_ingested_at r))"

definition jobs_ok :: "db \<Rightarrow> bool" where
  "jobs_ok d \<longleftrightarrow> distinct (map jr_id (jobs d)) \<and>
     distinct (map job_key (filter inflight (jobs d))) \<and>
     (\<forall>r \<in> set (jobs d). job_check r \<and> jr_scope r \<in> sc_id ` set (scopes d))"

definition db_inv :: "db \<Rightarrow> bool" where
  "db_inv d \<longleftrightarrow> scopes_ok d \<and> episodes_ok d \<and> encodings_ok d \<and> facts_ok d \<and> extractions_ok d \<and> jobs_ok d"

definition empty_db :: "nat \<Rightarrow> db" where
  "empty_db dims = \<lparr>db_ready = True, db_dims = dims, scopes = [], episodes = [], encodings = [],
     facts = [], extractions = [], jobs = []\<rparr>"

lemma db_inv_empty: "db_inv (empty_db dims)"
  by (simp add: db_inv_def scopes_ok_def episodes_ok_def encodings_ok_def facts_ok_def
      extractions_ok_def jobs_ok_def empty_db_def)

lemmas table_ok_defs =
  scopes_ok_def episodes_ok_def encodings_ok_def facts_ok_def extractions_ok_def jobs_ok_def

lemma db_inv_tables:
  assumes "db_inv d"
  shows "scopes_ok d" "episodes_ok d" "encodings_ok d" "facts_ok d" "extractions_ok d" "jobs_ok d"
  using assms by (simp_all add: db_inv_def)

text \<open>
  A table only mentions the tables it refers to, so a change elsewhere leaves it alone. Adding rows
  to the referenced tables never breaks a reference.
\<close>

lemma encodings_ok_mono:
  assumes "encodings_ok d" "set (episodes d) \<subseteq> set (episodes d')"
    "encodings d' = encodings d" "db_dims d' = db_dims d"
  shows "encodings_ok d'"
  using assms unfolding encodings_ok_def by (metis subsetD)

lemma extractions_ok_mono:
  assumes "extractions_ok d" "set (episodes d) \<subseteq> set (episodes d')" "extractions d' = extractions d"
  shows "extractions_ok d'"
  using assms unfolding extractions_ok_def by (metis subsetD)

lemma facts_ok_mono:
  assumes "facts_ok d" "set (episodes d) \<subseteq> set (episodes d')"
    "sc_id ` set (scopes d) \<subseteq> sc_id ` set (scopes d')" "facts d' = facts d"
  shows "facts_ok d'"
  using assms unfolding facts_ok_def by (metis subsetD)

lemma jobs_ok_mono:
  assumes "jobs_ok d" "sc_id ` set (scopes d) \<subseteq> sc_id ` set (scopes d')" "jobs d' = jobs d"
  shows "jobs_ok d'"
  using assms unfolding jobs_ok_def by auto

subsection \<open>The checks mirror the validation\<close>

lemma char_length_le: "char_length s \<le> length s"
  using length_runes_le[of "bytes_of s"] by (simp add: char_length_def)

lemma char_length_pos: "s \<noteq> [] \<Longrightarrow> 1 \<le> char_length s"
  by (simp add: char_length_def Suc_le_eq bytes_of_def)

lemma len_betweenI:
  assumes "s \<noteq> []" "length s \<le> n"
  shows "len_between 1 n s" "len_between (Suc 0) n s"
  using assms char_length_le[of s] char_length_pos[of s] by (simp_all add: len_between_def)

lemma len_between0I: "length s \<le> n \<Longrightarrow> len_between 0 n s"
  using char_length_le[of s] by (simp add: len_between_def)

lemma in_unit_iff: "in_unit c \<longleftrightarrow> \<not> outside_unit c \<and> c \<noteq> NaN"
  by (cases c) (auto simp: in_unit_def outside_unit_def)

lemma Role_Valid_check:
  "Role_Valid r \<longleftrightarrow> r \<in> set [''user'', ''assistant'', ''system'', ''tool'', ''observation'']"
  by (simp add: Role_Valid_def string_set_defs)

lemma JobKind_Valid_check: "JobKind_Valid k \<longleftrightarrow> k \<in> set [''encode'', ''extract'']"
  by (simp add: JobKind_Valid_def string_set_defs)

lemma JobState_Valid_check:
  "JobState_Valid s \<longleftrightarrow> s \<in> set [''pending'', ''running'', ''done'', ''dead'']"
  by (simp add: JobState_Valid_def string_set_defs)

lemma inflight_iff: "inflight r \<longleftrightarrow> jr_state r = JobStatePending \<or> jr_state r = JobStateRunning"
  by (auto simp: inflight_def string_set_defs)

lemma job_check_iff:
  "job_check r \<longleftrightarrow> JobKind_Valid (jr_kind r) \<and> JobState_Valid (jr_state r) \<and> jr_episodes r \<noteq> [] \<and>
     0 \<le> jr_attempts r \<and> 0 < jr_max_attempts r \<and> jr_attempts r \<le> jr_max_attempts r \<and>
     (jr_state r = JobStateRunning) = (jr_leased_until r \<noteq> None \<and> jr_leased_by r \<noteq> None)"
  by (simp add: job_check_def JobKind_Valid_check JobState_Valid_check JobStateRunning_def)

subsection \<open>Statements\<close>

text \<open>
  The SQLSTATEs of \<^verbatim>\<open>postgres/store.go\<close> and \<^verbatim>\<open>postgres/fact.go\<close>, and those the server raises that
  the code passes through. A statement either fails and changes nothing, \<open>Inl (PgErr code)\<close>, or
  returns its rows and the new state; on an unmigrated database every statement fails with
  \<^verbatim>\<open>undefined_table\<close>.
\<close>

definition pgerrcodeUndefinedTable :: string where "pgerrcodeUndefinedTable = ''42P01''"
definition pgerrcodeInvalidSchema :: string where "pgerrcodeInvalidSchema = ''3F000''"
definition pgerrcodeUniqueViolation :: string where "pgerrcodeUniqueViolation = ''23505''"
definition pgerrcodeCheckViolation :: string where "pgerrcodeCheckViolation = ''23514''"
definition pgerrcodeForeignKeyViolat :: string where "pgerrcodeForeignKeyViolat = ''23503''"
definition pgerrcodeExclusionViolation :: string where "pgerrcodeExclusionViolation = ''23P01''"
definition pg_invalid_text :: string where "pg_invalid_text = ''22021''"
definition pg_out_of_range :: string where "pg_out_of_range = ''22003''"

lemmas pgcode_defs =
  pgerrcodeUndefinedTable_def pgerrcodeInvalidSchema_def pgerrcodeUniqueViolation_def
  pgerrcodeCheckViolation_def pgerrcodeForeignKeyViolat_def pgerrcodeExclusionViolation_def
  pg_invalid_text_def pg_out_of_range_def

definition isCode :: "err \<Rightarrow> string list \<Rightarrow> bool" where
  "isCode e codes = (case e of PgErr code \<Rightarrow> code \<in> set codes | _ \<Rightarrow> False)"

definition notReady :: "err \<Rightarrow> bool" where
  "notReady e = isCode e [pgerrcodeUndefinedTable, pgerrcodeInvalidSchema]"

type_synonym 'a result = "err + 'a \<times> db"

definition stmt :: "db \<Rightarrow> 'a result \<Rightarrow> 'a result" where
  "stmt d body = (if \<not> db_ready d then Inl (PgErr pgerrcodeUndefinedTable) else body)"

text \<open>The documented rule for \<^verbatim>\<open>text\<close> values: valid UTF-8 without the character zero.\<close>

definition text_rule :: "(string \<Rightarrow> bool) \<Rightarrow> bool" where
  "text_rule text_ok \<longleftrightarrow> (\<forall>s. text_ok s \<longleftrightarrow> ValidString s \<and> CHR 0x00 \<notin> set s)"

end
