(* ===== verification/Episode_Log.thy ===== *)
theory Episode_Log
  imports Schema
begin

section \<open>L0: the episode log\<close>

text \<open>
  \<^verbatim>\<open>postgres/episode.go\<close>: \<open>Append\<close> with its one statement \<^verbatim>\<open>appendSQL\<close>, \<open>Episode\<close> and \<open>Replay\<close>.
  \<open>mint_e k\<close> and \<open>mint_j k\<close> are the ids the server's \<^verbatim>\<open>uuidv7()\<close> yields for the \<open>k\<close>-th episode
  and job row of the statement; \<open>text_ok\<close> says which strings the server accepts.
\<close>

subsection \<open>Reading a row\<close>

definition scanEpisode :: "episode_row \<Rightarrow> err + Episode" where
  "scanEpisode r =
     (if \<not> Role_Valid (er_role r) then Inl ErrInvalidRole
      else Inr \<lparr>ep_ID = er_id r, ep_Scope = er_scope r, ep_Seq = er_seq r, ep_Content = er_content r,
                ep_Role = er_role r, ep_Actor = er_actor r, ep_Source = er_source r,
                ep_OccurredAt = Time (er_occurred_at r) 0, ep_IngestedAt = Time (er_ingested_at r) 0,
                ep_Binding = er_binding r\<rparr>)"

subsection \<open>Append\<close>

definition probe_of :: "NewEpisode \<Rightarrow> AppendRequest" where
  "probe_of ep = \<lparr>ar_Scope = ne_Scope ep, ar_Content = ne_Content ep, ar_Role = ne_Role ep,
     ar_Actor = ne_Actor ep, ar_Source = ne_Source ep, ar_OccurredAt = zero_time,
     ar_Binding = ne_Binding ep\<rparr>"

definition validate_new_episode :: "ScopeID \<Rightarrow> NewEpisode \<Rightarrow> err option" where
  "validate_new_episode scope ep = first_err
     [AppendRequest_Validate (probe_of ep),
      reject_if (IsZero (ne_OccurredAt ep) \<or> IsZero (ne_IngestedAt ep)) ErrInvalidConfig,
      reject_if (ne_Scope ep \<noteq> scope) ErrInvalidConfig]"

fun validate_append_jobs :: "JobKind set \<Rightarrow> NewJob list \<Rightarrow> err option" where
  "validate_append_jobs kinds [] = None"
| "validate_append_jobs kinds (job # js) = first_err
     [reject_if (\<not> JobKind_Valid (nj_Kind job)) ErrInvalidJobKind,
      reject_if (length (nj_Episodes job) > 0) ErrInvalidConfig,
      reject_if (nj_MaxAttempts job < 0) ErrInvalidConfig,
      reject_if (nj_Kind job \<in> kinds) ErrInvalidConfig,
      validate_append_jobs (insert (nj_Kind job) kinds) js]"

definition validateAppend :: "AppendCommand \<Rightarrow> err option" where
  "validateAppend cmd =
     (if ac_Episodes cmd = [] then Some ErrInvalidConfig
      else first_err
        (map (validate_new_episode (ne_Scope (hd (ac_Episodes cmd)))) (ac_Episodes cmd)
         @ [validate_append_jobs {} (ac_Jobs cmd)]))"

definition wrapAppendError :: "err \<Rightarrow> err" where
  "wrapAppendError e = (if notReady e then ErrSchemaNotReady else e)"

text \<open>The rows of the statement.\<close>

definition new_episode_row :: "uuid \<Rightarrow> ScopeID \<Rightarrow> int \<Rightarrow> NewEpisode \<Rightarrow> episode_row" where
  "new_episode_row i scope seq ep =
     \<lparr>er_id = i, er_scope = scope, er_seq = seq, er_content = ne_Content ep, er_role = ne_Role ep,
      er_actor = ne_Actor ep, er_source = ne_Source ep,
      er_occurred_at = instant (ne_OccurredAt ep), er_ingested_at = instant (ne_IngestedAt ep),
      er_binding = ne_Binding ep\<rparr>"

definition append_rows :: "(nat \<Rightarrow> uuid) \<Rightarrow> ScopeID \<Rightarrow> int \<Rightarrow> NewEpisode list \<Rightarrow> episode_row list" where
  "append_rows mint_e scope base eps =
     map (\<lambda>k. new_episode_row (mint_e k) scope (base + int k + 1) (eps ! k)) [0..<length eps]"

definition append_job_row ::
  "uuid \<Rightarrow> ScopeID \<Rightarrow> EpisodeID list \<Rightarrow> gotime \<Rightarrow> NewJob \<Rightarrow> job_row" where
  "append_job_row i scope ids ts job =
     (let runAfter = (if IsZero (nj_RunAfter job) then ts else nj_RunAfter job);
          tries = (if int32_of (nj_MaxAttempts job) = 0 then DefaultMaxAttempts
                   else int32_of (nj_MaxAttempts job))
      in \<lparr>jr_id = i, jr_kind = nj_Kind job, jr_scope = scope, jr_episodes = ids,
          jr_state = JobStatePending, jr_attempts = 0, jr_max_attempts = tries,
          jr_run_after = instant runAfter, jr_leased_until = None, jr_leased_by = None,
          jr_last_error = None, jr_created_at = instant ts, jr_updated_at = instant ts\<rparr>)"

definition append_job_rows ::
  "(nat \<Rightarrow> uuid) \<Rightarrow> ScopeID \<Rightarrow> EpisodeID list \<Rightarrow> gotime \<Rightarrow> NewJob list \<Rightarrow> job_row list" where
  "append_job_rows mint_j scope ids ts js =
     map (\<lambda>k. append_job_row (mint_j k) scope ids ts (js ! k)) [0..<length js]"

text \<open>\<^verbatim>\<open>INSERT ... ON CONFLICT ... WHERE state IN ('pending', 'running') DO NOTHING\<close>, row by row.\<close>

definition job_conflicts :: "job_row list \<Rightarrow> job_row \<Rightarrow> bool" where
  "job_conflicts js r \<longleftrightarrow> (\<exists>x \<in> set js. inflight x \<and> job_key x = job_key r)"

fun insert_jobs :: "job_row list \<Rightarrow> job_row list \<Rightarrow> job_row list \<times> job_row list" where
  "insert_jobs js [] = ([], js)"
| "insert_jobs js (r # rs) =
     (if job_conflicts js r then insert_jobs js rs
      else let (ins, js') = insert_jobs (js @ [r]) rs in (r # ins, js'))"

definition scope_last_seq :: "db \<Rightarrow> ScopeID \<Rightarrow> int" where
  "scope_last_seq d scope =
     (case find (\<lambda>r. sc_id r = scope) (scopes d) of None \<Rightarrow> 0 | Some r \<Rightarrow> sc_last_seq r)"

definition upsert_scope :: "ScopeID \<Rightarrow> int \<Rightarrow> int \<Rightarrow> scope_row list \<Rightarrow> scope_row list" where
  "upsert_scope scope n ts rows =
     (if scope \<in> sc_id ` set rows
      then update_where (\<lambda>r. sc_id r = scope) (\<lambda>r. r\<lparr>sc_last_seq := sc_last_seq r + n\<rparr>) rows
      else rows @ [\<lparr>sc_id = scope, sc_last_seq = n, sc_created_at = ts\<rparr>])"

definition episode_texts :: "NewEpisode \<Rightarrow> string list" where
  "episode_texts ep = [ne_Scope ep, ne_Content ep, ne_Role ep, ne_Actor ep, ne_Source ep]
     @ concat (map (\<lambda>(k, v). [k, v]) (ne_Binding ep))"

definition appendSQL ::
  "(string \<Rightarrow> bool) \<Rightarrow> (nat \<Rightarrow> uuid) \<Rightarrow> (nat \<Rightarrow> uuid) \<Rightarrow> ScopeID \<Rightarrow> int \<Rightarrow> gotime \<Rightarrow>
   NewEpisode list \<Rightarrow> NewJob list \<Rightarrow> db \<Rightarrow> (episode_row list \<times> job_row list) result" where
  "appendSQL text_ok mint_e mint_j scope n ts eps specs d = stmt d
     (let base = scope_last_seq d scope;
          eps' = append_rows mint_e scope base eps;
          specs' = append_job_rows mint_j scope (map er_id eps') ts specs;
          (ins, jobs') = insert_jobs (jobs d) specs';
          d' = d\<lparr>scopes := upsert_scope scope n (instant ts) (scopes d),
                 episodes := episodes d @ eps', jobs := jobs'\<rparr>
      in if \<not> list_all text_ok (concat (map episode_texts eps)) then Inl (PgErr pg_invalid_text)
         else if 2 ^ 63 \<le> base + n then Inl (PgErr pg_out_of_range)
         else if \<not> (list_all scope_check (scopes d') \<and> list_all episode_check eps' \<and> list_all job_check ins)
         then Inl (PgErr pgerrcodeCheckViolation)
         else if \<not> (distinct (map er_id (episodes d'))
                   \<and> distinct (map (\<lambda>r. (er_scope r, er_seq r)) (episodes d'))
                   \<and> distinct (map jr_id jobs'))
         then Inl (PgErr pgerrcodeUniqueViolation)
         else Inr ((eps', ins), d'))"

definition appended_episode :: "NewEpisode \<Rightarrow> episode_row \<Rightarrow> Episode" where
  "appended_episode ep r =
     \<lparr>ep_ID = er_id r, ep_Scope = ne_Scope ep, ep_Seq = er_seq r, ep_Content = ne_Content ep,
      ep_Role = ne_Role ep, ep_Actor = ne_Actor ep, ep_Source = ne_Source ep,
      ep_OccurredAt = UTC (ne_OccurredAt ep), ep_IngestedAt = UTC (ne_IngestedAt ep),
      ep_Binding = ne_Binding ep\<rparr>"

definition appended_job :: "ScopeID \<Rightarrow> EpisodeID list \<Rightarrow> job_row \<Rightarrow> Job" where
  "appended_job scope ids r =
     \<lparr>j_ID = jr_id r, j_Kind = jr_kind r, j_Scope = scope, j_Episodes = ids, j_State = jr_state r,
      j_Attempts = jr_attempts r, j_MaxAttempts = jr_max_attempts r,
      j_RunAfter = Time (jr_run_after r) 0, j_LeasedUntil = zero_time, j_LeasedBy = '''',
      j_LastError = '''', j_CreatedAt = Time (jr_created_at r) 0, j_UpdatedAt = Time (jr_updated_at r) 0\<rparr>"

definition Append ::
  "(string \<Rightarrow> bool) \<Rightarrow> (nat \<Rightarrow> uuid) \<Rightarrow> (nat \<Rightarrow> uuid) \<Rightarrow> AppendCommand \<Rightarrow> db \<Rightarrow> AppendResult result" where
  "Append text_ok mint_e mint_j cmd d =
     (case validateAppend cmd of Some e \<Rightarrow> Inl e
      | None \<Rightarrow>
          let eps = ac_Episodes cmd; n = length eps; scope = ne_Scope (hd eps);
              ts = ne_IngestedAt (hd eps)
          in case appendSQL text_ok mint_e mint_j scope (int32_of (int n)) ts eps (ac_Jobs cmd) d of
               Inl e \<Rightarrow> Inl (wrapAppendError e)
             | Inr ((rows, js), d') \<Rightarrow>
                 let sorted = sort_by (le_key er_seq) rows;
                     ids = map er_id sorted
                 in Inr (\<lparr>as_Episodes = map2 appended_episode eps sorted,
                          as_Jobs = map (appended_job scope ids) js\<rparr>, d'))"

subsection \<open>Episode and Replay\<close>

definition Episode :: "ScopeID \<Rightarrow> EpisodeID \<Rightarrow> db \<Rightarrow> err + Episode" where
  "Episode scope i d =
     (case ScopeID_Validate scope of Some e \<Rightarrow> Inl e
      | None \<Rightarrow>
          if id_IsZero i then Inl ErrNotFound
          else if \<not> db_ready d then Inl (PgErr pgerrcodeUndefinedTable)
          else case find (\<lambda>r. er_scope r = scope \<and> er_id r = i) (episodes d) of
                 None \<Rightarrow> Inl ErrNotFound
               | Some r \<Rightarrow> scanEpisode r)"

definition Replay :: "ScopeID \<Rightarrow> int \<Rightarrow> int \<Rightarrow> db \<Rightarrow> err + Episode list" where
  "Replay scope afterSeq limit d =
     (case first_err [ScopeID_Validate scope,
                      reject_if (afterSeq < 0) ErrInvalidConfig,
                      reject_if (limit \<le> 0) ErrInvalidConfig] of
        Some e \<Rightarrow> Inl e
      | None \<Rightarrow>
          if \<not> db_ready d then Inl (PgErr pgerrcodeUndefinedTable)
          else traverse scanEpisode
                 (take (nat limit) (sort_by (le_key er_seq)
                    (filter (\<lambda>r. er_scope r = scope \<and> afterSeq < er_seq r) (episodes d)))))"

subsection \<open>Lemmas about the statement\<close>

lemma insert_jobs_append: "snd (insert_jobs js rs) = js @ fst (insert_jobs js rs)"
  by (induction js rs rule: insert_jobs.induct) (auto split: prod.splits)

lemma insert_jobs_subset: "set (fst (insert_jobs js rs)) \<subseteq> set rs"
  by (induction js rs rule: insert_jobs.induct) (auto split: prod.splits)

lemma insert_jobs_inflight:
  assumes "distinct (map job_key (filter inflight js))" "\<forall>r \<in> set rs. inflight r"
  shows "distinct (map job_key (filter inflight (snd (insert_jobs js rs))))"
  using assms
proof (induction js rs rule: insert_jobs.induct)
  case (2 js r rs)
  show ?case
  proof (cases "job_conflicts js r")
    case True
    with 2 show ?thesis by simp
  next
    case False
    then have "job_key r \<notin> job_key ` set (filter inflight js)" by (auto simp: job_conflicts_def)
    with 2 False show ?thesis by (auto split: prod.splits)
  qed
qed simp

lemma insert_jobs_fresh:
  assumes "\<forall>r \<in> set rs. \<not> job_conflicts js r" "distinct (map job_key rs)"
  shows "insert_jobs js rs = (rs, js @ rs)"
  using assms
proof (induction js rs rule: insert_jobs.induct)
  case (2 js r rs)
  then have "\<forall>x \<in> set rs. \<not> job_conflicts (js @ [r]) x" by (auto simp: job_conflicts_def)
  with 2 show ?case by simp
qed simp

lemma length_append_rows [simp]: "length (append_rows mint_e scope base eps) = length eps"
  by (simp add: append_rows_def)

lemma append_rows_nth:
  "k < length eps \<Longrightarrow>
   append_rows mint_e scope base eps ! k = new_episode_row (mint_e k) scope (base + int k + 1) (eps ! k)"
  by (simp add: append_rows_def)

lemma er_id_append_rows: "map er_id (append_rows mint_e scope base eps) = map mint_e [0..<length eps]"
  by (simp add: append_rows_def new_episode_row_def)

lemma er_seq_append_rows:
  "map er_seq (append_rows mint_e scope base eps) = map (\<lambda>k. base + int k + 1) [0..<length eps]"
  by (simp add: append_rows_def new_episode_row_def)

lemma in_append_rows:
  "r \<in> set (append_rows mint_e scope base eps) \<Longrightarrow>
   er_scope r = scope \<and> base < er_seq r \<and> er_seq r \<le> base + int (length eps)"
  by (auto simp: append_rows_def new_episode_row_def)

lemma append_rows_sorted:
  "sorted_wrt (le_key er_seq) (append_rows mint_e scope base eps)"
  by (auto simp: sorted_wrt_iff_nth_less append_rows_nth new_episode_row_def le_key_def)

interpretation by_seq: total_preorder "le_key er_seq"
  by (rule total_preorder_le_key)

lemma sort_append_rows [simp]:
  "sort_by (le_key er_seq) (append_rows mint_e scope base eps) = append_rows mint_e scope base eps"
  by (rule by_seq.sort_by_sorted) (rule append_rows_sorted)

lemma in_append_job_rows:
  "r \<in> set (append_job_rows mint_j scope ids ts js) \<Longrightarrow>
   inflight r \<and> jr_scope r = scope \<and> jr_episodes r = ids \<and> jr_attempts r = 0"
  by (auto simp: append_job_rows_def append_job_row_def Let_def inflight_iff)

lemma map_id_upsert: "map sc_id (upsert_scope scope n ts rows) =
    (if scope \<in> sc_id ` set rows then map sc_id rows else map sc_id rows @ [scope])"
  by (simp add: upsert_scope_def map_update_where)

lemma upsert_ids: "sc_id ` set (upsert_scope scope n ts rows) = insert scope (sc_id ` set rows)"
proof -
  have "sc_id ` set (upsert_scope scope n ts rows) = set (map sc_id (upsert_scope scope n ts rows))"
    by simp
  then show ?thesis unfolding map_id_upsert by auto
qed

lemma upsert_grows:
  assumes "s \<in> set rows" "0 \<le> n"
  shows "\<exists>s' \<in> set (upsert_scope scope n ts rows). sc_id s' = sc_id s \<and> sc_last_seq s \<le> sc_last_seq s'"
proof (cases "scope \<in> sc_id ` set rows")
  case True
  let ?s = "if sc_id s = scope then s\<lparr>sc_last_seq := sc_last_seq s + n\<rparr> else s"
  have "?s \<in> set (upsert_scope scope n ts rows)"
    using update_where_mem[OF assms(1), of "\<lambda>r. sc_id r = scope"] True
    by (simp only: upsert_scope_def if_True)
  with assms show ?thesis by (intro bexI[of _ ?s]) auto
qed (use assms in \<open>auto simp: upsert_scope_def\<close>)

lemma upsert_last:
  assumes "distinct (map sc_id (scopes d))"
  shows "\<exists>s \<in> set (upsert_scope scope n ts (scopes d)).
    sc_id s = scope \<and> sc_last_seq s = scope_last_seq d scope + n"
proof (cases "scope \<in> sc_id ` set (scopes d)")
  case True
  then obtain r where r: "r \<in> set (scopes d)" "sc_id r = scope" by blast
  then have "scope_last_seq d scope = sc_last_seq r"
    using distinct_map_find[OF assms r(1)] by (simp add: scope_last_seq_def)
  moreover have "r\<lparr>sc_last_seq := sc_last_seq r + n\<rparr> \<in> set (upsert_scope scope n ts (scopes d))"
    using update_where_mem[OF r(1), of "\<lambda>r. sc_id r = scope"] r(2) True by (simp add: upsert_scope_def)
  ultimately show ?thesis using r(2)
    by (intro bexI[of _ "r\<lparr>sc_last_seq := sc_last_seq r + n\<rparr>"]) simp_all
next
  case False
  then have "find (\<lambda>r. sc_id r = scope) (scopes d) = None" by (auto simp: find_None_iff)
  with False show ?thesis by (simp add: upsert_scope_def scope_last_seq_def)
qed

definition append_db ::
  "(nat \<Rightarrow> uuid) \<Rightarrow> (nat \<Rightarrow> uuid) \<Rightarrow> ScopeID \<Rightarrow> int \<Rightarrow> gotime \<Rightarrow> NewEpisode list \<Rightarrow> NewJob list \<Rightarrow> db \<Rightarrow> db" where
  "append_db mint_e mint_j scope n ts eps specs d =
     (let eps' = append_rows mint_e scope (scope_last_seq d scope) eps
      in d\<lparr>scopes := upsert_scope scope n (instant ts) (scopes d), episodes := episodes d @ eps',
           jobs := snd (insert_jobs (jobs d) (append_job_rows mint_j scope (map er_id eps') ts specs))\<rparr>)"

lemma appendSQL_Inr:
  assumes "appendSQL text_ok mint_e mint_j scope n ts eps specs d = Inr ((rows, ins), d')"
  shows "db_ready d" "rows = append_rows mint_e scope (scope_last_seq d scope) eps"
    "ins = fst (insert_jobs (jobs d) (append_job_rows mint_j scope (map er_id rows) ts specs))"
    "d' = append_db mint_e mint_j scope n ts eps specs d"
    "\<forall>r \<in> set (scopes d'). scope_check r" "\<forall>r \<in> set rows. episode_check r" "\<forall>r \<in> set ins. job_check r"
    "distinct (map er_id (episodes d'))" "distinct (map (\<lambda>r. (er_scope r, er_seq r)) (episodes d'))"
    "distinct (map jr_id (jobs d'))"
  using assms
  by (auto simp: appendSQL_def stmt_def Let_def append_db_def list_all_iff split: if_splits prod.splits)

lemma append_db_jobs:
  "jobs (append_db mint_e mint_j scope n ts eps specs d) =
     jobs d @ fst (insert_jobs (jobs d) (append_job_rows mint_j scope
       (map er_id (append_rows mint_e scope (scope_last_seq d scope) eps)) ts specs))"
  by (simp add: append_db_def Let_def insert_jobs_append)

lemma append_db_simps [simp]:
  "episodes (append_db mint_e mint_j scope n ts eps specs d) =
     episodes d @ append_rows mint_e scope (scope_last_seq d scope) eps"
  "scopes (append_db mint_e mint_j scope n ts eps specs d) = upsert_scope scope n (instant ts) (scopes d)"
  "encodings (append_db mint_e mint_j scope n ts eps specs d) = encodings d"
  "facts (append_db mint_e mint_j scope n ts eps specs d) = facts d"
  "extractions (append_db mint_e mint_j scope n ts eps specs d) = extractions d"
  "db_dims (append_db mint_e mint_j scope n ts eps specs d) = db_dims d"
  "db_ready (append_db mint_e mint_j scope n ts eps specs d) = db_ready d"
  by (simp_all add: append_db_def Let_def)

lemma appendSQL_inv:
  assumes inv: "db_inv d"
    and ok: "appendSQL text_ok mint_e mint_j scope n ts eps specs d = Inr ((rows, ins), d')"
    and n: "n = int (length eps)"
  shows "db_inv d'"
proof -
  note A = appendSQL_Inr[OF ok]
  note T = db_inv_tables[OF inv]
  have ids: "sc_id ` set (scopes d) \<subseteq> sc_id ` set (scopes d')"
    by (auto simp: A(4) upsert_ids)
  have eps: "set (episodes d) \<subseteq> set (episodes d')" by (simp add: A(4))
  have sc: "scopes_ok d'"
    using T(1) A(5) by (auto simp: scopes_ok_def A(4) map_id_upsert)
  have "\<exists>s \<in> set (scopes d'). sc_id s = er_scope r \<and> er_seq r \<le> sc_last_seq s"
    if r: "r \<in> set (episodes d')" for r
  proof (cases "r \<in> set (episodes d)")
    case True
    then obtain s where "s \<in> set (scopes d)" "sc_id s = er_scope r" "er_seq r \<le> sc_last_seq s"
      using T(2) by (auto simp: episodes_ok_def)
    then show ?thesis using upsert_grows[of s "scopes d" n scope "instant ts"] n by (force simp: A(4))
  next
    case False
    then have "r \<in> set rows" using r by (simp add: A(2,4))
    then have "er_scope r = scope" "er_seq r \<le> scope_last_seq d scope + n"
      using in_append_rows n by (fastforce simp: A(2))+
    then show ?thesis using upsert_last[of d scope n "instant ts"] T(1) by (auto simp: A(4) scopes_ok_def)
  qed
  moreover have "episode_check r" if "r \<in> set (episodes d')" for r
    using that T(2) A(6) by (auto simp: A(4) A(2) episodes_ok_def)
  ultimately have ep: "episodes_ok d'" using A(8,9) by (simp add: episodes_ok_def)
  have sub: "set ins \<subseteq> set (append_job_rows mint_j scope (map er_id rows) ts specs)"
    unfolding A(3) by (rule insert_jobs_subset)
  have "distinct (map job_key (filter inflight (jobs d')))"
    using T(6) insert_jobs_inflight[of "jobs d"] in_append_job_rows
    by (auto simp: A(4) append_db_def Let_def jobs_ok_def)
  moreover have "jobs d' = jobs d @ ins" by (simp add: A(4) append_db_jobs A(3) A(2))
  moreover have "job_check r \<and> jr_scope r \<in> sc_id ` set (scopes d')" if "r \<in> set (jobs d @ ins)" for r
    using that A(7) sub T(6) ids in_append_job_rows
    by (fastforce simp: jobs_ok_def A(4) upsert_ids)
  ultimately have "jobs_ok d'" using A(10) by (simp add: jobs_ok_def)
  with sc ep show ?thesis unfolding db_inv_def
    using encodings_ok_mono[OF T(3) eps] facts_ok_mono[OF T(4) eps ids] extractions_ok_mono[OF T(5) eps]
    by (simp add: A(4))
qed

subsection \<open>When an append succeeds\<close>

text \<open>
  What an append needs beyond a valid command: a migrated database, text the server accepts,
  sequence numbers that fit a \<^verbatim>\<open>bigint\<close>, attempts that fit an \<^verbatim>\<open>int\<close>, and ids from \<^verbatim>\<open>uuidv7()\<close> that
  are new and that no outstanding job already names.
\<close>

definition fresh_ids :: "(nat \<Rightarrow> uuid) \<Rightarrow> nat \<Rightarrow> uuid list \<Rightarrow> bool" where
  "fresh_ids mint n used \<longleftrightarrow> distinct (map mint [0..<n]) \<and> list_all (\<lambda>i. i \<notin> set used \<and> i \<noteq> 0) (map mint [0..<n])"

definition append_admissible ::
  "(string \<Rightarrow> bool) \<Rightarrow> (nat \<Rightarrow> uuid) \<Rightarrow> (nat \<Rightarrow> uuid) \<Rightarrow> AppendCommand \<Rightarrow> db \<Rightarrow> bool" where
  "append_admissible text_ok mint_e mint_j cmd d \<longleftrightarrow>
     (let n = length (ac_Episodes cmd); scope = ne_Scope (hd (ac_Episodes cmd)) in
      db_ready d \<and> n < 2 ^ 31 \<and> scope_last_seq d scope + int n < 2 ^ 63 \<and>
      list_all text_ok (concat (map episode_texts (ac_Episodes cmd))) \<and>
      list_all (\<lambda>j. nj_MaxAttempts j < 2 ^ 31) (ac_Jobs cmd) \<and>
      fresh_ids mint_e n (map er_id (episodes d)) \<and>
      fresh_ids mint_j (length (ac_Jobs cmd)) (map jr_id (jobs d)) \<and>
      list_all (\<lambda>r. \<not> (inflight r \<and> jr_episodes r = map mint_e [0..<n])) (jobs d))"

lemma fresh_ids_distinct:
  "fresh_ids mint n used \<Longrightarrow> distinct used \<Longrightarrow> distinct (used @ map mint [0..<n])"
  by (auto simp: fresh_ids_def list_all_iff)

lemma validate_new_episode_None:
  "validate_new_episode scope ep = None \<Longrightarrow>
     AppendRequest_Validate (probe_of ep) = None \<and> ne_Scope ep = scope \<and>
     \<not> IsZero (ne_OccurredAt ep) \<and> \<not> IsZero (ne_IngestedAt ep)"
  by (simp add: validate_new_episode_def)

lemma AppendRequest_checks:
  assumes "AppendRequest_Validate r = None"
  shows "ScopeID_Validate (ar_Scope r) = None" "len_between 1 1048576 (ar_Content r)"
    "Role_Valid (ar_Role r)" "len_between 1 100 (ar_Source r)" "len_between 0 200 (ar_Actor r)"
    "length (ar_Binding r) \<le> 32"
  using assms
  by (auto simp: AppendRequest_Validate_def Actor_Validate_def Source_Validate_def
      Binding_Validate_None limit_defs intro!: len_betweenI len_between0I)

lemma episode_check_new:
  assumes "validate_new_episode scope ep = None" "0 < seq"
  shows "episode_check (new_episode_row i scope seq ep)"
  using AppendRequest_checks[OF validate_new_episode_None[OF assms(1), THEN conjunct1]] assms(2)
  by (simp add: episode_check_def new_episode_row_def probe_of_def Role_Valid_check)

lemma validateAppend_None:
  assumes "validateAppend cmd = None"
  shows "ac_Episodes cmd \<noteq> []"
    "\<forall>ep \<in> set (ac_Episodes cmd). validate_new_episode (ne_Scope (hd (ac_Episodes cmd))) ep = None"
    "validate_append_jobs {} (ac_Jobs cmd) = None"
  using assms by (auto simp: validateAppend_def split: if_splits)

lemma validate_append_jobs_None:
  "validate_append_jobs kinds js = None \<Longrightarrow>
   distinct (map nj_Kind js) \<and> (\<forall>j \<in> set js. nj_Kind j \<notin> kinds \<and> JobKind_Valid (nj_Kind j) \<and>
     nj_Episodes j = [] \<and> 0 \<le> nj_MaxAttempts j)"
proof (induction kinds js rule: validate_append_jobs.induct)
  case (2 kinds job js)
  then show ?case by auto
qed simp

lemma append_job_row_check:
  assumes "JobKind_Valid (nj_Kind j)" "0 \<le> nj_MaxAttempts j" "nj_MaxAttempts j < 2 ^ 31" "ids \<noteq> []"
  shows "job_check (append_job_row i scope ids ts j)"
  using assms by (auto simp: job_check_iff append_job_row_def Let_def DefaultMaxAttempts_def)

lemma seq_le_last:
  assumes "db_inv d" "r \<in> set (episodes d)"
  shows "er_seq r \<le> scope_last_seq d (er_scope r)"
proof -
  obtain s where s: "s \<in> set (scopes d)" "sc_id s = er_scope r" "er_seq r \<le> sc_last_seq s"
    using assms by (auto simp: db_inv_def episodes_ok_def)
  then show ?thesis
    using distinct_map_find[of sc_id "scopes d" s] assms(1)
    by (auto simp: db_inv_def scopes_ok_def scope_last_seq_def)
qed

lemma last_seq_nonneg: "db_inv d \<Longrightarrow> 0 \<le> scope_last_seq d scope"
  by (auto simp: scope_last_seq_def db_inv_def scopes_ok_def scope_check_def find_Some_iff
      split: option.split)

lemma append_keys_distinct:
  assumes "db_inv d"
  shows "distinct (map (\<lambda>r. (er_scope r, er_seq r))
    (episodes d @ append_rows mint_e scope (scope_last_seq d scope) eps))"
proof -
  let ?new = "append_rows mint_e scope (scope_last_seq d scope) eps"
  have "distinct (map er_seq ?new)"
    unfolding er_seq_append_rows by (auto simp: distinct_map inj_on_def)
  then have "distinct (map (\<lambda>r. (er_scope r, er_seq r)) ?new)"
    by (auto simp: distinct_map inj_on_def)
  moreover have "(er_scope r, er_seq r) \<noteq> (er_scope q, er_seq q)"
    if "r \<in> set (episodes d)" "q \<in> set ?new" for r q
    using seq_le_last[OF assms that(1)] in_append_rows[OF that(2)] by auto
  ultimately show ?thesis using assms by (auto simp: db_inv_def episodes_ok_def)
qed

lemma upsert_checks:
  assumes "\<forall>r \<in> set rows. scope_check r" "0 \<le> n" "len_between 1 200 scope"
  shows "\<forall>r \<in> set (upsert_scope scope n ts rows). scope_check r"
  using assms by (auto simp: upsert_scope_def set_update_where scope_check_def)

lemma append_job_rows_fresh:
  assumes "list_all (\<lambda>r. \<not> (inflight r \<and> jr_episodes r = ids)) js" "distinct (map nj_Kind specs)"
  shows "insert_jobs js (append_job_rows mint_j scope ids ts specs) =
    (append_job_rows mint_j scope ids ts specs, js @ append_job_rows mint_j scope ids ts specs)"
proof (rule insert_jobs_fresh)
  show "\<forall>r \<in> set (append_job_rows mint_j scope ids ts specs). \<not> job_conflicts js r"
    using assms(1) by (auto simp: job_conflicts_def job_key_def list_all_iff dest!: in_append_job_rows)
  have "map jr_kind (append_job_rows mint_j scope ids ts specs) = map nj_Kind specs"
    by (rule nth_equalityI) (simp_all add: append_job_rows_def append_job_row_def Let_def)
  then have "distinct (map jr_kind (append_job_rows mint_j scope ids ts specs))" using assms(2) by simp
  then show "distinct (map job_key (append_job_rows mint_j scope ids ts specs))"
    by (auto simp: distinct_map job_key_def inj_on_def)
qed

lemma appendSQL_ok:
  fixes ts :: gotime
  assumes v: "validateAppend cmd = None" and inv: "db_inv d"
    and adm: "append_admissible text_ok mint_e mint_j cmd d"
  defines "eps \<equiv> ac_Episodes cmd" and "scope \<equiv> ne_Scope (hd (ac_Episodes cmd))"
  defines "rows \<equiv> append_rows mint_e scope (scope_last_seq d scope) eps"
  defines "js \<equiv> append_job_rows mint_j scope (map er_id rows) ts (ac_Jobs cmd)"
  defines "d' \<equiv> append_db mint_e mint_j scope (int (length eps)) ts eps (ac_Jobs cmd) d"
  shows "appendSQL text_ok mint_e mint_j scope (int (length eps)) ts eps (ac_Jobs cmd) d =
      Inr ((rows, js), d')"
    and "jobs d' = jobs d @ js"
proof -
  note V = validateAppend_None[OF v, folded eps_def scope_def]
  note J = validate_append_jobs_None[OF V(3)]
  have adm': "db_ready d" "scope_last_seq d scope + int (length eps) < 2 ^ 63"
    "list_all text_ok (concat (map episode_texts eps))"
    "\<forall>j \<in> set (ac_Jobs cmd). nj_MaxAttempts j < 2 ^ 31"
    "fresh_ids mint_e (length eps) (map er_id (episodes d))"
    "fresh_ids mint_j (length (ac_Jobs cmd)) (map jr_id (jobs d))"
    "list_all (\<lambda>r. \<not> (inflight r \<and> jr_episodes r = map er_id rows)) (jobs d)"
    using adm
    by (simp_all add: append_admissible_def Let_def eps_def scope_def rows_def er_id_append_rows list_all_iff)
  have ins: "insert_jobs (jobs d) js = (js, jobs d @ js)"
    unfolding js_def by (rule append_job_rows_fresh[OF adm'(7)]) (use J in simp)
  then show jobs: "jobs d' = jobs d @ js"
    by (simp add: d'_def append_db_def js_def rows_def Let_def)
  have hd: "hd eps \<in> set eps" using V(1) by simp
  have "ScopeID_Validate scope = None"
    using V(2) hd validate_new_episode_None[of scope "hd eps"] AppendRequest_checks(1)[of "probe_of (hd eps)"]
    by (auto simp: probe_of_def)
  then have "len_between 1 200 scope" by (auto simp: ScopeID_Validate_None intro: len_betweenI)
  then have c1: "list_all scope_check (scopes d')"
    using upsert_checks[of "scopes d" "int (length eps)" scope "instant ts"] inv
    by (simp add: d'_def list_all_iff db_inv_def scopes_ok_def)
  have c2: "list_all episode_check rows"
    using V(2) last_seq_nonneg[OF inv, of scope]
    by (auto simp: rows_def append_rows_def list_all_iff intro!: episode_check_new)
  have "map er_id rows \<noteq> []" using V(1) by (simp add: rows_def er_id_append_rows)
  then have c3: "list_all job_check js"
    using J adm'(4) by (auto simp: js_def append_job_rows_def list_all_iff intro!: append_job_row_check)
  have "map er_id rows = map mint_e [0..<length eps]" by (simp add: rows_def er_id_append_rows)
  then have u1: "distinct (map er_id (episodes d @ rows))"
    using fresh_ids_distinct[OF adm'(5)] inv by (simp add: db_inv_def episodes_ok_def)
  have "map jr_id js = map mint_j [0..<length (ac_Jobs cmd)]"
    by (simp add: js_def append_job_rows_def append_job_row_def Let_def)
  then have u3: "distinct (map jr_id (jobs d @ js))"
    using fresh_ids_distinct[OF adm'(6)] inv by (simp add: db_inv_def jobs_ok_def)
  note u2 = append_keys_distinct[OF inv, of mint_e scope eps, folded rows_def]
  show "appendSQL text_ok mint_e mint_j scope (int (length eps)) ts eps (ac_Jobs cmd) d = Inr ((rows, js), d')"
    using c1 c2 c3 u1 u2 u3 adm'(1-3) ins
    by (simp add: appendSQL_def stmt_def Let_def rows_def[symmetric] js_def[symmetric] d'_def append_db_def)
qed

lemma scan_appended:
  assumes "validate_new_episode scope ep = None"
  shows "scanEpisode (new_episode_row i scope seq ep) = Inr (appended_episode ep (new_episode_row i scope seq ep))"
  using AppendRequest_checks(3)[OF validate_new_episode_None[OF assms, THEN conjunct1]]
    validate_new_episode_None[OF assms]
  by (simp add: scanEpisode_def new_episode_row_def appended_episode_def UTC_def probe_of_def)

lemma map2_appended_rows:
  "map2 appended_episode eps (append_rows mint_e scope base eps) =
   map (\<lambda>k. appended_episode (eps ! k) (new_episode_row (mint_e k) scope (base + int k + 1) (eps ! k)))
     [0..<length eps]"
  by (rule nth_equalityI) (simp_all add: append_rows_nth)

lemma traverse_appended:
  assumes "\<forall>ep \<in> set eps. validate_new_episode scope ep = None"
  shows "traverse scanEpisode (append_rows mint_e scope base eps) =
    Inr (map2 appended_episode eps (append_rows mint_e scope base eps))"
proof -
  have "traverse scanEpisode (append_rows mint_e scope base eps) =
      Inr (map (\<lambda>r. projr (scanEpisode r)) (append_rows mint_e scope base eps))"
    using assms by (intro traverse_Inr) (auto simp: append_rows_def scan_appended)
  also have "map (\<lambda>r. projr (scanEpisode r)) (append_rows mint_e scope base eps) =
      map2 appended_episode eps (append_rows mint_e scope base eps)"
    using assms unfolding map2_appended_rows by (simp add: append_rows_def scan_appended)
  finally show ?thesis .
qed

lemma Append_ok:
  assumes v: "validateAppend cmd = None" and inv: "db_inv d"
    and adm: "append_admissible text_ok mint_e mint_j cmd d"
  defines "eps \<equiv> ac_Episodes cmd" and "scope \<equiv> ne_Scope (hd (ac_Episodes cmd))"
    and "ts \<equiv> ne_IngestedAt (hd (ac_Episodes cmd))"
  defines "rows \<equiv> append_rows mint_e scope (scope_last_seq d scope) eps"
  defines "js \<equiv> append_job_rows mint_j scope (map er_id rows) ts (ac_Jobs cmd)"
  shows "Append text_ok mint_e mint_j cmd d =
    Inr (\<lparr>as_Episodes = map2 appended_episode eps rows, as_Jobs = map (appended_job scope (map er_id rows)) js\<rparr>,
         append_db mint_e mint_j scope (int (length eps)) ts eps (ac_Jobs cmd) d)"
proof -
  have "int32_of (int (length eps)) = int (length eps)"
    using adm by (simp add: append_admissible_def Let_def eps_def)
  then show ?thesis
    using appendSQL_ok(1)[OF v inv adm, of ts] v
    by (simp add: Append_def Let_def eps_def scope_def ts_def js_def rows_def)
qed

lemma replay_after_append:
  assumes inv: "db_inv d" and r: "db_ready d" and "ScopeID_Validate scope = None" "eps \<noteq> []"
    and "\<forall>ep \<in> set eps. validate_new_episode scope ep = None"
    and d': "d' = append_db mint_e mint_j scope (int (length eps)) ts eps specs d"
  shows "Replay scope (scope_last_seq d scope) (int (length eps)) d' =
    Inr (map2 appended_episode eps (append_rows mint_e scope (scope_last_seq d scope) eps))"
proof -
  let ?rows = "append_rows mint_e scope (scope_last_seq d scope) eps"
  let ?p = "\<lambda>r. er_scope r = scope \<and> scope_last_seq d scope < er_seq r"
  have "filter ?p (episodes d) = []"
    using seq_le_last[OF inv] by (fastforce simp: filter_empty_conv)
  moreover have "filter ?p ?rows = ?rows" by (auto simp: filter_id_conv dest: in_append_rows)
  ultimately have "filter ?p (episodes d') = ?rows" unfolding d' by simp
  moreover have "0 \<le> scope_last_seq d scope" "db_ready d'"
    using last_seq_nonneg[OF inv] r by (simp_all add: d')
  ultimately show ?thesis
    using assms(3-5) by (simp add: Replay_def traverse_appended)
qed

text \<open>
  C2. A valid append to a sound, migrated database succeeds (with fresh ids and accepted text). Its
  episodes come back in the order given, numbered contiguously from one past the scope's last
  sequence number, with the minted ids and the content verbatim; exactly those rows are appended to
  the log, nothing else in it moves; the scope's counter advances by the batch size; and each job of
  the command becomes one pending job that names all the episodes of the batch.
\<close>

theorem Append_correct:
  assumes "validateAppend cmd = None" "db_inv d" "append_admissible text_ok mint_e mint_j cmd d"
  shows "\<exists>res d' rows js. Append text_ok mint_e mint_j cmd d = Inr (res, d')
    \<and> length (as_Episodes res) = length (ac_Episodes cmd)
    \<and> map ep_ID (as_Episodes res) = map mint_e [0..<length (ac_Episodes cmd)]
    \<and> map ep_Seq (as_Episodes res) =
        map (\<lambda>k. scope_last_seq d (ne_Scope (hd (ac_Episodes cmd))) + int k + 1) [0..<length (ac_Episodes cmd)]
    \<and> map ep_Content (as_Episodes res) = map ne_Content (ac_Episodes cmd)
    \<and> episodes d' = episodes d @ rows \<and> traverse scanEpisode rows = Inr (as_Episodes res)
    \<and> jobs d' = jobs d @ js \<and> map jr_kind js = map nj_Kind (ac_Jobs cmd)
    \<and> list_all (\<lambda>r. jr_state r = JobStatePending \<and> jr_episodes r = map ep_ID (as_Episodes res)) js
    \<and> db_inv d'"
proof -
  let ?eps = "ac_Episodes cmd" and ?scope = "ne_Scope (hd (ac_Episodes cmd))"
    and ?ts = "ne_IngestedAt (hd (ac_Episodes cmd))"
  let ?base = "scope_last_seq d ?scope"
  let ?rows = "append_rows mint_e ?scope ?base ?eps"
  let ?js = "append_job_rows mint_j ?scope (map er_id ?rows) ?ts (ac_Jobs cmd)"
  let ?d' = "append_db mint_e mint_j ?scope (int (length ?eps)) ?ts ?eps (ac_Jobs cmd) d"
  let ?res = "\<lparr>as_Episodes = map2 appended_episode ?eps ?rows,
    as_Jobs = map (appended_job ?scope (map er_id ?rows)) ?js\<rparr>"
  note V = validateAppend_None[OF assms(1)]
  have ids: "map ep_ID (as_Episodes ?res) = map mint_e [0..<length ?eps]"
    and seqs: "map ep_Seq (as_Episodes ?res) = map (\<lambda>k. ?base + int k + 1) [0..<length ?eps]"
    and contents: "map ep_Content (as_Episodes ?res) = map ne_Content ?eps"
    by (rule nth_equalityI; simp add: append_rows_nth appended_episode_def new_episode_row_def)+
  have kinds: "map jr_kind ?js = map nj_Kind (ac_Jobs cmd)"
    by (rule nth_equalityI) (simp_all add: append_job_rows_def append_job_row_def Let_def)
  have js: "list_all (\<lambda>r. jr_state r = JobStatePending \<and> jr_episodes r = map ep_ID (as_Episodes ?res)) ?js"
    unfolding ids
    by (simp add: list_all_iff append_job_rows_def append_job_row_def Let_def er_id_append_rows)
  have inv: "db_inv ?d'" by (rule appendSQL_inv[OF assms(2) appendSQL_ok(1)[OF assms]]) simp
  show ?thesis
    using Append_ok[OF assms] ids seqs contents kinds js inv traverse_appended[OF V(2), of mint_e ?base]
      appendSQL_ok(2)[OF assms, of ?ts]
    by (intro exI[of _ ?res] exI[of _ ?d'] exI[of _ ?rows] exI[of _ ?js]) simp
qed

lemma Episode_lookup:
  assumes "db_inv d" "db_ready d" "r \<in> set (episodes d)" "ScopeID_Validate (er_scope r) = None" "er_id r \<noteq> 0"
  shows "Episode (er_scope r) (er_id r) d = scanEpisode r"
proof -
  have "find (\<lambda>x. er_scope x = er_scope r \<and> er_id x = er_id r) (episodes d) = Some r"
  proof (cases "find (\<lambda>x. er_scope x = er_scope r \<and> er_id x = er_id r) (episodes d)")
    case None
    then show ?thesis using assms(3) by (auto simp: find_None_iff)
  next
    case (Some x)
    then have "x \<in> set (episodes d)" "er_id x = er_id r" by (auto simp: find_Some_iff)
    then have "x = r"
      using assms(1,3) by (auto simp: db_inv_def episodes_ok_def distinct_map dest: inj_onD)
    with Some show ?thesis by simp
  qed
  with assms show ?thesis by (simp add: Episode_def id_IsZero_def)
qed

lemma Append_Inr:
  assumes "Append text_ok mint_e mint_j cmd d = Inr (res, d')"
  shows "validateAppend cmd = None"
    "\<exists>rows js. appendSQL text_ok mint_e mint_j (ne_Scope (hd (ac_Episodes cmd)))
       (int32_of (int (length (ac_Episodes cmd)))) (ne_IngestedAt (hd (ac_Episodes cmd)))
       (ac_Episodes cmd) (ac_Jobs cmd) d = Inr ((rows, js), d')
     \<and> as_Episodes res = map2 appended_episode (ac_Episodes cmd) (sort_by (le_key er_seq) rows)"
  using assms by (auto simp: Append_def Let_def split: option.splits sum.splits)

lemma Append_inv:
  assumes "db_inv d" "length (ac_Episodes cmd) < 2 ^ 31" "Append text_ok mint_e mint_j cmd d = Inr (res, d')"
  shows "db_inv d'"
  using Append_Inr(2)[OF assms(3)] assms(1,2) by (auto intro: appendSQL_inv)

lemma Append_prefix:
  assumes "Append text_ok mint_e mint_j cmd d = Inr (res, d')"
  shows "prefix (episodes d) (episodes d')" "encodings d' = encodings d" "facts d' = facts d"
    "extractions d' = extractions d" "prefix (jobs d) (jobs d')" "db_dims d' = db_dims d" "db_ready d'"
proof -
  obtain rows js where
    A: "appendSQL text_ok mint_e mint_j (ne_Scope (hd (ac_Episodes cmd)))
       (int32_of (int (length (ac_Episodes cmd)))) (ne_IngestedAt (hd (ac_Episodes cmd)))
       (ac_Episodes cmd) (ac_Jobs cmd) d = Inr ((rows, js), d')"
    using Append_Inr(2)[OF assms] by blast
  note R = appendSQL_Inr[OF A]
  show "prefix (episodes d) (episodes d')" "encodings d' = encodings d" "facts d' = facts d"
    "extractions d' = extractions d" "prefix (jobs d) (jobs d')" "db_dims d' = db_dims d" "db_ready d'"
    using R(1) by (simp_all add: R(4) append_db_jobs)
qed


text \<open>A concrete command: two episodes and one encode job, on an empty database.\<close>

definition sample_episode :: "string \<Rightarrow> NewEpisode" where
  "sample_episode content =
     \<lparr>ne_Scope = ''user:1'', ne_Content = content, ne_Role = ''user'', ne_Actor = '''',
      ne_Source = ''cli'', ne_OccurredAt = Time 5 0, ne_IngestedAt = Time 7 2,
      ne_Binding = [(''session'', ''s1'')]\<rparr>"

definition sample_command :: AppendCommand where
  "sample_command =
     \<lparr>ac_Episodes = [sample_episode ''hello'', sample_episode ''world''],
      ac_Jobs = [\<lparr>nj_Kind = ''encode'', nj_Scope = ''user:1'', nj_Episodes = [],
                  nj_RunAfter = zero_time, nj_MaxAttempts = 0\<rparr>]\<rparr>"

lemma sample_valid: "validateAppend sample_command = None"
  by (simp add: sample_command_def sample_episode_def validateAppend_def validate_new_episode_def
      probe_of_def AppendRequest_Validate_def ScopeID_Validate_None Actor_Validate_def Source_Validate_def
      Binding_Validate_None Role_Valid_check JobKind_Valid_check limit_defs time_simps ascii_simps)

lemma sample_admissible:
  "append_admissible ValidString (\<lambda>k. of_nat k + 1) (\<lambda>k. of_nat k + 9) sample_command (empty_db 3)"
  by (simp add: sample_command_def sample_episode_def append_admissible_def Let_def empty_db_def
      scope_last_seq_def episode_texts_def fresh_ids_def ascii_simps)

theorem Append_correct_witness:
  "\<exists>res d' rows js. Append ValidString (\<lambda>k. of_nat k + 1) (\<lambda>k. of_nat k + 9) sample_command (empty_db 3) = Inr (res, d')
    \<and> map ep_Seq (as_Episodes res) =
        map (\<lambda>k. scope_last_seq (empty_db 3) (ne_Scope (hd (ac_Episodes sample_command))) + int k + 1)
          [0..<length (ac_Episodes sample_command)]
    \<and> jobs d' = jobs (empty_db 3) @ js \<and> map jr_kind js = map nj_Kind (ac_Jobs sample_command) \<and> db_inv d'"
  using Append_correct[OF sample_valid db_inv_empty sample_admissible] by blast


end
