(* ===== verification/Encodings.thy ===== *)
theory Encodings
  imports Episode_Log
begin

section \<open>The vector projection\<close>

text \<open>
  \<^verbatim>\<open>postgres/encoding.go\<close>: writing an encoding, and the anti-join that finds episodes without one.
  \<open>db_dims\<close> is the width the schema was migrated for, which \<^verbatim>\<open>Store.New\<close> reads once. The text form of
  the vector round-trips (\<^verbatim>\<open>formatVector\<close> prints the shortest digits that do), so the column holds the
  vector itself. \<open>coll\<close> is the order the database's collation gives to text.
\<close>

definition DefaultPendingEncodingsLimit :: int where "DefaultPendingEncodingsLimit = 100"

definition validateEncoding :: "nat \<Rightarrow> Encoding \<Rightarrow> err option" where
  "validateEncoding dims enc = first_err
     ([reject_if (id_IsZero (en_Episode enc)) ErrInvalidConfig,
       reject_if (en_Model enc = '''') ErrInvalidConfig,
       reject_if (IsZero (en_EncodedAt enc)) ErrInvalidConfig,
       reject_if (outside_unit (en_Surprise enc)) ErrInvalidConfig,
       reject_if (length (en_Vector enc) \<noteq> dims) ErrDimensionMismatch]
      @ map (\<lambda>f. reject_if (\<not> is_finite f) ErrInvalidConfig) (en_Vector enc))"

definition encoding_row_of :: "Encoding \<Rightarrow> episode_row \<Rightarrow> encoding_row" where
  "encoding_row_of enc e =
     \<lparr>nr_episode = er_id e, nr_model = en_Model enc, nr_scope = er_scope e,
      nr_ingested_at = er_ingested_at e, nr_vec = en_Vector enc, nr_surprise = en_Surprise enc,
      nr_encoded_at = instant (en_EncodedAt enc)\<rparr>"

text \<open>\<^verbatim>\<open>INSERT ... SELECT ... ON CONFLICT (episode_id, model) DO UPDATE\<close>.\<close>

definition upsert_encoding :: "encoding_row \<Rightarrow> encoding_row list \<Rightarrow> encoding_row list" where
  "upsert_encoding r rows =
     (if (nr_episode r, nr_model r) \<in> (\<lambda>x. (nr_episode x, nr_model x)) ` set rows
      then update_where (\<lambda>x. (nr_episode x, nr_model x) = (nr_episode r, nr_model r))
             (\<lambda>x. x\<lparr>nr_vec := nr_vec r, nr_surprise := nr_surprise r, nr_encoded_at := nr_encoded_at r\<rparr>) rows
      else rows @ [r])"

definition putEncodingSQL :: "(string \<Rightarrow> bool) \<Rightarrow> Encoding \<Rightarrow> db \<Rightarrow> nat result" where
  "putEncodingSQL text_ok enc d = stmt d
     (if \<not> text_ok (en_Model enc) then Inl (PgErr pg_invalid_text)
      else case find (\<lambda>e. er_id e = en_Episode enc) (episodes d) of
             None \<Rightarrow> Inr (0, d)
           | Some e \<Rightarrow>
               let r = encoding_row_of enc e in
               if \<not> encoding_check (db_dims d) r then Inl (PgErr pgerrcodeCheckViolation)
               else Inr (1, d\<lparr>encodings := upsert_encoding r (encodings d)\<rparr>))"

definition PutEncoding :: "(string \<Rightarrow> bool) \<Rightarrow> Encoding \<Rightarrow> db \<Rightarrow> unit result" where
  "PutEncoding text_ok enc d =
     (case validateEncoding (db_dims d) enc of Some e \<Rightarrow> Inl e
      | None \<Rightarrow>
          case putEncodingSQL text_ok enc d of
            Inl e \<Rightarrow> Inl (if notReady e then ErrSchemaNotReady else e)
          | Inr (n, d') \<Rightarrow> if n = 0 then Inl ErrNotFound else Inr ((), d'))"

subsection \<open>Pending encodings\<close>

record PendingEncodingsQuery =
  pe_Scope :: ScopeID
  pe_Model :: ModelID
  pe_AfterSeq :: int
  pe_Limit :: int

definition has_encoding :: "db \<Rightarrow> ModelID \<Rightarrow> episode_row \<Rightarrow> bool" where
  "has_encoding d m e \<longleftrightarrow> (\<exists>x \<in> set (encodings d). nr_episode x = er_id e \<and> nr_model x = m)"

definition pending_order :: "(string \<Rightarrow> string \<Rightarrow> bool) \<Rightarrow> episode_row \<Rightarrow> episode_row \<Rightarrow> bool" where
  "pending_order coll = then_by (\<lambda>x y. coll (er_scope x) (er_scope y)) (le_key er_seq)"

definition PendingEncodings ::
  "(string \<Rightarrow> string \<Rightarrow> bool) \<Rightarrow> PendingEncodingsQuery \<Rightarrow> db \<Rightarrow> err + EpisodeID list" where
  "PendingEncodings coll q d =
     (case first_err
        [reject_if (pe_Model q = '''') ErrInvalidConfig,
         if pe_Scope q \<noteq> '''' then ScopeID_Validate (pe_Scope q) else None,
         reject_if (pe_AfterSeq q < 0) ErrInvalidConfig,
         reject_if (pe_AfterSeq q > 0 \<and> pe_Scope q = '''') ErrInvalidConfig,
         reject_if (pe_Limit q < 0) ErrInvalidConfig] of
        Some e \<Rightarrow> Inl e
      | None \<Rightarrow>
          let limit = (if pe_Limit q = 0 then DefaultPendingEncodingsLimit else pe_Limit q);
              rows = (if pe_Scope q = ''''
                then sort_by (pending_order coll) (filter (\<lambda>e. \<not> has_encoding d (pe_Model q) e) (episodes d))
                else sort_by (le_key er_seq)
                  (filter (\<lambda>e. er_scope e = pe_Scope q \<and> pe_AfterSeq q < er_seq e
                     \<and> \<not> has_encoding d (pe_Model q) e) (episodes d)))
          in if \<not> db_ready d then Inl ErrSchemaNotReady
             else Inr (map er_id (take (nat limit) rows)))"


subsection \<open>Lemmas\<close>

abbreviation enc_key :: "encoding_row \<Rightarrow> uuid \<times> string" where
  "enc_key x \<equiv> (nr_episode x, nr_model x)"

lemma enc_keys_upsert:
  "map enc_key (upsert_encoding r rows) =
     (if enc_key r \<in> enc_key ` set rows then map enc_key rows else map enc_key rows @ [enc_key r])"
  by (auto simp: upsert_encoding_def update_where_def)

lemma upsert_mem:
  assumes "x \<in> set (upsert_encoding r rows)"
  shows "x = r \<or> x \<in> set rows \<and> enc_key x \<noteq> enc_key r \<or>
    (\<exists>y \<in> set rows. enc_key y = enc_key r \<and>
       x = y\<lparr>nr_vec := nr_vec r, nr_surprise := nr_surprise r, nr_encoded_at := nr_encoded_at r\<rparr>)"
proof (cases "enc_key r \<in> enc_key ` set rows")
  case True
  then show ?thesis using assms by (auto simp: upsert_encoding_def set_update_where)
next
  case False
  have "enc_key x \<noteq> enc_key r" if "x \<in> set rows"
  proof
    assume "enc_key x = enc_key r"
    then have "enc_key r \<in> enc_key ` set rows" using that by (intro image_eqI[of _ _ x]) simp_all
    with False show "False" ..
  qed
  then show ?thesis using False assms by (auto simp: upsert_encoding_def)
qed

lemma PutEncoding_Inr:
  assumes "PutEncoding text_ok enc d = Inr (u, d')"
  obtains e where "e \<in> set (episodes d)" "er_id e = en_Episode enc" "validateEncoding (db_dims d) enc = None"
    "encoding_check (db_dims d) (encoding_row_of enc e)"
    "d' = d\<lparr>encodings := upsert_encoding (encoding_row_of enc e) (encodings d)\<rparr>"
  using assms
  by (auto simp: PutEncoding_def putEncodingSQL_def stmt_def Let_def find_Some_iff
      split: option.splits sum.splits if_splits) (metis nth_mem)

lemma encodings_ok_upsert:
  assumes inv: "db_inv d" and e: "e \<in> set (episodes d)"
    and chk: "encoding_check (db_dims d) (encoding_row_of enc e)"
  shows "encodings_ok (d\<lparr>encodings := upsert_encoding (encoding_row_of enc e) (encodings d)\<rparr>)"
proof -
  let ?r = "encoding_row_of enc e"
  have T: "encodings_ok d" using inv by (simp add: db_inv_def)
  have "encoding_check (db_dims d) x \<and> (\<exists>e \<in> set (episodes d). er_id e = nr_episode x \<and>
      er_scope e = nr_scope x \<and> er_ingested_at e = nr_ingested_at x)"
    if "x \<in> set (upsert_encoding ?r (encodings d))" for x
    using upsert_mem[OF that]
  proof (elim disjE)
    assume "x = ?r"
    then show ?thesis using e chk by (auto simp: encoding_row_of_def)
  next
    assume "x \<in> set (encodings d) \<and> enc_key x \<noteq> enc_key ?r"
    then show ?thesis using T by (auto simp: encodings_ok_def)
  next
    assume "\<exists>y \<in> set (encodings d). enc_key y = enc_key ?r \<and>
       x = y\<lparr>nr_vec := nr_vec ?r, nr_surprise := nr_surprise ?r, nr_encoded_at := nr_encoded_at ?r\<rparr>"
    then obtain y where "y \<in> set (encodings d)" and
      x: "x = y\<lparr>nr_vec := nr_vec ?r, nr_surprise := nr_surprise ?r, nr_encoded_at := nr_encoded_at ?r\<rparr>" by blast
    then show ?thesis using T chk by (auto simp: encodings_ok_def encoding_check_def)
  qed
  moreover have "distinct (map enc_key (upsert_encoding ?r (encodings d)))"
    using T by (simp add: enc_keys_upsert encodings_ok_def)
  ultimately show ?thesis by (simp add: encodings_ok_def)
qed

lemma PutEncoding_inv:
  assumes "db_inv d" "PutEncoding text_ok enc d = Inr (u, d')"
  shows "db_inv d'"
proof -
  obtain e where e: "e \<in> set (episodes d)" "encoding_check (db_dims d) (encoding_row_of enc e)"
    "d' = d\<lparr>encodings := upsert_encoding (encoding_row_of enc e) (encodings d)\<rparr>"
    using PutEncoding_Inr[OF assms(2)] by metis
  show ?thesis using assms(1) encodings_ok_upsert[OF assms(1) e(1,2)]
    unfolding e(3) by (simp add: db_inv_def table_ok_defs)
qed

subsection \<open>The upsert\<close>

lemma upsert_self:
  assumes "\<And>x. x \<in> set rows \<Longrightarrow> enc_key x = enc_key r \<Longrightarrow>
      x\<lparr>nr_vec := nr_vec r, nr_surprise := nr_surprise r, nr_encoded_at := nr_encoded_at r\<rparr> = r"
    and "distinct (map enc_key rows)"
  shows "filter (\<lambda>x. enc_key x = enc_key r) (upsert_encoding r rows) = [r]"
    and "filter (\<lambda>x. enc_key x \<noteq> enc_key r) (upsert_encoding r rows) = filter (\<lambda>x. enc_key x \<noteq> enc_key r) rows"
proof -
  let ?k = "\<lambda>x. enc_key x = enc_key r"
  let ?f = "\<lambda>x. x\<lparr>nr_vec := nr_vec r, nr_surprise := nr_surprise r, nr_encoded_at := nr_encoded_at r\<rparr>"
  have one: "filter ?k (update_where ?k ?f xs) = (if enc_key r \<in> enc_key ` set xs then [r] else [])"
    if "set xs \<subseteq> set rows" "distinct (map enc_key xs)" for xs
    using that
  proof (induction xs)
    case (Cons x xs)
    show ?case
    proof (cases "?k x")
      case True
      then have "enc_key r \<notin> enc_key ` set xs" using Cons.prems(2) by auto
      then show ?thesis using Cons True assms(1)[of x] by (auto simp: update_where_def)
    next
      case False
      then show ?thesis using Cons by (auto simp: update_where_def)
    qed
  qed (simp add: update_where_def)
  have "filter ?k rows = []" if "enc_key r \<notin> enc_key ` set rows"
    using that by (auto simp: filter_empty_conv image_iff)
  then show "filter ?k (upsert_encoding r rows) = [r]"
    using one[of rows] assms(2) by (auto simp: upsert_encoding_def)
  have "filter (\<lambda>x. \<not> ?k x) (update_where ?k ?f xs) = filter (\<lambda>x. \<not> ?k x) xs" for xs
    by (induction xs) (auto simp: update_where_def)
  then show "filter (\<lambda>x. enc_key x \<noteq> enc_key r) (upsert_encoding r rows) = filter (\<lambda>x. enc_key x \<noteq> enc_key r) rows"
    by (simp add: upsert_encoding_def)
qed

lemma encoding_row_refreshed:
  assumes inv: "db_inv d" and e: "e \<in> set (episodes d)" and x: "x \<in> set (encodings d)"
    and k: "enc_key x = enc_key (encoding_row_of enc e)"
  shows "x\<lparr>nr_vec := nr_vec (encoding_row_of enc e), nr_surprise := nr_surprise (encoding_row_of enc e),
      nr_encoded_at := nr_encoded_at (encoding_row_of enc e)\<rparr> = encoding_row_of enc e"
proof -
  obtain e' where "e' \<in> set (episodes d)" "er_id e' = nr_episode x" "er_scope e' = nr_scope x"
    "er_ingested_at e' = nr_ingested_at x"
    using inv x by (auto simp: db_inv_def encodings_ok_def)
  moreover from this have "e' = e"
    using inv e k by (auto simp: db_inv_def episodes_ok_def distinct_map encoding_row_of_def dest: inj_onD)
  ultimately show ?thesis using k by (simp add: encoding_row_of_def)
qed

lemma upsert_idem:
  assumes "\<And>x. x \<in> set rows \<Longrightarrow> enc_key x = enc_key r \<Longrightarrow> x = r" "enc_key r \<in> enc_key ` set rows"
  shows "upsert_encoding r rows = rows"
proof -
  have "map (\<lambda>x. if enc_key x = enc_key r
      then x\<lparr>nr_vec := nr_vec r, nr_surprise := nr_surprise r, nr_encoded_at := nr_encoded_at r\<rparr> else x) rows = rows"
  proof (rule map_idI)
    fix x
    assume "x \<in> set rows"
    then show "(if enc_key x = enc_key r
      then x\<lparr>nr_vec := nr_vec r, nr_surprise := nr_surprise r, nr_encoded_at := nr_encoded_at r\<rparr> else x) = x"
      using assms(1)[of x] by (cases "enc_key x = enc_key r") auto
  qed
  then show ?thesis using assms(2) by (simp add: upsert_encoding_def update_where_def)
qed

lemma PutEncoding_at:
  assumes "db_inv d" "db_ready d" "validateEncoding (db_dims d) enc = None" "text_ok (en_Model enc)"
    "length (en_Model enc) \<le> 200" "en_Surprise enc \<noteq> NaN" "find (\<lambda>e. er_id e = en_Episode enc) (episodes d) = Some e"
  shows "PutEncoding text_ok enc d = Inr ((), d\<lparr>encodings := upsert_encoding (encoding_row_of enc e) (encodings d)\<rparr>)"
proof -
  have "encoding_check (db_dims d) (encoding_row_of enc e)"
    using assms(3,5,6) by (auto simp: validateEncoding_def encoding_check_def encoding_row_of_def in_unit_iff intro: len_betweenI)
  then show ?thesis using assms by (simp add: PutEncoding_def putEncodingSQL_def stmt_def Let_def)
qed

text \<open>
  Writing an encoding is an upsert keyed by episode and model. For an episode that exists the
  write succeeds and afterwards there is exactly one encoding under that key, holding the given
  vector and, whatever the caller thinks, the scope and ingest time of the episode row; every other
  encoding is untouched; and writing it again changes nothing, so a retried encode job is harmless.
  For an episode that does not exist nothing is written and the error is \<open>ErrNotFound\<close>.
\<close>

theorem PutEncoding_correct:
  assumes inv: "db_inv d" and ready: "db_ready d" and v: "validateEncoding (db_dims d) enc = None"
    and m: "text_ok (en_Model enc)" "length (en_Model enc) \<le> 200" and s: "en_Surprise enc \<noteq> NaN"
  shows "case find (\<lambda>e. er_id e = en_Episode enc) (episodes d) of
      None \<Rightarrow> PutEncoding text_ok enc d = Inl ErrNotFound
    | Some e \<Rightarrow> \<exists>d'. PutEncoding text_ok enc d = Inr ((), d')
        \<and> filter (\<lambda>x. enc_key x = (en_Episode enc, en_Model enc)) (encodings d') = [encoding_row_of enc e]
        \<and> filter (\<lambda>x. enc_key x \<noteq> (en_Episode enc, en_Model enc)) (encodings d') =
            filter (\<lambda>x. enc_key x \<noteq> (en_Episode enc, en_Model enc)) (encodings d)
        \<and> PutEncoding text_ok enc d' = Inr ((), d')"
proof (cases "find (\<lambda>e. er_id e = en_Episode enc) (episodes d)")
  case None
  then show ?thesis using assms by (simp add: PutEncoding_def putEncodingSQL_def stmt_def)
next
  case (Some e)
  let ?r = "encoding_row_of enc e"
  define d' where "d' = d\<lparr>encodings := upsert_encoding ?r (encodings d)\<rparr>"
  have e: "e \<in> set (episodes d)" "er_id e = en_Episode enc" using Some by (auto simp: find_Some_iff)
  have k: "enc_key ?r = (en_Episode enc, en_Model enc)" by (simp add: encoding_row_of_def e)
  have P: "PutEncoding text_ok enc d = Inr ((), d')"
    unfolding d'_def by (rule PutEncoding_at[where text_ok = text_ok, OF inv ready v m s Some])
  have inv': "db_inv d'" by (rule PutEncoding_inv[OF inv P])
  note self = upsert_self[OF encoding_row_refreshed[OF inv e(1)], of "encodings d"]
  have f: "filter (\<lambda>x. enc_key x = enc_key ?r) (encodings d') = [?r]"
    "filter (\<lambda>x. enc_key x \<noteq> enc_key ?r) (encodings d') = filter (\<lambda>x. enc_key x \<noteq> enc_key ?r) (encodings d)"
    using self inv by (simp_all add: d'_def db_inv_def encodings_ok_def)
  then have "set (filter (\<lambda>x. enc_key x = enc_key ?r) (encodings d')) = {?r}" by simp
  then have mem: "{x \<in> set (encodings d'). enc_key x = enc_key ?r} = {?r}" by (simp only: set_filter)
  have only: "x = ?r" if "x \<in> set (encodings d')" "enc_key x = enc_key ?r" for x
    using mem that by blast
  have "?r \<in> set (encodings d')" using mem by blast
  then have "upsert_encoding ?r (encodings d') = encodings d'" using only by (intro upsert_idem) auto
  moreover have "PutEncoding text_ok enc d' = Inr ((), d'\<lparr>encodings := upsert_encoding ?r (encodings d')\<rparr>)"
    by (rule PutEncoding_at[where text_ok = text_ok]) (use inv' ready v m s Some in \<open>simp_all add: d'_def\<close>)
  ultimately have "PutEncoding text_ok enc d' = Inr ((), d')" by (simp add: d'_def)
  then show ?thesis using Some P f by (simp add: k)
qed

text \<open>A concrete log with one episode.\<close>

definition sample_row :: episode_row where
  "sample_row = \<lparr>er_id = 1, er_scope = ''user:1'', er_seq = 1, er_content = ''hello'', er_role = ''user'',
     er_actor = '''', er_source = ''cli'', er_occurred_at = 5, er_ingested_at = 7, er_binding = []\<rparr>"

definition sample_log :: db where
  "sample_log = (empty_db 2)\<lparr>scopes := [\<lparr>sc_id = ''user:1'', sc_last_seq = 1, sc_created_at = 7\<rparr>],
     episodes := [sample_row]\<rparr>"

lemma sample_log_inv: "db_inv sample_log"
  by (simp add: sample_log_def sample_row_def empty_db_def db_inv_def table_ok_defs scope_check_def
      episode_check_def len_between_def char_length_def ascii_simps)

definition sample_encoding :: Encoding where
  "sample_encoding = \<lparr>en_Episode = 1, en_Model = ''m'', en_Vector = [Fin 1, Fin 0], en_Surprise = Fin 0,
     en_EncodedAt = Time 9 0\<rparr>"

theorem PutEncoding_correct_witness:
  "\<exists>d'. PutEncoding ValidString sample_encoding sample_log = Inr ((), d')
    \<and> filter (\<lambda>x. enc_key x = (1, ''m'')) (encodings d') = [encoding_row_of sample_encoding sample_row]
    \<and> PutEncoding ValidString sample_encoding d' = Inr ((), d')"
proof -
  have "validateEncoding (db_dims sample_log) sample_encoding = None" "db_ready sample_log"
    "ValidString (en_Model sample_encoding)" "length (en_Model sample_encoding) \<le> 200" "en_Surprise sample_encoding \<noteq> NaN"
    by (simp_all add: validateEncoding_def sample_encoding_def sample_log_def empty_db_def id_IsZero_def IsZero_def
        outside_unit_def is_finite_def ascii_simps)
  then show ?thesis
    using PutEncoding_correct[OF sample_log_inv, of sample_encoding ValidString]
    by (simp add: sample_log_def sample_encoding_def sample_row_def) blast
qed

end
