(* ===== verification/Facts.thy ===== *)
theory Facts
  imports Encodings
begin

section \<open>L1: facts\<close>

text \<open>
  \<^verbatim>\<open>postgres/fact.go\<close>: applying an extraction in one transaction, reading facts back, and the anti-join
  for episodes no extractor has read. Parameters: \<open>text_ok\<close> (strings the server accepts), \<open>mint\<close> (the
  ids of inserted facts), \<open>coll\<close> (the collation of text) and \<open>rank\<close> (\<^verbatim>\<open>ts_rank_cd\<close> of a statement
  against the lexemes of a text).
\<close>

definition DefaultFactsLimit :: int where "DefaultFactsLimit = 200"
definition DefaultPendingExtractionsLimit :: int where "DefaultPendingExtractionsLimit = 100"

subsection \<open>Reading a row\<close>

definition toValidity :: "int \<Rightarrow> int option \<Rightarrow> Validity" where
  "toValidity lower upper =
     \<lparr>v_From = Time lower 0, v_To = (case upper of None \<Rightarrow> zero_time | Some u \<Rightarrow> Time u 0)\<rparr>"

definition scanFact :: "fact_row \<Rightarrow> Fact" where
  "scanFact r =
     \<lparr>f_ID = fw_id r, f_Scope = fw_scope r, f_Extractor = fw_extractor r, f_Subject = fw_subject r,
      f_Predicate = fw_predicate r, f_Object = fw_object r, f_Statement = fw_statement r,
      f_Valid = toValidity (fw_lower r) (fw_upper r), f_Confidence = fw_confidence r,
      f_Episodes = fw_episodes r, f_AssertedAt = Time (fw_asserted_at r) 0,
      f_UpdatedAt = Time (fw_updated_at r) 0\<rparr>"

definition wrapFactError :: "err \<Rightarrow> err" where
  "wrapFactError e =
     (if notReady e then ErrSchemaNotReady
      else if isCode e [pgerrcodeExclusionViolation] then ErrFactConflict
      else if isCode e [pgerrcodeCheckViolation] then Join [ErrInvalidFact, e]
      else if isCode e [pgerrcodeForeignKeyViolat] then ErrNotFound
      else e)"

subsection \<open>Repeats and contradictions inside one extraction\<close>

type_synonym identity = "Subject \<times> Predicate \<times> string"

definition identity_of :: "Assertion \<Rightarrow> identity" where
  "identity_of a = (a_Subject a, a_Predicate a, a_Object a)"

text \<open>\<open>windows\<close> holds the windows already seen for each claim; Go's \<open>==\<close> is equality of the structs.\<close>

fun dedupe_loop :: "(identity \<Rightarrow> Validity list) \<Rightarrow> Assertion list \<Rightarrow> err + Assertion list" where
  "dedupe_loop windows [] = Inr []"
| "dedupe_loop windows (a # as) =
     (let key = identity_of a in
      if a_Valid a \<in> set (windows key) then dedupe_loop windows as
      else if \<exists>seen \<in> set (windows key). Overlaps seen (a_Valid a) then Inl ErrFactConflict
      else case dedupe_loop (windows(key := windows key @ [a_Valid a])) as of
             Inl e \<Rightarrow> Inl e
           | Inr out \<Rightarrow> Inr (a # out))"

definition dedupeAssertions :: "Assertion list \<Rightarrow> err + Assertion list" where
  "dedupeAssertions xs = dedupe_loop (\<lambda>_. []) xs"

subsection \<open>The statements of an extraction\<close>

definition extraction_row_of :: "ExtractorID \<Rightarrow> nat \<Rightarrow> int \<Rightarrow> episode_row \<Rightarrow> extraction_row" where
  "extraction_row_of extractor n ts e =
     \<lparr>xw_episode = er_id e, xw_extractor = extractor, xw_scope = er_scope e,
      xw_ingested_at = er_ingested_at e, xw_fact_count = n, xw_extracted_at = ts\<rparr>"

definition has_marker :: "db \<Rightarrow> ExtractorID \<Rightarrow> episode_row \<Rightarrow> bool" where
  "has_marker d x e \<longleftrightarrow> (\<exists>m \<in> set (extractions d). xw_episode m = er_id e \<and> xw_extractor m = x)"

definition found_episodes :: "EpisodeID list \<Rightarrow> ScopeID \<Rightarrow> db \<Rightarrow> episode_row list" where
  "found_episodes ids scope d = filter (\<lambda>e. er_id e \<in> set ids \<and> er_scope e = scope) (episodes d)"

definition markExtractionSQL ::
  "(string \<Rightarrow> bool) \<Rightarrow> EpisodeID list \<Rightarrow> ScopeID \<Rightarrow> ExtractorID \<Rightarrow> nat \<Rightarrow> gotime \<Rightarrow> db \<Rightarrow> (nat \<times> nat) result" where
  "markExtractionSQL text_ok ids scope extractor n ts d = stmt d
     (let found = found_episodes ids scope d;
          rows = map (extraction_row_of extractor n (instant ts)) found;
          marked = map (extraction_row_of extractor n (instant ts))
                     (filter (\<lambda>e. \<not> has_marker d extractor e) found)
      in if \<not> (text_ok scope \<and> text_ok extractor) then Inl (PgErr pg_invalid_text)
         else if \<not> list_all extraction_check rows then Inl (PgErr pgerrcodeCheckViolation)
         else Inr ((length found, length marked), d\<lparr>extractions := extractions d @ marked\<rparr>))"

definition retractable :: "FactID \<Rightarrow> ScopeID \<Rightarrow> int \<Rightarrow> fact_row \<Rightarrow> bool" where
  "retractable i scope t f \<longleftrightarrow> fw_id f = i \<and> fw_scope f = scope \<and> fw_lower f < t \<and>
     (case fw_upper f of None \<Rightarrow> True | Some u \<Rightarrow> t < u)"

definition close_row :: "int \<Rightarrow> int \<Rightarrow> fact_row \<Rightarrow> fact_row" where
  "close_row t ts f = f\<lparr>fw_upper := Some t, fw_updated_at := ts\<rparr>"

definition retractSQL :: "FactID \<Rightarrow> ScopeID \<Rightarrow> int \<Rightarrow> int \<Rightarrow> fact_row list \<Rightarrow> fact_row list" where
  "retractSQL i scope t ts fs = update_where (retractable i scope t) (close_row t ts) fs"

definition explainRetraction :: "ScopeID \<Rightarrow> Retraction \<Rightarrow> fact_row list \<Rightarrow> err option" where
  "explainRetraction scope r fs =
     (case find (\<lambda>f. fw_id f = r_Fact r \<and> fw_scope f = scope) fs of
        None \<Rightarrow> Some ErrNotFound
      | Some f \<Rightarrow> if \<not> fw_lower f < instant (r_At r) then Some ErrInvalidValidity else None)"

fun applyRetractions :: "ScopeID \<Rightarrow> int \<Rightarrow> Retraction list \<Rightarrow> fact_row list \<Rightarrow> err + fact_row list" where
  "applyRetractions scope ts [] fs = Inr fs"
| "applyRetractions scope ts (r # rs) fs =
     (if \<exists>f \<in> set fs. retractable (r_Fact r) scope (instant (r_At r)) f
      then applyRetractions scope ts rs (retractSQL (r_Fact r) scope (instant (r_At r)) ts fs)
      else case explainRetraction scope r fs of
             Some e \<Rightarrow> Inl e
           | None \<Rightarrow> applyRetractions scope ts rs fs)"

definition upper_of :: "Validity \<Rightarrow> int option" where
  "upper_of v = (if IsOpen v then None else Some (instant (v_To v)))"

definition same_claim :: "ScopeID \<Rightarrow> ExtractorID \<Rightarrow> Assertion \<Rightarrow> fact_row \<Rightarrow> bool" where
  "same_claim scope extractor a f \<longleftrightarrow> fw_scope f = scope \<and> fw_extractor f = extractor \<and>
     fw_subject f = a_Subject a \<and> fw_predicate f = a_Predicate a \<and> fw_object f = a_Object a \<and>
     fw_lower f = instant (v_From (a_Valid a)) \<and> fw_upper f = upper_of (a_Valid a)"

definition refresh_row :: "EpisodeID list \<Rightarrow> int \<Rightarrow> Assertion \<Rightarrow> fact_row \<Rightarrow> fact_row" where
  "refresh_row ids ts a f =
     f\<lparr>fw_statement := a_Statement a, fw_confidence := a_Confidence a,
       fw_episodes := sort (remdups (fw_episodes f @ ids)), fw_updated_at := ts\<rparr>"

definition assert_row ::
  "uuid \<Rightarrow> ScopeID \<Rightarrow> ExtractorID \<Rightarrow> EpisodeID list \<Rightarrow> int \<Rightarrow> Assertion \<Rightarrow> fact_row" where
  "assert_row i scope extractor ids ts a =
     \<lparr>fw_id = i, fw_scope = scope, fw_extractor = extractor, fw_subject = a_Subject a,
      fw_predicate = a_Predicate a, fw_object = a_Object a, fw_statement = a_Statement a,
      fw_lower = instant (v_From (a_Valid a)), fw_upper = upper_of (a_Valid a),
      fw_confidence = a_Confidence a, fw_episodes = ids, fw_asserted_at = ts, fw_updated_at = ts\<rparr>"

text \<open>Rows are inserted one after the other; each must pass the checks, the id and the temporal key.\<close>

fun insert_facts :: "fact_row list \<Rightarrow> fact_row list \<Rightarrow> string + fact_row list" where
  "insert_facts fs [] = Inr fs"
| "insert_facts fs (r # rs) =
     (if \<not> fact_check r then Inl pgerrcodeCheckViolation
      else if fw_id r \<in> fw_id ` set fs then Inl pgerrcodeUniqueViolation
      else if \<exists>x \<in> set fs. claims_overlap x r then Inl pgerrcodeExclusionViolation
      else insert_facts (fs @ [r]) rs)"

definition assertion_texts :: "Assertion \<Rightarrow> string list" where
  "assertion_texts a = [a_Subject a, a_Predicate a, a_Object a, a_Statement a]"

definition refresh_facts ::
  "ScopeID \<Rightarrow> ExtractorID \<Rightarrow> EpisodeID list \<Rightarrow> int \<Rightarrow> Assertion list \<Rightarrow> fact_row list \<Rightarrow> fact_row list" where
  "refresh_facts scope extractor ids ts as fs =
     map (\<lambda>f. case find (\<lambda>a. same_claim scope extractor a f) as of
                Some a \<Rightarrow> refresh_row ids ts a f | None \<Rightarrow> f) fs"

definition updated_triples :: "ScopeID \<Rightarrow> ExtractorID \<Rightarrow> Assertion list \<Rightarrow> fact_row list \<Rightarrow> identity set" where
  "updated_triples scope extractor as fs =
     (\<lambda>f. (fw_subject f, fw_predicate f, fw_object f)) `
       set (filter (\<lambda>f. list_ex (\<lambda>a. same_claim scope extractor a f) as) fs)"

definition applyAssertionsSQL ::
  "(string \<Rightarrow> bool) \<Rightarrow> (nat \<Rightarrow> uuid) \<Rightarrow> ScopeID \<Rightarrow> ExtractorID \<Rightarrow> EpisodeID list \<Rightarrow> int \<Rightarrow> Assertion list \<Rightarrow>
   string list \<Rightarrow> fact_row list \<Rightarrow> string + fact_row list" where
  "applyAssertionsSQL text_ok mint scope extractor ids ts as scopes_known fs =
     (let updated = updated_triples scope extractor as fs;
          fs' = refresh_facts scope extractor ids ts as fs;
          new = filter (\<lambda>a. identity_of a \<notin> updated) as;
          rows = map (\<lambda>k. assert_row (mint k) scope extractor ids ts (new ! k)) [0..<length new]
      in if \<not> list_all text_ok (concat (map assertion_texts as)) then Inl pg_invalid_text
         else if \<not> list_all fact_check fs' then Inl pgerrcodeCheckViolation
         else case insert_facts fs' rows of
                Inl c \<Rightarrow> Inl c
              | Inr fs'' \<Rightarrow> if rows \<noteq> [] \<and> scope \<notin> set scopes_known then Inl pgerrcodeForeignKeyViolat
                            else Inr fs'')"

definition claim_order :: "(string \<Rightarrow> string \<Rightarrow> bool) \<Rightarrow> fact_row \<Rightarrow> fact_row \<Rightarrow> bool" where
  "claim_order coll = then_by (\<lambda>x y. coll (fw_subject x) (fw_subject y))
     (then_by (\<lambda>x y. coll (fw_predicate x) (fw_predicate y)) (\<lambda>x y. coll (fw_object x) (fw_object y)))"

definition factsOfExtractionSQL ::
  "(string \<Rightarrow> string \<Rightarrow> bool) \<Rightarrow> ScopeID \<Rightarrow> ExtractorID \<Rightarrow> EpisodeID list \<Rightarrow> fact_row list \<Rightarrow> fact_row list" where
  "factsOfExtractionSQL coll scope extractor ids fs =
     sort_by (then_by (claim_order coll) (le_key fw_lower))
       (filter (\<lambda>f. fw_scope f = scope \<and> fw_extractor f = extractor \<and> set (fw_episodes f) \<inter> set ids \<noteq> {}) fs)"

subsection \<open>\<open>ApplyExtraction\<close>\<close>

definition applyAssertions ::
  "(string \<Rightarrow> bool) \<Rightarrow> (nat \<Rightarrow> uuid) \<Rightarrow> ExtractCommand \<Rightarrow> Assertion list \<Rightarrow> db \<Rightarrow> fact_row list \<Rightarrow> err + fact_row list" where
  "applyAssertions text_ok mint cmd as d fs =
     (if length as = 0 then Inr fs
      else case applyAssertionsSQL text_ok mint (xc_Scope cmd) (xc_Extractor cmd) (xc_Episodes cmd)
                  (instant (xc_At cmd)) as (map sc_id (scopes d)) fs of
             Inl c \<Rightarrow> Inl (wrapFactError (PgErr c))
           | Inr fs' \<Rightarrow> Inr fs')"

text \<open>The part guarded by \<^verbatim>\<open>if marked > 0\<close>: nothing is applied when every episode was already read.\<close>

definition apply_if_marked ::
  "(string \<Rightarrow> bool) \<Rightarrow> (nat \<Rightarrow> uuid) \<Rightarrow> ExtractCommand \<Rightarrow> Assertion list \<Rightarrow> nat \<Rightarrow> db \<Rightarrow> err + fact_row list" where
  "apply_if_marked text_ok mint cmd as marked d =
     (if marked > 0
      then case applyRetractions (xc_Scope cmd) (instant (xc_At cmd)) (xc_Retract cmd) (facts d) of
             Inl e \<Rightarrow> Inl e
           | Inr fs \<Rightarrow> applyAssertions text_ok mint cmd as d fs
      else Inr (facts d))"

definition ApplyExtraction ::
  "(string \<Rightarrow> bool) \<Rightarrow> (string \<Rightarrow> string \<Rightarrow> bool) \<Rightarrow> (nat \<Rightarrow> uuid) \<Rightarrow> ExtractCommand \<Rightarrow> db \<Rightarrow> Fact list result" where
  "ApplyExtraction text_ok coll mint cmd d =
     (case ExtractCommand_Validate cmd of Some e \<Rightarrow> Inl e | None \<Rightarrow>
      case dedupeAssertions (xc_Assert cmd) of Inl e \<Rightarrow> Inl e | Inr as \<Rightarrow>
      case markExtractionSQL text_ok (xc_Episodes cmd) (xc_Scope cmd) (xc_Extractor cmd) (length as) (xc_At cmd) d of
        Inl e \<Rightarrow> Inl (wrapFactError e)
      | Inr ((found, marked), d1) \<Rightarrow>
          if found < length (xc_Episodes cmd) then Inl ErrNotFound
          else case apply_if_marked text_ok mint cmd as marked d1 of
                 Inl e \<Rightarrow> Inl e
               | Inr fs \<Rightarrow> Inr (map scanFact (factsOfExtractionSQL coll (xc_Scope cmd) (xc_Extractor cmd) (xc_Episodes cmd) fs),
                                d1\<lparr>facts := fs\<rparr>))"

subsection \<open>Reading facts\<close>

definition fact_visible :: "FactQuery \<Rightarrow> fact_row \<Rightarrow> bool" where
  "fact_visible q f \<longleftrightarrow> fw_scope f = fq_Scope q \<and> fw_extractor f = fq_Extractor q \<and>
     fw_asserted_at f \<le> instant (fq_AsOf q) \<and>
     (if fq_IncludeClosed q then fw_lower f \<le> instant (fq_At q)
      else fw_lower f \<le> instant (fq_At q) \<and> below (instant (fq_At q)) (fw_upper f)) \<and>
     (fq_Subjects q \<noteq> [] \<longrightarrow> fw_subject f \<in> set (fq_Subjects q)) \<and>
     (fq_Predicates q \<noteq> [] \<longrightarrow> fw_predicate f \<in> set (fq_Predicates q)) \<and>
     (flt (Fin 0) (fq_MinConfidence q) \<longrightarrow> pg_le (fq_MinConfidence q) (fw_confidence f))"

definition facts_order ::
  "(string \<Rightarrow> string \<Rightarrow> bool) \<Rightarrow> (string \<Rightarrow> string \<Rightarrow> rat) \<Rightarrow> string \<Rightarrow> fact_row \<Rightarrow> fact_row \<Rightarrow> bool" where
  "facts_order coll rank text =
     (if TrimSpace text \<noteq> '''' then then_by (ge_key (\<lambda>f. rank text (fw_statement f))) (claim_order coll)
      else claim_order coll)"

definition Facts ::
  "(string \<Rightarrow> bool) \<Rightarrow> (string \<Rightarrow> string \<Rightarrow> bool) \<Rightarrow> (string \<Rightarrow> string \<Rightarrow> rat) \<Rightarrow> FactQuery \<Rightarrow> db \<Rightarrow> err + Fact list" where
  "Facts text_ok coll rank q d =
     (case first_err [FactQuery_Validate q, reject_if (IsZero (fq_AsOf q)) ErrInvalidConfig,
                      reject_if (IsZero (fq_At q)) ErrInvalidConfig] of
        Some e \<Rightarrow> Inl e
      | None \<Rightarrow>
          if \<not> db_ready d then Inl ErrSchemaNotReady
          else if \<not> (text_ok (fq_Extractor q) \<and> (TrimSpace (fq_Text q) \<noteq> '''' \<longrightarrow> text_ok (fq_Text q)))
          then Inl (PgErr pg_invalid_text)
          else Inr (map scanFact (take (nat (if fq_Limit q = 0 then DefaultFactsLimit else fq_Limit q))
                 (sort_by (facts_order coll rank (fq_Text q)) (filter (fact_visible q) (facts d))))))"

definition Fact :: "ScopeID \<Rightarrow> FactID \<Rightarrow> db \<Rightarrow> err + Fact" where
  "Fact scope i d =
     (case first_err [ScopeID_Validate scope, reject_if (id_IsZero i) ErrInvalidConfig] of
        Some e \<Rightarrow> Inl e
      | None \<Rightarrow>
          if \<not> db_ready d then Inl ErrSchemaNotReady
          else case filter (\<lambda>f. fw_id f = i \<and> fw_scope f = scope) (facts d) of
                 [] \<Rightarrow> Inl ErrNotFound
               | f # _ \<Rightarrow> Inr (scanFact f))"

record PendingExtractionsQuery =
  px_Scope :: ScopeID
  px_Extractor :: ExtractorID
  px_AfterSeq :: int
  px_Limit :: int

definition PendingExtractions ::
  "(string \<Rightarrow> string \<Rightarrow> bool) \<Rightarrow> PendingExtractionsQuery \<Rightarrow> db \<Rightarrow> err + EpisodeID list" where
  "PendingExtractions coll q d =
     (case first_err
        [reject_if (px_Extractor q = '''') ErrInvalidConfig,
         if px_Scope q \<noteq> '''' then ScopeID_Validate (px_Scope q) else None,
         reject_if (px_AfterSeq q < 0) ErrInvalidConfig,
         reject_if (px_AfterSeq q > 0 \<and> px_Scope q = '''') ErrInvalidConfig,
         reject_if (px_Limit q < 0) ErrInvalidConfig] of
        Some e \<Rightarrow> Inl e
      | None \<Rightarrow>
          let limit = (if px_Limit q = 0 then DefaultPendingExtractionsLimit else px_Limit q);
              rows = (if px_Scope q = ''''
                then sort_by (pending_order coll) (filter (\<lambda>e. \<not> has_marker d (px_Extractor q) e) (episodes d))
                else sort_by (le_key er_seq)
                  (filter (\<lambda>e. er_scope e = px_Scope q \<and> px_AfterSeq q < er_seq e
                     \<and> \<not> has_marker d (px_Extractor q) e) (episodes d)))
          in if \<not> db_ready d then Inl ErrSchemaNotReady
             else Inr (map er_id (take (nat limit) rows)))"

subsection \<open>Deduplication\<close>

text \<open>Two assertions of one claim that contradict each other: overlapping windows that differ.\<close>

definition contradicts :: "Assertion \<Rightarrow> Assertion \<Rightarrow> bool" where
  "contradicts a b \<longleftrightarrow> identity_of a = identity_of b \<and> a_Valid a \<noteq> a_Valid b \<and> Overlaps (a_Valid a) (a_Valid b)"

definition consistent_windows :: "(identity \<Rightarrow> Validity list) \<Rightarrow> Assertion list \<Rightarrow> bool" where
  "consistent_windows windows out \<longleftrightarrow>
     (\<forall>a \<in> set out. \<forall>w \<in> set (windows (identity_of a)). \<not> Overlaps w (a_Valid a)) \<and>
     sorted_wrt (\<lambda>a b. \<not> (identity_of a = identity_of b \<and> Overlaps (a_Valid a) (a_Valid b))) out"

lemma dedupe_loop_Inr:
  "dedupe_loop windows xs = Inr out \<Longrightarrow>
     subseq out xs \<and> consistent_windows windows out \<and>
     (\<forall>a \<in> set xs. a_Valid a \<in> set (windows (identity_of a)) \<or>
        (\<exists>b \<in> set out. identity_of b = identity_of a \<and> a_Valid b = a_Valid a))"
proof (induction windows xs arbitrary: out rule: dedupe_loop.induct)
  case (1 windows)
  then show ?case by (simp add: consistent_windows_def)
next
  case (2 windows a as)
  let ?key = "identity_of a"
  let ?w = "windows(?key := windows ?key @ [a_Valid a])"
  show ?case
  proof (cases "a_Valid a \<in> set (windows ?key)")
    case True
    then have "dedupe_loop windows as = Inr out" using "2.prems" by (simp add: Let_def)
    from "2.IH"(1)[OF refl True this] True show ?thesis by (auto intro: list_emb_Cons)
  next
    case False
    then obtain out' where out: "out = a # out'" "dedupe_loop ?w as = Inr out'"
      and no: "\<not> (\<exists>seen \<in> set (windows ?key). Overlaps seen (a_Valid a))"
      using "2.prems" by (auto simp: Let_def split: if_splits sum.splits)
    have IH: "subseq out' as" "consistent_windows ?w out'"
      "\<forall>b \<in> set as. a_Valid b \<in> set (?w (identity_of b)) \<or>
         (\<exists>c \<in> set out'. identity_of c = identity_of b \<and> a_Valid c = a_Valid b)"
      using "2.IH"(2)[OF refl False no out(2)] by blast+
    have "consistent_windows windows out"
      using IH(2) no unfolding consistent_windows_def out(1) by (auto split: if_splits)
    moreover have "\<forall>b \<in> set (a # as). a_Valid b \<in> set (windows (identity_of b)) \<or>
        (\<exists>c \<in> set out. identity_of c = identity_of b \<and> a_Valid c = a_Valid b)"
      using IH(3) unfolding out(1) by (auto split: if_splits)
    ultimately show ?thesis using IH(1) out(1) by simp
  qed
qed

lemma dedupe_loop_Inl:
  "dedupe_loop windows xs = Inl e \<Longrightarrow>
     e = ErrFactConflict \<and>
     (\<exists>b \<in> set xs. (\<exists>w \<in> set (windows (identity_of b)). w \<noteq> a_Valid b \<and> Overlaps w (a_Valid b)) \<or>
        (\<exists>a \<in> set xs. contradicts a b))"
proof (induction windows xs rule: dedupe_loop.induct)
  case (1 windows)
  then show ?case by simp
next
  case (2 windows a as)
  let ?key = "identity_of a"
  let ?w = "windows(?key := windows ?key @ [a_Valid a])"
  consider (rep) "a_Valid a \<in> set (windows ?key)"
    | (clash) seen where "a_Valid a \<notin> set (windows ?key)" "seen \<in> set (windows ?key)" "Overlaps seen (a_Valid a)"
    | (new) "a_Valid a \<notin> set (windows ?key)" "\<forall>seen \<in> set (windows ?key). \<not> Overlaps seen (a_Valid a)"
    by blast
  then show ?case
  proof cases
    case rep
    with 2 show ?thesis by (auto simp: Let_def)
  next
    case clash
    then have "dedupe_loop windows (a # as) = Inl ErrFactConflict" by (auto simp: Let_def)
    then have "e = ErrFactConflict" using "2.prems" by simp
    with clash show ?thesis by auto
  next
    case new
    then have "dedupe_loop ?w as = Inl e" using "2.prems" by (auto simp: Let_def split: sum.splits)
    then have e: "e = ErrFactConflict" and
      "\<exists>b \<in> set as. (\<exists>w \<in> set (?w (identity_of b)). w \<noteq> a_Valid b \<and> Overlaps w (a_Valid b)) \<or>
        (\<exists>c \<in> set as. contradicts c b)"
      using "2.IH"(2)[OF refl new(1)] new(2) by blast+
    then obtain b where b: "b \<in> set as" and
      "(\<exists>w \<in> set (?w (identity_of b)). w \<noteq> a_Valid b \<and> Overlaps w (a_Valid b)) \<or> (\<exists>c \<in> set as. contradicts c b)"
      by blast
    then have "(\<exists>w \<in> set (windows (identity_of b)). w \<noteq> a_Valid b \<and> Overlaps w (a_Valid b)) \<or>
        (\<exists>c \<in> set (a # as). contradicts c b)"
      by (auto simp: contradicts_def split: if_splits)
    then show ?thesis using e b by (meson list.set_intros(2))
  qed
qed

text \<open>
  Deduplication of one extraction's assertions: it either reports \<open>ErrFactConflict\<close>, and then two
  assertions of one claim really do cover overlapping, different windows; or it returns a
  subsequence of the input that still holds every claim with every window asserted, and in which no
  two assertions of one claim overlap.
\<close>

theorem dedupeAssertions_correct:
  "case dedupeAssertions xs of
     Inl e \<Rightarrow> e = ErrFactConflict \<and> (\<exists>a \<in> set xs. \<exists>b \<in> set xs. contradicts a b)
   | Inr out \<Rightarrow> subseq out xs
       \<and> (\<lambda>a. (identity_of a, a_Valid a)) ` set out = (\<lambda>a. (identity_of a, a_Valid a)) ` set xs
       \<and> sorted_wrt (\<lambda>a b. \<not> (identity_of a = identity_of b \<and> Overlaps (a_Valid a) (a_Valid b))) out"
proof (cases "dedupeAssertions xs")
  case (Inl e)
  then show ?thesis using dedupe_loop_Inl[of "\<lambda>_. []" xs e] by (auto simp: dedupeAssertions_def)
next
  case (Inr out)
  then have D: "subseq out xs" "consistent_windows (\<lambda>_. []) out"
    "\<forall>a \<in> set xs. \<exists>b \<in> set out. identity_of b = identity_of a \<and> a_Valid b = a_Valid a"
    using dedupe_loop_Inr[of "\<lambda>_. []" xs out] by (auto simp: dedupeAssertions_def)
  have "set out \<subseteq> set xs" using D(1) by (auto elim: list_emb_set)
  moreover have "(\<lambda>a. (identity_of a, a_Valid a)) a \<in> (\<lambda>a. (identity_of a, a_Valid a)) ` set out" if a: "a \<in> set xs" for a
  proof -
    obtain b where "b \<in> set out" "identity_of b = identity_of a" "a_Valid b = a_Valid a" using D(3) a by blast
    then show ?thesis by (intro image_eqI[of _ _ b]) simp_all
  qed
  ultimately have "(\<lambda>a. (identity_of a, a_Valid a)) ` set out = (\<lambda>a. (identity_of a, a_Valid a)) ` set xs"
    by blast
  with Inr D(1,2) show ?thesis by (simp add: consistent_windows_def)
qed

text \<open>
  Repeats are recognised by Go's \<open>==\<close> on \<^verbatim>\<open>time.Time\<close>, which also compares the location. The same
  claim over the same window, its instants written once in UTC and once with a numeric offset, is
  therefore not dropped as a repeat: it is reported as a contradiction and the extraction fails.
\<close>

theorem dedupe_rejects_equal_windows:
  assumes "Validity_Validate (a_Valid a) = None" "location (v_From (a_Valid a)) \<noteq> l"
  shows "dedupeAssertions [a, a\<lparr>a_Valid := (a_Valid a)\<lparr>v_From := Time (instant (v_From (a_Valid a))) l\<rparr>\<rparr>] = Inl ErrFactConflict"
proof -
  let ?v = "a_Valid a"
  let ?w = "?v\<lparr>v_From := Time (instant (v_From ?v)) l\<rparr>"
  have "?w \<noteq> ?v" using assms(2) by (metis Validity.select_convs(1) Validity.surjective Validity.update_convs(1) gotime.sel(2))
  moreover have "Overlaps ?v ?w"
    using assms(1) by (auto simp: Validity_Validate_None window_nonempty window_defs)
  ultimately show ?thesis by (simp add: dedupeAssertions_def identity_of_def Let_def)
qed

definition sample_assertion :: Assertion where
  "sample_assertion = \<lparr>a_Subject = ''user'', a_Predicate = ''lives_in'', a_Object = ''Paris'',
     a_Statement = ''Lives in Paris.'', a_Valid = \<lparr>v_From = Time 10 0, v_To = zero_time\<rparr>, a_Confidence = Fin 1\<rparr>"

theorem dedupe_rejects_equal_windows_witness:
  "dedupeAssertions [sample_assertion, sample_assertion\<lparr>a_Valid := (a_Valid sample_assertion)
     \<lparr>v_From := Time (instant (v_From (a_Valid sample_assertion))) 7\<rparr>\<rparr>] = Inl ErrFactConflict"
  by (rule dedupe_rejects_equal_windows)
     (simp_all add: sample_assertion_def Validity_Validate_def window_defs)

subsection \<open>The invariant across an extraction\<close>

lemma found_all:
  assumes "distinct (map er_id (episodes d))" "length ids \<le> length (found_episodes ids scope d)" "i \<in> set ids"
  shows "\<exists>e \<in> set (episodes d). er_id e = i \<and> er_scope e = scope"
proof -
  let ?f = "found_episodes ids scope d"
  have sub: "set (map er_id ?f) \<subseteq> set ids" by (auto simp: found_episodes_def)
  have "distinct (map er_id ?f)" using assms(1) by (simp add: found_episodes_def distinct_map_filter)
  then have "card (set (map er_id ?f)) = length ?f" by (metis distinct_card length_map)
  then have "card (set ids) \<le> card (set (map er_id ?f))" using assms(2) card_length[of ids] by linarith
  then have "set (map er_id ?f) = set ids" using sub by (intro card_seteq) auto
  then have "i \<in> er_id ` set ?f" using assms(3) by simp
  then show ?thesis by (auto simp: found_episodes_def)
qed

lemma mark_ok:
  assumes inv: "db_inv d"
    and ok: "markExtractionSQL text_ok ids scope extractor n ts d = Inr ((found, marked), d1)"
  shows "extractions_ok d1" "found = length (found_episodes ids scope d)"
    "marked = length (filter (\<lambda>e. \<not> has_marker d extractor e) (found_episodes ids scope d))"
    "d1 = d\<lparr>extractions := extractions d @ map (extraction_row_of extractor n (instant ts))
        (filter (\<lambda>e. \<not> has_marker d extractor e) (found_episodes ids scope d))\<rparr>"
proof -
  let ?new = "filter (\<lambda>e. \<not> has_marker d extractor e) (found_episodes ids scope d)"
  let ?rows = "map (extraction_row_of extractor n (instant ts)) ?new"
  show d1: "d1 = d\<lparr>extractions := extractions d @ ?rows\<rparr>" and "found = length (found_episodes ids scope d)"
    "marked = length ?new"
    using ok by (auto simp: markExtractionSQL_def stmt_def Let_def split: if_splits)
  have chk: "\<forall>e \<in> set (found_episodes ids scope d). extraction_check (extraction_row_of extractor n (instant ts) e)"
    using ok by (auto simp: markExtractionSQL_def stmt_def Let_def list_all_iff split: if_splits)
  have T: "extractions_ok d" and dist: "distinct (map er_id (episodes d))"
    using inv by (auto simp: db_inv_def episodes_ok_def)
  have "distinct (map er_id ?new)" using dist by (simp add: found_episodes_def distinct_map_filter)
  then have "distinct (map (\<lambda>r. (xw_episode r, xw_extractor r)) ?rows)"
    by (auto simp: distinct_map extraction_row_of_def inj_on_def)
  moreover have "(xw_episode m, xw_extractor m) \<noteq> (xw_episode r, xw_extractor r)"
    if "m \<in> set (extractions d)" "r \<in> set ?rows" for m r
    using that by (auto simp: has_marker_def extraction_row_of_def)
  ultimately have "distinct (map (\<lambda>r. (xw_episode r, xw_extractor r)) (extractions d @ ?rows))"
    using T by (fastforce simp: extractions_ok_def)
  then show "extractions_ok d1"
    using T chk unfolding d1
    by (auto simp: extractions_ok_def) (auto simp: found_episodes_def extraction_row_of_def)
qed

text \<open>Closing a window only shrinks it.\<close>

definition close_if :: "FactID \<Rightarrow> ScopeID \<Rightarrow> int \<Rightarrow> int \<Rightarrow> fact_row \<Rightarrow> fact_row" where
  "close_if i scope t ts f = (if retractable i scope t f then close_row t ts f else f)"

lemma retractSQL_map: "retractSQL i scope t ts fs = map (close_if i scope t ts) fs"
  by (simp add: retractSQL_def update_where_def close_if_def)

lemma close_if_simps [simp]:
  "claim_key (close_if i scope t ts f) = claim_key f" "fw_lower (close_if i scope t ts f) = fw_lower f"
  "fw_id (close_if i scope t ts f) = fw_id f" "fw_scope (close_if i scope t ts f) = fw_scope f"
  "fw_episodes (close_if i scope t ts f) = fw_episodes f"
  by (simp_all add: close_if_def close_row_def claim_key_def)

lemma below_close_if: "below x (fw_upper (close_if i scope t ts f)) \<Longrightarrow> below x (fw_upper f)"
  by (auto simp: close_if_def close_row_def below_def retractable_def split: if_splits option.splits)

lemma claims_overlap_close:
  "claims_overlap (close_if i scope t ts f) (close_if i scope t ts g) \<Longrightarrow> claims_overlap f g"
  by (auto simp: claims_overlap_def range_overlaps_def dest: below_close_if)

lemma fact_check_close: "fact_check f \<Longrightarrow> fact_check (close_if i scope t ts f)"
  by (auto simp: fact_check_def close_if_def close_row_def retractable_def split: option.splits)

lemma retract_facts_ok:
  assumes "facts_ok d"
  shows "facts_ok (d\<lparr>facts := retractSQL i scope t ts (facts d)\<rparr>)"
proof -
  have "map fw_id (map (close_if i scope t ts) (facts d)) = map fw_id (facts d)" by simp
  moreover have "\<forall>r \<in> set (facts d). \<forall>s \<in> set (facts d).
      claims_overlap (close_if i scope t ts r) (close_if i scope t ts s) \<longrightarrow> fw_id r = fw_id s"
    using assms claims_overlap_close unfolding facts_ok_def by blast
  ultimately show ?thesis
    using assms by (auto simp: retractSQL_map facts_ok_def fact_check_close comp_def)
qed

lemma applyRetractions_ok:
  assumes "facts_ok (d\<lparr>facts := fs\<rparr>)" "applyRetractions scope ts rs fs = Inr fs'"
  shows "facts_ok (d\<lparr>facts := fs'\<rparr>)"
  using assms
proof (induction scope ts rs fs rule: applyRetractions.induct)
  case (2 scope ts r rs fs)
  then show ?case
    using retract_facts_ok[of "d\<lparr>facts := fs\<rparr>" "r_Fact r" scope "instant (r_At r)" ts]
    by (auto split: if_splits option.splits)
qed simp

lemma refresh_id:
  "map fw_id (refresh_facts scope extractor ids ts as fs) = map fw_id fs"
  by (auto simp: refresh_facts_def refresh_row_def split: option.splits)

lemma in_refresh:
  assumes "g \<in> set (refresh_facts scope extractor ids ts as fs)"
  obtains f where "f \<in> set fs" "fw_id g = fw_id f" "claim_key g = claim_key f" "fw_lower g = fw_lower f"
    "fw_upper g = fw_upper f" "fw_scope g = fw_scope f"
    "g = f \<or> fw_scope f = scope \<and> set (fw_episodes g) = set (fw_episodes f) \<union> set ids"
  using assms
  by (fastforce simp: refresh_facts_def refresh_row_def claim_key_def same_claim_def find_Some_iff split: option.splits)

lemma refresh_facts_ok:
  assumes ok: "facts_ok (d\<lparr>facts := fs\<rparr>)"
    and chk: "\<forall>f \<in> set (refresh_facts scope extractor ids ts as fs). fact_check f"
    and ids: "\<forall>i \<in> set ids. \<exists>e \<in> set (episodes d). er_id e = i \<and> er_scope e = scope"
  shows "facts_ok (d\<lparr>facts := refresh_facts scope extractor ids ts as fs\<rparr>)"
proof -
  let ?fs = "refresh_facts scope extractor ids ts as fs"
  have "fw_id r = fw_id s" if "r \<in> set ?fs" "s \<in> set ?fs" "claims_overlap r s" for r s
    using that ok by (elim in_refresh) (auto simp: facts_ok_def claims_overlap_def)
  moreover have "fw_scope r \<in> sc_id ` set (scopes d) \<and>
      (\<forall>i \<in> set (fw_episodes r). \<exists>e \<in> set (episodes d). er_id e = i \<and> er_scope e = fw_scope r)"
    if r: "r \<in> set ?fs" for r
  proof (rule in_refresh[OF r])
    fix f
    assume f: "f \<in> set fs" "fw_scope r = fw_scope f"
      "r = f \<or> fw_scope f = scope \<and> set (fw_episodes r) = set (fw_episodes f) \<union> set ids"
    have "fw_scope f \<in> sc_id ` set (scopes d)"
      "\<forall>i \<in> set (fw_episodes f). \<exists>e \<in> set (episodes d). er_id e = i \<and> er_scope e = fw_scope f"
      using ok f(1) by (simp_all add: facts_ok_def)
    with f ids show ?thesis by auto
  qed
  ultimately show ?thesis using ok chk refresh_id[of scope extractor ids ts as fs] by (simp add: facts_ok_def)
qed

lemma insert_facts_Inr:
  assumes "insert_facts fs rs = Inr fs'"
  shows "fs' = fs @ rs" "\<forall>r \<in> set rs. fact_check r"
  using assms by (induction fs rs rule: insert_facts.induct) (auto split: if_splits)

lemma insert_facts_ok:
  assumes "facts_ok (d\<lparr>facts := fs\<rparr>)" "insert_facts fs rs = Inr fs'"
    and "\<forall>r \<in> set rs. fw_scope r \<in> sc_id ` set (scopes d) \<and>
        (\<forall>i \<in> set (fw_episodes r). \<exists>e \<in> set (episodes d). er_id e = i \<and> er_scope e = fw_scope r)"
  shows "facts_ok (d\<lparr>facts := fs'\<rparr>)"
  using assms
proof (induction fs rs rule: insert_facts.induct)
  case (2 fs r rs)
  have r: "fact_check r" "fw_id r \<notin> fw_id ` set fs" "\<forall>x \<in> set fs. \<not> claims_overlap x r"
    "insert_facts (fs @ [r]) rs = Inr fs'"
    using "2.prems"(2) by (auto split: if_splits)
  have "claims_overlap r x \<Longrightarrow> claims_overlap x r" for x
    by (auto simp: claims_overlap_def range_overlaps_def)
  then have "facts_ok (d\<lparr>facts := fs @ [r]\<rparr>)"
    using "2.prems"(1,3) r(1-3) by (auto simp: facts_ok_def)
  then show ?case using "2.IH" r "2.prems"(3) by auto
qed simp

lemma applyAssertionsSQL_ok:
  assumes "facts_ok (d\<lparr>facts := fs\<rparr>)"
    and ids: "\<forall>i \<in> set ids. \<exists>e \<in> set (episodes d). er_id e = i \<and> er_scope e = scope"
    and sql: "applyAssertionsSQL text_ok mint scope extractor ids ts as (map sc_id (scopes d)) fs = Inr fs'"
  shows "facts_ok (d\<lparr>facts := fs'\<rparr>)"
proof -
  let ?new = "filter (\<lambda>a. identity_of a \<notin> updated_triples scope extractor as fs) as"
  let ?rows = "map (\<lambda>k. assert_row (mint k) scope extractor ids ts (?new ! k)) [0..<length ?new]"
  let ?fs = "refresh_facts scope extractor ids ts as fs"
  have "\<forall>f \<in> set ?fs. fact_check f" and ins: "insert_facts ?fs ?rows = Inr fs'"
    and fk: "?rows = [] \<or> scope \<in> sc_id ` set (scopes d)"
    using sql by (auto simp: applyAssertionsSQL_def Let_def list_all_iff split: if_splits sum.splits)
  then have "facts_ok (d\<lparr>facts := ?fs\<rparr>)" using refresh_facts_ok[OF assms(1)] ids by blast
  then show ?thesis
    using ins ids fk by (rule_tac insert_facts_ok) (auto simp: assert_row_def)
qed

lemma ApplyExtraction_Inr:
  assumes "ApplyExtraction text_ok coll mint cmd d = Inr (out, d')"
  obtains as found marked d1 fs where
    "ExtractCommand_Validate cmd = None" "dedupeAssertions (xc_Assert cmd) = Inr as"
    "markExtractionSQL text_ok (xc_Episodes cmd) (xc_Scope cmd) (xc_Extractor cmd) (length as) (xc_At cmd) d = Inr ((found, marked), d1)"
    "length (xc_Episodes cmd) \<le> found" "d' = d1\<lparr>facts := fs\<rparr>"
    "out = map scanFact (factsOfExtractionSQL coll (xc_Scope cmd) (xc_Extractor cmd) (xc_Episodes cmd) fs)"
    "apply_if_marked text_ok mint cmd as marked d1 = Inr fs"
  using assms
  by (auto simp: ApplyExtraction_def split: option.splits sum.splits if_splits)

lemma apply_if_marked_ok:
  assumes "facts_ok d" "apply_if_marked text_ok mint cmd as marked d = Inr fs"
    and ids: "\<forall>i \<in> set (xc_Episodes cmd). \<exists>e \<in> set (episodes d). er_id e = i \<and> er_scope e = xc_Scope cmd"
  shows "facts_ok (d\<lparr>facts := fs\<rparr>)"
proof (cases "marked > 0")
  case True
  then obtain fs1 where
    R: "applyRetractions (xc_Scope cmd) (instant (xc_At cmd)) (xc_Retract cmd) (facts d) = Inr fs1"
    and A: "applyAssertions text_ok mint cmd as d fs1 = Inr fs"
    using assms(2) by (auto simp: apply_if_marked_def split: sum.splits)
  have f1: "facts_ok (d\<lparr>facts := fs1\<rparr>)" by (rule applyRetractions_ok[OF _ R]) (use assms(1) in simp)
  show ?thesis
  proof (cases "length as = 0")
    case True
    with A f1 show ?thesis by (simp add: applyAssertions_def)
  next
    case False
    then have "applyAssertionsSQL text_ok mint (xc_Scope cmd) (xc_Extractor cmd) (xc_Episodes cmd)
        (instant (xc_At cmd)) as (map sc_id (scopes d)) fs1 = Inr fs"
      using A by (auto simp: applyAssertions_def split: sum.splits)
    then show ?thesis using applyAssertionsSQL_ok[OF f1] ids by simp
  qed
qed (use assms in \<open>auto simp: apply_if_marked_def\<close>)

lemma ApplyExtraction_inv:
  assumes inv: "db_inv d" and ok: "ApplyExtraction text_ok coll mint cmd d = Inr (out, d')"
  shows "db_inv d'"
proof (rule ApplyExtraction_Inr[OF ok])
  fix as found marked d1 fs
  assume mark: "markExtractionSQL text_ok (xc_Episodes cmd) (xc_Scope cmd) (xc_Extractor cmd) (length as) (xc_At cmd) d = Inr ((found, marked), d1)"
    and len: "length (xc_Episodes cmd) \<le> found" and d': "d' = d1\<lparr>facts := fs\<rparr>"
    and fs: "apply_if_marked text_ok mint cmd as marked d1 = Inr fs"
  note M = mark_ok[OF inv mark]
  note T = db_inv_tables[OF inv]
  have same: "episodes d1 = episodes d" "scopes d1 = scopes d" "facts d1 = facts d" "encodings d1 = encodings d"
    "jobs d1 = jobs d" "db_dims d1 = db_dims d" by (simp_all add: M(4))
  have ids: "\<forall>i \<in> set (xc_Episodes cmd). \<exists>e \<in> set (episodes d). er_id e = i \<and> er_scope e = xc_Scope cmd"
    using found_all[of d "xc_Episodes cmd" "xc_Scope cmd"] len T(2) unfolding M(2) episodes_ok_def by blast
  have "facts_ok d1" using T(4) by (simp add: facts_ok_def same)
  then have "facts_ok (d1\<lparr>facts := fs\<rparr>)" using apply_if_marked_ok[OF _ fs] ids same(1) by simp
  then show ?thesis
    using T M(1) unfolding d' db_inv_def by (simp add: scopes_ok_def episodes_ok_def encodings_ok_def extractions_ok_def jobs_ok_def same)
qed

lemma ApplyExtraction_again:
  assumes inv: "db_inv d" and ok: "ApplyExtraction text_ok coll mint cmd d = Inr (out, d')"
    and v: "ExtractCommand_Validate cmd2 = None" "dedupeAssertions (xc_Assert cmd2) = Inr as2"
    and same: "xc_Scope cmd2 = xc_Scope cmd" "xc_Extractor cmd2 = xc_Extractor cmd" "xc_Episodes cmd2 = xc_Episodes cmd"
  shows "ApplyExtraction text_ok coll mint2 cmd2 d' = Inr (out, d')"
proof (rule ApplyExtraction_Inr[OF ok])
  fix as found marked d1 fs
  assume mark: "markExtractionSQL text_ok (xc_Episodes cmd) (xc_Scope cmd) (xc_Extractor cmd) (length as) (xc_At cmd) d = Inr ((found, marked), d1)"
    and len: "length (xc_Episodes cmd) \<le> found" and d': "d' = d1\<lparr>facts := fs\<rparr>"
    and out: "out = map scanFact (factsOfExtractionSQL coll (xc_Scope cmd) (xc_Extractor cmd) (xc_Episodes cmd) fs)"
  note M = mark_ok[OF inv mark]
  let ?found = "found_episodes (xc_Episodes cmd) (xc_Scope cmd) d"
  have f: "found_episodes (xc_Episodes cmd) (xc_Scope cmd) d' = ?found" by (simp add: d' M(4) found_episodes_def)
  have "has_marker d' (xc_Extractor cmd) e" if "e \<in> set ?found" for e
  proof (cases "has_marker d (xc_Extractor cmd) e")
    case True
    then show ?thesis by (auto simp: has_marker_def d' M(4))
  next
    case False
    let ?m = "extraction_row_of (xc_Extractor cmd) (length as) (instant (xc_At cmd)) e"
    have "?m \<in> set (extractions d')" using that False by (simp add: d' M(4))
    then show ?thesis unfolding has_marker_def by (intro bexI[of _ ?m]) (simp_all add: extraction_row_of_def)
  qed
  then have none: "filter (\<lambda>e. \<not> has_marker d' (xc_Extractor cmd) e) ?found = []" by (simp add: filter_empty_conv)
  have pre: "db_ready d'" "text_ok (xc_Scope cmd)" "text_ok (xc_Extractor cmd)"
    "list_all extraction_check (map (extraction_row_of (xc_Extractor cmd) n ts) ?found)" for n ts
    using mark by (auto simp: markExtractionSQL_def stmt_def Let_def d' M(4) list_all_iff extraction_check_def
        extraction_row_of_def split: if_splits)
  have "markExtractionSQL text_ok (xc_Episodes cmd) (xc_Scope cmd) (xc_Extractor cmd) n ts d' = Inr ((length ?found, 0), d')" for n ts
    using pre none by (simp add: markExtractionSQL_def stmt_def Let_def f)
  then show ?thesis
    using v same len M(2) by (simp add: ApplyExtraction_def apply_if_marked_def out) (simp add: d')
qed

text \<open>
  C23. Applying an extraction is idempotent in the episodes it read: once one has been applied, another
  extraction of the same episodes by the same extractor, whatever it asserts or retracts, is
  declined. It changes nothing at all and returns the facts the first one left.
\<close>

theorem ApplyExtraction_idempotent:
  assumes inv: "db_inv d" and ok: "ApplyExtraction text_ok coll mint cmd d = Inr (out, d')"
    and v: "ExtractCommand_Validate cmd2 = None" "dedupeAssertions (xc_Assert cmd2) = Inr as2"
    and same: "xc_Scope cmd2 = xc_Scope cmd" "xc_Extractor cmd2 = xc_Extractor cmd" "xc_Episodes cmd2 = xc_Episodes cmd"
  shows "ApplyExtraction text_ok coll mint2 cmd2 d' = Inr (out, d')"
  by (rule ApplyExtraction_again[OF assms])

text \<open>How a stored fact may change: its identity and start never, its end only by a retraction.\<close>

definition fact_evolves :: "Retraction list \<Rightarrow> fact_row \<Rightarrow> fact_row \<Rightarrow> bool" where
  "fact_evolves rs f g \<longleftrightarrow> fw_id g = fw_id f \<and> claim_key g = claim_key f \<and> fw_lower g = fw_lower f \<and>
     fw_asserted_at g = fw_asserted_at f \<and> set (fw_episodes f) \<subseteq> set (fw_episodes g) \<and>
     (fw_upper g = fw_upper f \<or>
      (\<exists>r \<in> set rs. r_Fact r = fw_id f \<and> fw_upper g = Some (instant (r_At r)) \<and> fw_lower f < instant (r_At r) \<and>
         below (instant (r_At r)) (fw_upper f)))"

lemma fact_evolves_refl: "fact_evolves rs f f"
  by (simp add: fact_evolves_def)

lemma fact_evolves_trans: "fact_evolves rs f g \<Longrightarrow> fact_evolves rs g h \<Longrightarrow> fact_evolves rs f h"
  unfolding fact_evolves_def below_def by (auto split: option.splits)

lemma fact_evolves_mono: "fact_evolves rs f g \<Longrightarrow> set rs \<subseteq> set rs' \<Longrightarrow> fact_evolves rs' f g"
  unfolding fact_evolves_def by blast

lemma retract_evolves: "r \<in> set rs \<Longrightarrow> fact_evolves rs f (close_if (r_Fact r) scope (instant (r_At r)) ts f)"
  unfolding fact_evolves_def below_def
  by (auto simp: close_if_def close_row_def retractable_def claim_key_def split: option.splits)

lemma evolves_list_trans:
  "list_all2 (fact_evolves rs) fs gs \<Longrightarrow> list_all2 (fact_evolves rs) gs hs \<Longrightarrow> list_all2 (fact_evolves rs) fs hs"
  by (rule list_all2_trans[OF fact_evolves_trans])

lemma applyRetractions_evolves:
  "applyRetractions scope ts rs fs = Inr gs \<Longrightarrow> set rs \<subseteq> set rs' \<Longrightarrow> list_all2 (fact_evolves rs') fs gs"
proof (induction scope ts rs fs rule: applyRetractions.induct)
  case (1 scope ts fs)
  then show ?case by (simp add: list_all2_refl fact_evolves_refl)
next
  case (2 scope ts r rs fs)
  show ?case
  proof (cases "\<exists>f \<in> set fs. retractable (r_Fact r) scope (instant (r_At r)) f")
    case True
    have "list_all2 (fact_evolves rs') fs (retractSQL (r_Fact r) scope (instant (r_At r)) ts fs)"
      using 2 by (simp add: retractSQL_map list_all2_conv_all_nth retract_evolves)
    then show ?thesis using 2 True evolves_list_trans by auto
  next
    case False
    then show ?thesis using 2 by (auto split: option.splits)
  qed
qed

lemma refresh_evolves: "list_all2 (fact_evolves rs) fs (refresh_facts scope extractor ids ts as fs)"
  by (auto simp: refresh_facts_def list_all2_conv_all_nth fact_evolves_def refresh_row_def claim_key_def split: option.splits)

lemma applyAssertions_evolves:
  assumes "applyAssertions text_ok mint cmd as d fs = Inr gs"
  shows "\<exists>new. list_all2 (fact_evolves rs) fs (take (length fs) gs) \<and> gs = take (length fs) gs @ new"
proof (cases "length as = 0")
  case True
  then show ?thesis using assms by (simp add: applyAssertions_def list_all2_refl fact_evolves_refl)
next
  case False
  let ?fs = "refresh_facts (xc_Scope cmd) (xc_Extractor cmd) (xc_Episodes cmd) (instant (xc_At cmd)) as fs"
  obtain rows where "gs = ?fs @ rows"
    using assms False insert_facts_Inr(1)
    by (auto simp: applyAssertions_def applyAssertionsSQL_def Let_def split: sum.splits if_splits)
  moreover have "length ?fs = length fs" by (simp add: refresh_facts_def)
  ultimately show ?thesis using refresh_evolves by auto
qed



text \<open>A concrete extraction from the sample log, and one by a second extractor that ends its fact.\<close>

definition sample_extract :: ExtractCommand where
  "sample_extract = \<lparr>xc_Scope = ''user:1'', xc_Extractor = ''x'', xc_Episodes = [1], xc_Assert = [sample_assertion],
     xc_Retract = [], xc_At = Time 9 0\<rparr>"

definition sample_fact :: fact_row where
  "sample_fact = assert_row 3 ''user:1'' ''x'' [1] 9 sample_assertion"

definition sample_facts :: db where
  "sample_facts = sample_log\<lparr>extractions := [extraction_row_of ''x'' 1 9 sample_row], facts := [sample_fact]\<rparr>"

definition sample_retract :: ExtractCommand where
  "sample_retract = \<lparr>xc_Scope = ''user:1'', xc_Extractor = ''y'', xc_Episodes = [1], xc_Assert = [],
     xc_Retract = [\<lparr>r_Fact = 3, r_At = Time 20 0\<rparr>], xc_At = Time 21 0\<rparr>"

lemmas sample_fact_defs = sample_extract_def sample_fact_def sample_facts_def sample_retract_def sample_assertion_def
  sample_log_def sample_row_def empty_db_def assert_row_def extraction_row_of_def

lemma sample_extract_valid:
  "ExtractCommand_Validate sample_extract = None" "dedupeAssertions (xc_Assert sample_extract) = Inr [sample_assertion]"
  by (simp_all add: ExtractCommand_Validate_def sample_extract_def ScopeID_Validate_def Assertion_Validate_def
      Subject_Validate_def Predicate_Validate_def limit_defs IsZero_def id_IsZero_def sample_assertion_def
      outside_unit_def Validity_Validate_def window_defs dedupeAssertions_def identity_of_def ascii_simps)

lemma sample_fact_check: "fact_check sample_fact"
  by (simp add: fact_check_def sample_fact_defs upper_of_def IsOpen_def in_unit_def len_between_def char_length_def ascii_simps)

lemma sample_extract_run:
  "ApplyExtraction ValidString (\<le>) (\<lambda>k. 3 + of_nat k) sample_extract sample_log = Inr ([scanFact sample_fact], sample_facts)"
proof -
  have "markExtractionSQL ValidString [1] ''user:1'' ''x'' 1 (Time 9 0) sample_log =
      Inr ((1, 1), sample_log\<lparr>extractions := [extraction_row_of ''x'' 1 9 sample_row]\<rparr>)"
    by (simp add: markExtractionSQL_def stmt_def found_episodes_def has_marker_def extraction_check_def
        sample_log_def sample_row_def empty_db_def extraction_row_of_def len_between_def char_length_def ascii_simps)
  moreover have "apply_if_marked ValidString (\<lambda>k. 3 + of_nat k) sample_extract [sample_assertion] 1
      (sample_log\<lparr>extractions := [extraction_row_of ''x'' 1 9 sample_row]\<rparr>) = Inr [sample_fact]"
    using sample_fact_check
    by (simp add: apply_if_marked_def applyAssertions_def applyAssertionsSQL_def refresh_facts_def updated_triples_def
        sample_extract_def sample_log_def empty_db_def sample_fact_def assertion_texts_def sample_assertion_def ascii_simps)
  ultimately show ?thesis
    using sample_extract_valid
    by (simp add: ApplyExtraction_def sample_extract_def factsOfExtractionSQL_def sample_facts_def)
       (simp add: sample_fact_def assert_row_def)
qed

theorem ApplyExtraction_idempotent_witness:
  "ApplyExtraction ValidString (\<le>) (\<lambda>k. 40 + of_nat k) sample_extract sample_facts = Inr ([scanFact sample_fact], sample_facts)"
  by (rule ApplyExtraction_idempotent[OF sample_log_inv sample_extract_run sample_extract_valid refl refl refl])


lemma refresh_same_claim:
  assumes "g \<in> set (refresh_facts scope extractor ids ts as fs)" "same_claim scope' x a g"
  shows "\<exists>f \<in> set fs. same_claim scope' x a f"
  using assms by (elim in_refresh) (auto simp: same_claim_def claim_key_def)

text \<open>
  The insert half of the upsert skips an assertion as soon as some fact with the same subject,
  predicate and object was refreshed, without looking at the window. So when one extraction
  re-asserts a stored fact and asserts the same claim over a second, disjoint window, the second
  window is silently lost: the statement succeeds and no fact covers it.
\<close>

theorem reassertion_drops_second_window:
  assumes sql: "applyAssertionsSQL text_ok mint scope extractor ids ts as known fs = Inr fs'"
    and a: "a \<in> set as" "f \<in> set fs" "same_claim scope extractor a f"
    and b: "b \<in> set as" "identity_of b = identity_of a" "\<not> (\<exists>g \<in> set fs. same_claim scope extractor b g)"
  shows "\<not> (\<exists>g \<in> set fs'. same_claim scope extractor b g)"
proof
  let ?upd = "updated_triples scope extractor as fs"
  let ?new = "filter (\<lambda>c. identity_of c \<notin> ?upd) as"
  let ?rows = "map (\<lambda>k. assert_row (mint k) scope extractor ids ts (?new ! k)) [0..<length ?new]"
  let ?fs = "refresh_facts scope extractor ids ts as fs"
  assume "\<exists>g \<in> set fs'. same_claim scope extractor b g"
  then obtain g where g: "g \<in> set fs'" "same_claim scope extractor b g" by blast
  have "insert_facts ?fs ?rows = Inr fs'"
    using sql by (auto simp: applyAssertionsSQL_def Let_def split: if_splits sum.splits)
  then have "fs' = ?fs @ ?rows" by (rule insert_facts_Inr(1))
  moreover have "g \<notin> set ?fs" using refresh_same_claim g(2) b(3) by blast
  ultimately obtain k where k: "k < length ?new" "g = assert_row (mint k) scope extractor ids ts (?new ! k)"
    using g(1) by auto
  then have "?new ! k \<in> set ?new" using nth_mem by blast
  then have "identity_of (?new ! k) \<notin> ?upd" by simp
  moreover have "identity_of (?new ! k) = identity_of a"
    using k(2) g(2) b(2) by (simp add: same_claim_def assert_row_def identity_of_def)
  moreover have "identity_of a \<in> ?upd"
    unfolding updated_triples_def identity_of_def
    using a by (intro image_eqI[of _ _ f]) (auto simp: same_claim_def list_ex_iff)
  ultimately show False by simp
qed

definition sample_window :: Validity where
  "sample_window = \<lparr>v_From = Time 2 0, v_To = Time 4 0\<rparr>"

theorem reassertion_drops_second_window_witness:
  "\<exists>fs'. applyAssertionsSQL ValidString (\<lambda>k. 40 + of_nat k) ''user:1'' ''x'' [1] 30
      [sample_assertion, sample_assertion\<lparr>a_Valid := sample_window\<rparr>] [''user:1''] [sample_fact] = Inr fs'
    \<and> \<not> (\<exists>g \<in> set fs'. same_claim ''user:1'' ''x'' (sample_assertion\<lparr>a_Valid := sample_window\<rparr>) g)"
proof -
  let ?b = "sample_assertion\<lparr>a_Valid := sample_window\<rparr>"
  have c: "same_claim ''user:1'' ''x'' sample_assertion sample_fact" "\<not> same_claim ''user:1'' ''x'' ?b sample_fact"
    by (simp_all add: same_claim_def sample_fact_def assert_row_def sample_window_def upper_of_def IsOpen_def IsZero_def sample_assertion_def)
  have i: "identity_of ?b = identity_of sample_assertion" by (simp add: identity_of_def)
  have u: "updated_triples ''user:1'' ''x'' [sample_assertion, ?b] [sample_fact] = {identity_of sample_assertion}"
    using c by (simp add: updated_triples_def identity_of_def sample_fact_def assert_row_def)
  have "fact_check (refresh_row [1] 30 sample_assertion sample_fact)"
    using sample_fact_check by (auto simp: fact_check_def refresh_row_def sample_fact_def assert_row_def split: option.splits)
  then obtain fs' where run: "applyAssertionsSQL ValidString (\<lambda>k. 40 + of_nat k) ''user:1'' ''x'' [1] 30
      [sample_assertion, ?b] [''user:1''] [sample_fact] = Inr fs'"
    using c i by (simp add: applyAssertionsSQL_def u refresh_facts_def assertion_texts_def)
      (simp add: sample_assertion_def ascii_simps)
  have "\<not> (\<exists>g \<in> set fs'. same_claim ''user:1'' ''x'' ?b g)"
    by (rule reassertion_drops_second_window[OF run, where a = sample_assertion and f = sample_fact])
       (use c i in simp_all)
  with run show ?thesis by blast
qed

subsection \<open>Reading facts\<close>

lemma total_preorder_pull: "total_preorder r \<Longrightarrow> total_preorder (\<lambda>x y. r (f x) (f y))"
  unfolding total_preorder_def by blast

lemma total_preorder_facts_order:
  assumes "total_preorder coll"
  shows "total_preorder (facts_order coll rank text)"
  using assms by (simp add: facts_order_def claim_order_def total_preorder_intros total_preorder_pull)

text \<open>What a query asks of a fact, in the terms of the Go types.\<close>

definition fact_matches :: "FactQuery \<Rightarrow> Fact \<Rightarrow> bool" where
  "fact_matches q f \<longleftrightarrow> f_Scope f = fq_Scope q \<and> f_Extractor f = fq_Extractor q \<and>
     \<not> After (f_AssertedAt f) (fq_AsOf q) \<and> \<not> After (v_From (f_Valid f)) (fq_At q) \<and>
     (fq_IncludeClosed q \<or> Contains (f_Valid f) (fq_At q)) \<and>
     (fq_Subjects q = [] \<or> f_Subject f \<in> set (fq_Subjects q)) \<and>
     (fq_Predicates q = [] \<or> f_Predicate f \<in> set (fq_Predicates q)) \<and>
     (flt (Fin 0) (fq_MinConfidence q) \<longrightarrow> pg_le (fq_MinConfidence q) (f_Confidence f))"

lemma fact_matches_scan:
  assumes "fw_upper f \<noteq> Some 0"
  shows "fact_matches q (scanFact f) \<longleftrightarrow> fact_visible q f"
  using assms
  by (auto simp: fact_matches_def fact_visible_def scanFact_def toValidity_def below_def window_defs split: option.splits)

definition facts_limit :: "FactQuery \<Rightarrow> nat" where
  "facts_limit q = nat (if fq_Limit q = 0 then DefaultFactsLimit else fq_Limit q)"

lemma Facts_Inr:
  assumes "Facts text_ok coll rank q d = Inr out"
  shows "out = map scanFact (take (facts_limit q) (sort_by (facts_order coll rank (fq_Text q)) (filter (fact_visible q) (facts d))))"
  using assms by (auto simp: Facts_def facts_limit_def split: option.splits if_splits)

lemma Facts_sound:
  assumes "\<forall>f \<in> set (facts d). fw_upper f \<noteq> Some 0" "Facts text_ok coll rank q d = Inr out" "x \<in> set out"
  shows "fact_matches q x \<and> x \<in> scanFact ` set (facts d)"
  using assms(1,3) unfolding Facts_Inr[OF assms(2)] by (auto simp: fact_matches_scan dest!: in_set_takeD)

text \<open>
  C35. A fact query returns the facts the query describes and nothing else. Every returned fact belongs
  to the scope and extractor asked for, was asserted by \<open>AsOf\<close> and, unless closed windows are
  included, its validity contains \<open>At\<close>; none is returned twice and at most the limit are returned; and
  a matching fact is left out only when the limit is exhausted by facts that sort no later.
\<close>

theorem Facts_correct:
  assumes inv: "db_inv d" and coll: "total_preorder coll" and zero: "\<forall>f \<in> set (facts d). fw_upper f \<noteq> Some 0"
    and ok: "Facts text_ok coll rank q d = Inr out"
  shows "length out \<le> facts_limit q \<and> distinct (map f_ID out)
    \<and> (\<forall>x \<in> set out. fact_matches q x \<and> x \<in> scanFact ` set (facts d))
    \<and> (\<forall>f \<in> set (facts d). fact_matches q (scanFact f) \<longrightarrow> scanFact f \<in> set out \<or>
        length out = facts_limit q \<and> (\<forall>x \<in> set out. \<exists>g \<in> set (facts d). x = scanFact g \<and> facts_order coll rank (fq_Text q) g f))"
proof -
  define limit where "limit = facts_limit q"
  let ?le = "facts_order coll rank (fq_Text q)"
  let ?rows = "sort_by ?le (filter (fact_visible q) (facts d))"
  note ord = total_preorder_facts_order[OF coll, of rank "fq_Text q"]
  have out: "out = map scanFact (take limit ?rows)"
    unfolding limit_def by (rule Facts_Inr[OF ok])
  have rows: "set ?rows = {f \<in> set (facts d). fact_visible q f}" by simp
  have "distinct (map fw_id ?rows)" using inv by (simp add: db_inv_def facts_ok_def distinct_map_filter)
  then have "distinct (map f_ID out)"
    by (simp add: out comp_def scanFact_def take_map[symmetric] del: distinct_map_sort_by)
  moreover have "\<forall>x \<in> set out. fact_matches q x \<and> x \<in> scanFact ` set (facts d)"
    using Facts_sound[OF zero ok] by blast
  moreover have "scanFact f \<in> set out \<or>
      length out = limit \<and> (\<forall>x \<in> set out. \<exists>g \<in> set (facts d). x = scanFact g \<and> ?le g f)"
    if f: "f \<in> set (facts d)" "fact_matches q (scanFact f)" for f
  proof -
    let ?kept = "take limit ?rows"
    have "f \<in> set (filter (fact_visible q) (facts d))" using f zero by (simp add: fact_matches_scan)
    then consider "f \<in> set ?kept" | "length ?kept = limit" "\<forall>g \<in> set ?kept. ?le g f"
      using total_preorder.take_sort_by_complete[OF ord] by metis
    then show ?thesis
    proof cases
      case 1
      then show ?thesis by (simp add: out)
    next
      case 2
      have "\<exists>g \<in> set (facts d). x = scanFact g \<and> ?le g f" if x: "x \<in> set out" for x
      proof -
        from x obtain g where g: "g \<in> set ?kept" "x = scanFact g" by (auto simp: out)
        then have "g \<in> set (facts d)" using in_set_takeD[OF g(1)] rows by blast
        with g 2(2) show ?thesis by blast
      qed
      moreover have "length out = limit" using 2(1) by (simp add: out)
      ultimately show ?thesis by blast
    qed
  qed
  ultimately show ?thesis by (simp add: out limit_def)
qed

lemma total_preorder_linorder: "total_preorder ((\<le>) :: 'a::linorder \<Rightarrow> 'a \<Rightarrow> bool)"
  by unfold_locales auto

definition sample_fact_query :: FactQuery where
  "sample_fact_query = \<lparr>fq_Scope = ''user:1'', fq_Extractor = ''x'', fq_AsOf = Time 50 0, fq_At = Time 15 0,
     fq_IncludeClosed = False, fq_Subjects = [], fq_Predicates = [], fq_MinConfidence = Fin 0, fq_Text = '''', fq_Limit = 0\<rparr>"

theorem Facts_correct_witness:
  "\<exists>out. Facts ValidString (\<le>) (\<lambda>_ _. 0) sample_fact_query sample_facts = Inr out
    \<and> (\<forall>x \<in> set out. fact_matches sample_fact_query x) \<and> scanFact sample_fact \<in> set out"
proof -
  have inv: "db_inv sample_facts" by (rule ApplyExtraction_inv[OF sample_log_inv sample_extract_run])
  have ok: "Facts ValidString (\<le>) (\<lambda>_ _. 0) sample_fact_query sample_facts = Inr [scanFact sample_fact]"
    by (simp add: Facts_def sample_fact_query_def FactQuery_Validate_def ScopeID_Validate_def limit_defs outside_unit_def
        IsZero_def sample_facts_def sample_log_def empty_db_def sample_fact_def assert_row_def fact_visible_def
        sample_assertion_def upper_of_def IsOpen_def below_def DefaultFactsLimit_def ascii_simps)
  show ?thesis
    using Facts_correct[OF inv total_preorder_linorder _ ok] ok
    by (simp add: sample_facts_def sample_fact_def assert_row_def sample_assertion_def upper_of_def IsOpen_def IsZero_def)
qed

end
