(* ===== verification/Search.thy ===== *)
theory Search
  imports Facts
begin

section \<open>The retrieval channels\<close>

text \<open>
  \<^verbatim>\<open>postgres/search.go\<close>. Parameters of the two searches:

  \<^item> \<open>scan\<close>: the order, and for an approximate index the selection, in which the scan yields the rows
    that satisfy the \<^verbatim>\<open>WHERE\<close> clause; the rows are then ordered and cut to the limit;
  \<^item> \<open>cosd\<close>: pgvector's cosine distance \<^verbatim>\<open><=>\<close>, finite on the vectors stored, and \<open>rnd\<close>, the rounding of
    \<^verbatim>\<open>1 - distance\<close>;
  \<^item> \<open>lex_match\<close> and \<open>rank\<close>: whether a content shares a lexeme with a text, and its \<^verbatim>\<open>ts_rank_cd\<close>;
  \<^item> \<open>text_ok\<close>: the strings the server accepts.
\<close>

definition pg_bad_vector :: string where "pg_bad_vector = ''22000''"

definition candidateLimit :: "int \<Rightarrow> int" where
  "candidateLimit limit = (if limit \<le> 0 then DefaultCandidatesPerChannel else limit)"

definition validateChannelQuery :: "'a ChannelQuery_scheme \<Rightarrow> err option" where
  "validateChannelQuery q = first_err
     ([ScopeID_Validate (cq_Scope q),
       reject_if (IsZero (cq_AsOf q)) ErrInvalidConfig,
       reject_if (cq_Limit q < 0) ErrInvalidConfig,
       reject_if (\<not> IsZero (cq_OccurredFrom q) \<and> \<not> IsZero (cq_OccurredTo q) \<and>
                  Before (cq_OccurredTo q) (cq_OccurredFrom q)) ErrInvalidConfig]
      @ map (\<lambda>role. reject_if (\<not> Role_Valid role) ErrInvalidRole) (cq_Roles q)
      @ [Binding_Validate (cq_Binding q)])"

definition validateSemantic :: "nat \<Rightarrow> SemanticQuery \<Rightarrow> err option" where
  "validateSemantic dims q = first_err
     [validateChannelQuery q,
      reject_if (sq_Model q = '''') ErrInvalidConfig,
      reject_if (length (sq_Vector q) \<noteq> dims) ErrDimensionMismatch]"

definition validateLexical :: "LexicalQuery \<Rightarrow> err option" where
  "validateLexical q = first_err
     [validateChannelQuery q,
      reject_if (TrimSpace (lq_Text q) = '''') ErrInvalidContent]"

definition wrapSearchError :: "err \<Rightarrow> err" where
  "wrapSearchError e = (if notReady e then ErrSchemaNotReady else e)"

subsection \<open>The shared filters\<close>

text \<open>\<^verbatim>\<open>jsonb @>\<close> on string maps: every entry asked for is present.\<close>

definition binding_contains :: "Binding \<Rightarrow> Binding \<Rightarrow> bool" where
  "binding_contains b q \<longleftrightarrow> set q \<subseteq> set b"

definition episodeFilters :: "'a ChannelQuery_scheme \<Rightarrow> episode_row \<Rightarrow> bool" where
  "episodeFilters q e \<longleftrightarrow>
     (\<not> IsZero (cq_OccurredFrom q) \<longrightarrow> instant (cq_OccurredFrom q) \<le> er_occurred_at e) \<and>
     (\<not> IsZero (cq_OccurredTo q) \<longrightarrow> er_occurred_at e \<le> instant (cq_OccurredTo q)) \<and>
     (0 < length (cq_Binding q) \<longrightarrow> binding_contains (er_binding e) (cq_Binding q)) \<and>
     (0 < length (cq_Roles q) \<longrightarrow> er_role e \<in> set (cq_Roles q))"

definition binding_texts :: "Binding \<Rightarrow> string list" where
  "binding_texts b = map fst b @ map snd b"

subsection \<open>Ranking\<close>

definition candidate_of :: "Channel \<Rightarrow> episode_row \<times> float64 \<Rightarrow> err + Candidate" where
  "candidate_of channel row =
     (case scanEpisode (fst row) of Inl e \<Rightarrow> Inl e
      | Inr ep \<Rightarrow> Inr \<lparr>cd_Episode = ep, cd_Channel = channel, cd_Rank = 0, cd_Score = snd row\<rparr>)"

definition candidate_le :: "Candidate \<Rightarrow> Candidate \<Rightarrow> bool" where
  "candidate_le = then_by (ge_key cd_Score) (ge_key (\<lambda>c. ep_ID (cd_Episode c)))"

definition rank_candidates :: "Candidate list \<Rightarrow> Candidate list" where
  "rank_candidates out = map2 (\<lambda>i c. c\<lparr>cd_Rank := int i + 1\<rparr>) [0..<length out] out"

definition scanCandidates :: "Channel \<Rightarrow> (episode_row \<times> float64) list \<Rightarrow> err + Candidate list" where
  "scanCandidates channel rows =
     (case traverse (candidate_of channel) rows of Inl e \<Rightarrow> Inl e
      | Inr out \<Rightarrow> Inr (rank_candidates (sort_by candidate_le out)))"

subsection \<open>The searches\<close>

type_synonym 'r scan = "'r list \<Rightarrow> 'r list"

definition semantic_rows :: "SemanticQuery \<Rightarrow> db \<Rightarrow> (encoding_row \<times> episode_row) list" where
  "semantic_rows q d =
     filter (\<lambda>(enc, e). er_id e = nr_episode enc \<and> nr_model enc = sq_Model q \<and> nr_scope enc = cq_Scope q \<and>
               nr_ingested_at enc \<le> instant (cq_AsOf q) \<and> episodeFilters q e)
       (List.product (encodings d) (episodes d))"

definition SearchSemantic ::
  "(string \<Rightarrow> bool) \<Rightarrow> (Vector \<Rightarrow> Vector \<Rightarrow> rat) \<Rightarrow> (rat \<Rightarrow> rat) \<Rightarrow> (encoding_row \<times> episode_row) scan \<Rightarrow>
   SemanticQuery \<Rightarrow> db \<Rightarrow> err + Candidate list" where
  "SearchSemantic text_ok cosd rnd scan q d =
     (case validateSemantic (db_dims d) q of Some e \<Rightarrow> Inl e
      | None \<Rightarrow>
          if \<not> db_ready d then Inl (wrapSearchError (PgErr pgerrcodeUndefinedTable))
          else if \<not> list_all text_ok (sq_Model q # binding_texts (cq_Binding q))
          then Inl (wrapSearchError (PgErr pg_invalid_text))
          else if \<not> list_all is_finite (sq_Vector q) then Inl (wrapSearchError (PgErr pg_bad_vector))
          else let best = take (nat (candidateLimit (cq_Limit q)))
                     (sort_by (le_key (\<lambda>(enc, e). cosd (nr_vec enc) (sq_Vector q))) (scan (semantic_rows q d)))
               in case scanCandidates ChannelSemantic
                         (map (\<lambda>(enc, e). (e, rnd (1 - cosd (nr_vec enc) (sq_Vector q)))) best) of
                    Inl e \<Rightarrow> Inl (wrapSearchError e)
                  | Inr out \<Rightarrow> Inr out)"

definition lexical_rows :: "(string \<Rightarrow> string \<Rightarrow> bool) \<Rightarrow> LexicalQuery \<Rightarrow> db \<Rightarrow> episode_row list" where
  "lexical_rows lex_match q d =
     filter (\<lambda>e. er_scope e = cq_Scope q \<and> er_ingested_at e \<le> instant (cq_AsOf q) \<and>
               lex_match (lq_Text q) (er_content e) \<and> episodeFilters q e) (episodes d)"

definition SearchLexical ::
  "(string \<Rightarrow> bool) \<Rightarrow> (string \<Rightarrow> string \<Rightarrow> bool) \<Rightarrow> (string \<Rightarrow> string \<Rightarrow> rat) \<Rightarrow> episode_row scan \<Rightarrow>
   LexicalQuery \<Rightarrow> db \<Rightarrow> err + Candidate list" where
  "SearchLexical text_ok lex_match rank scan q d =
     (case validateLexical q of Some e \<Rightarrow> Inl e
      | None \<Rightarrow>
          if \<not> db_ready d then Inl (wrapSearchError (PgErr pgerrcodeUndefinedTable))
          else if \<not> list_all text_ok (lq_Text q # binding_texts (cq_Binding q))
          then Inl (wrapSearchError (PgErr pg_invalid_text))
          else let best = take (nat (candidateLimit (cq_Limit q)))
                     (sort_by (then_by (ge_key (\<lambda>e. rank (lq_Text q) (er_content e))) (ge_key er_seq))
                       (scan (lexical_rows lex_match q d)))
               in case scanCandidates ChannelLexical
                         (map (\<lambda>e. (e, rank (lq_Text q) (er_content e))) best) of
                    Inl e \<Rightarrow> Inl (wrapSearchError e)
                  | Inr out \<Rightarrow> Inr out)"

subsection \<open>What a channel promises\<close>

text \<open>
  The contract of a channel's answer, in the terms of the Go types: candidates ranked from one
  without gaps, best score first and ties by the newer id, no episode twice, at most the limit, and
  every episode inside the query's scope, cuts and filters.
\<close>

definition in_query :: "'a ChannelQuery_scheme \<Rightarrow> Episode \<Rightarrow> bool" where
  "in_query q ep \<longleftrightarrow> ep_Scope ep = cq_Scope q \<and> \<not> After (ep_IngestedAt ep) (cq_AsOf q) \<and>
     (IsZero (cq_OccurredFrom q) \<or> \<not> Before (ep_OccurredAt ep) (cq_OccurredFrom q)) \<and>
     (IsZero (cq_OccurredTo q) \<or> \<not> After (ep_OccurredAt ep) (cq_OccurredTo q)) \<and>
     set (cq_Binding q) \<subseteq> set (ep_Binding ep) \<and>
     (cq_Roles q = [] \<or> ep_Role ep \<in> set (cq_Roles q))"

definition well_ranked :: "Channel \<Rightarrow> Candidate list \<Rightarrow> bool" where
  "well_ranked channel out \<longleftrightarrow>
     map cd_Rank out = map (\<lambda>i. int i + 1) [0..<length out] \<and>
     (\<forall>c \<in> set out. cd_Channel c = channel) \<and> distinct (map (\<lambda>c. ep_ID (cd_Episode c)) out) \<and>
     sorted_wrt (\<lambda>a b. cd_Score b < cd_Score a \<or>
        cd_Score a = cd_Score b \<and> ep_ID (cd_Episode b) < ep_ID (cd_Episode a)) out"

definition channel_answer :: "'a ChannelQuery_scheme \<Rightarrow> Channel \<Rightarrow> Candidate list \<Rightarrow> bool" where
  "channel_answer q channel out \<longleftrightarrow> well_ranked channel out \<and>
     int (length out) \<le> candidateLimit (cq_Limit q) \<and> (\<forall>c \<in> set out. in_query q (cd_Episode c))"

interpretation candidates: total_preorder candidate_le
  unfolding candidate_le_def by (intro total_preorder_intros)

lemma length_rank_candidates [simp]: "length (rank_candidates cs) = length cs"
  by (simp add: rank_candidates_def)

lemma nth_rank_candidates:
  "i < length cs \<Longrightarrow> rank_candidates cs ! i = (cs ! i)\<lparr>cd_Rank := int i + 1\<rparr>"
  by (simp add: rank_candidates_def)

lemma map_rank_candidates:
  assumes "\<And>c r. f (c\<lparr>cd_Rank := r\<rparr>) = f c"
  shows "map f (rank_candidates cs) = map f cs"
  using assms by (auto intro!: nth_equalityI simp: nth_rank_candidates)

lemma rank_candidates_forget:
  "map (\<lambda>c. c\<lparr>cd_Rank := 0\<rparr>) (rank_candidates cs) = map (\<lambda>c. c\<lparr>cd_Rank := 0\<rparr>) cs"
  by (rule map_rank_candidates) simp

lemma well_ranked_sorted:
  assumes "distinct (map (\<lambda>c. ep_ID (cd_Episode c)) cs)" "\<forall>c \<in> set cs. cd_Channel c = channel"
  shows "well_ranked channel (rank_candidates (sort_by candidate_le cs))"
proof -
  let ?s = "sort_by candidate_le cs"
  have d: "distinct (map (\<lambda>c. ep_ID (cd_Episode c)) ?s)" using assms(1) by simp
  have lt: "cd_Score (?s ! j) < cd_Score (?s ! i) \<or>
      cd_Score (?s ! i) = cd_Score (?s ! j) \<and> ep_ID (cd_Episode (?s ! j)) < ep_ID (cd_Episode (?s ! i))"
    if "i < j" "j < length cs" for i j
  proof -
    have "candidate_le (?s ! i) (?s ! j)"
      using candidates.sorted_sort_by[of cs] that by (simp add: sorted_wrt_nth_less)
    moreover have "ep_ID (cd_Episode (?s ! i)) \<noteq> ep_ID (cd_Episode (?s ! j))"
      using d that by (simp add: distinct_conv_nth)
    ultimately show ?thesis by (auto simp: candidate_le_def then_by_def ge_key_def)
  qed
  have "map cd_Rank (rank_candidates ?s) = map (\<lambda>i. int i + 1) [0..<length ?s]"
    by (auto intro!: nth_equalityI simp: nth_rank_candidates)
  moreover have "map cd_Channel (rank_candidates ?s) = map cd_Channel ?s"
    "map (\<lambda>c. ep_ID (cd_Episode c)) (rank_candidates ?s) = map (\<lambda>c. ep_ID (cd_Episode c)) ?s"
    by (rule map_rank_candidates, simp)+
  moreover from this(1) have "cd_Channel ` set (rank_candidates ?s) = cd_Channel ` set ?s"
    by (metis set_map)
  ultimately show ?thesis
    using assms(2) d lt
    by (auto simp: well_ranked_def sorted_wrt_iff_nth_less nth_rank_candidates simp del: distinct_map_sort_by)
qed

definition episode_of :: "episode_row \<Rightarrow> Episode" where
  "episode_of r =
     \<lparr>ep_ID = er_id r, ep_Scope = er_scope r, ep_Seq = er_seq r, ep_Content = er_content r,
      ep_Role = er_role r, ep_Actor = er_actor r, ep_Source = er_source r,
      ep_OccurredAt = Time (er_occurred_at r) 0, ep_IngestedAt = Time (er_ingested_at r) 0,
      ep_Binding = er_binding r\<rparr>"

definition unranked :: "Channel \<Rightarrow> episode_row \<times> float64 \<Rightarrow> Candidate" where
  "unranked channel row =
     \<lparr>cd_Episode = episode_of (fst row), cd_Channel = channel, cd_Rank = 0, cd_Score = snd row\<rparr>"

lemma scanCandidates_ok:
  assumes "\<forall>row \<in> set rows. episode_check (fst row)"
  shows "scanCandidates channel rows = Inr (rank_candidates (sort_by candidate_le (map (unranked channel) rows)))"
proof -
  have "candidate_of channel row = Inr (unranked channel row)" if "row \<in> set rows" for row
    using assms that
    by (auto simp: candidate_of_def scanEpisode_def unranked_def episode_of_def episode_check_def Role_Valid_check)
  then show ?thesis by (simp add: scanCandidates_def traverse_Inr)
qed

lemma in_query_row:
  "in_query q (episode_of e) \<longleftrightarrow>
     er_scope e = cq_Scope q \<and> er_ingested_at e \<le> instant (cq_AsOf q) \<and> episodeFilters q e"
  by (auto simp: in_query_def episode_of_def episodeFilters_def binding_contains_def time_simps)

lemma rank_candidates_mem:
  "c \<in> set (rank_candidates cs) \<Longrightarrow> \<exists>u \<in> set cs. \<exists>r. c = u\<lparr>cd_Rank := r\<rparr>"
  by (auto simp: rank_candidates_def set_zip)

lemma rank_candidates_mem_iff:
  assumes "\<And>c r. f (c\<lparr>cd_Rank := r\<rparr>) = f c"
  shows "f ` set (rank_candidates cs) = f ` set cs"
  using map_rank_candidates[of f cs, OF assms] by (metis set_map)

text \<open>
  The shared half of both channels: a selection of distinct episodes that satisfy the query, at most
  the limit, becomes a well-formed answer.
\<close>

lemma channel_answer_rows:
  fixes rows :: "(episode_row \<times> float64) list"
  assumes "\<forall>row \<in> set rows. in_query q (episode_of (fst row))" "distinct (map (er_id \<circ> fst) rows)"
    "int (length rows) \<le> candidateLimit (cq_Limit q)"
  shows "channel_answer q channel (rank_candidates (sort_by candidate_le (map (unranked channel) rows)))"
proof -
  let ?cs = "map (unranked channel) rows"
  have "distinct (map (\<lambda>c. ep_ID (cd_Episode c)) ?cs)" using assms(2) by (simp add: unranked_def episode_of_def comp_def)
  moreover have "\<forall>c \<in> set ?cs. cd_Channel c = channel" by (simp add: unranked_def)
  ultimately have "well_ranked channel (rank_candidates (sort_by candidate_le ?cs))" by (rule well_ranked_sorted)
  moreover have "cd_Episode ` set (rank_candidates (sort_by candidate_le ?cs)) = (episode_of \<circ> fst) ` set rows"
    by (subst rank_candidates_mem_iff) (simp_all add: image_comp comp_def unranked_def)
  then have "\<forall>c \<in> set (rank_candidates (sort_by candidate_le ?cs)). in_query q (cd_Episode c)"
    using assms(1) by (metis (no_types, lifting) comp_apply imageE image_eqI)
  ultimately show ?thesis using assms(3) by (simp add: channel_answer_def)
qed

text \<open>The documented behaviour of a scan: it invents no row and yields none twice; an exact one yields all.\<close>

definition sound_scan :: "'r scan \<Rightarrow> bool" where
  "sound_scan scan \<longleftrightarrow> (\<forall>rs. mset (scan rs) \<subseteq># mset rs)"

definition exact_scan :: "'r scan \<Rightarrow> bool" where
  "exact_scan scan \<longleftrightarrow> (\<forall>rs. mset (scan rs) = mset rs)"

lemma exact_sound: "exact_scan scan \<Longrightarrow> sound_scan scan"
  by (simp add: exact_scan_def sound_scan_def)

lemma sound_scan_mem: "sound_scan scan \<Longrightarrow> r \<in> set (scan rs) \<Longrightarrow> r \<in> set rs"
  unfolding sound_scan_def by (metis mset_subset_eqD set_mset_mset)

lemma exact_scan_set: "exact_scan scan \<Longrightarrow> set (scan rs) = set rs"
  unfolding exact_scan_def by (metis set_mset_mset)

lemma sound_scan_distinct:
  assumes "sound_scan scan" "distinct (map f rs)"
  shows "distinct (map f (scan rs))"
proof -
  obtain C where "mset rs = mset (scan rs) + C"
    using assms(1) unfolding sound_scan_def by (metis mset_subset_eq_exists_conv)
  moreover obtain ys where "mset ys = C" using ex_mset by blast
  ultimately have "mset (map f (scan rs @ ys)) = mset (map f rs)" by simp
  then have "distinct (map f (scan rs @ ys))" using assms(2) by (metis mset_eq_imp_distinct_iff)
  then show ?thesis by simp
qed

lemma distinct_take_sort:
  "distinct (map f rs) \<Longrightarrow> distinct (map f (take n (sort_by le rs)))"
  by (metis distinct_map_sort_by distinct_take take_map)


subsection \<open>Semantic search\<close>

lemma in_semantic_rows:
  assumes "db_inv d"
  shows "(enc, e) \<in> set (semantic_rows q d) \<longleftrightarrow> enc \<in> set (encodings d) \<and> e \<in> set (episodes d) \<and>
    nr_episode enc = er_id e \<and> nr_model enc = sq_Model q \<and> in_query q (episode_of e)"
proof -
  have "er_scope e = nr_scope enc \<and> er_ingested_at e = nr_ingested_at enc"
    if m: "enc \<in> set (encodings d)" "e \<in> set (episodes d)" "nr_episode enc = er_id e"
  proof -
    obtain e' where "e' \<in> set (episodes d)" "er_id e' = nr_episode enc" "er_scope e' = nr_scope enc"
      "er_ingested_at e' = nr_ingested_at enc" using assms m(1) by (auto simp: db_inv_def encodings_ok_def)
    moreover have "inj_on er_id (set (episodes d))" using assms by (simp add: db_inv_def episodes_ok_def distinct_map)
    ultimately show ?thesis using m by (metis inj_onD)
  qed
  then show ?thesis by (auto simp: semantic_rows_def in_query_row)
qed

lemma distinct_semantic_rows:
  assumes inv: "db_inv d"
  shows "distinct (map (er_id \<circ> snd) (semantic_rows q d))"
proof -
  have k: "distinct (encodings d)" "distinct (episodes d)" "inj_on er_id (set (episodes d))"
    "inj_on (\<lambda>r. (nr_episode r, nr_model r)) (set (encodings d))"
    using inv by (auto simp: db_inv_def encodings_ok_def episodes_ok_def distinct_map)
  have "inj_on (er_id \<circ> snd) (set (semantic_rows q d))"
    using k(3,4) by (auto simp: inj_on_def in_semantic_rows[OF inv])
  moreover have "distinct (semantic_rows q d)"
    using k(1,2) by (simp add: semantic_rows_def distinct_product)
  ultimately show ?thesis by (simp add: distinct_map)
qed

abbreviation vec_distance :: "(Vector \<Rightarrow> Vector \<Rightarrow> rat) \<Rightarrow> SemanticQuery \<Rightarrow> encoding_row \<Rightarrow> rat" where
  "vec_distance cosd q enc \<equiv> cosd (nr_vec enc) (sq_Vector q)"

definition semantic_best ::
  "(Vector \<Rightarrow> Vector \<Rightarrow> rat) \<Rightarrow> (encoding_row \<times> episode_row) scan \<Rightarrow> SemanticQuery \<Rightarrow> db \<Rightarrow> (encoding_row \<times> episode_row) list" where
  "semantic_best cosd scan q d = take (nat (candidateLimit (cq_Limit q)))
     (sort_by (le_key (\<lambda>(enc, e). vec_distance cosd q enc)) (scan (semantic_rows q d)))"

abbreviation semantic_row :: "(Vector \<Rightarrow> Vector \<Rightarrow> rat) \<Rightarrow> (rat \<Rightarrow> rat) \<Rightarrow> SemanticQuery \<Rightarrow> encoding_row \<times> episode_row \<Rightarrow> episode_row \<times> float64" where
  "semantic_row cosd rnd q \<equiv> \<lambda>(enc, e). (e, rnd (1 - vec_distance cosd q enc))"

lemma candidateLimit_pos: "0 < candidateLimit n"
  by (simp add: candidateLimit_def limit_defs)

lemma semantic_best_mem:
  "sound_scan scan \<Longrightarrow> row \<in> set (semantic_best cosd scan q d) \<Longrightarrow> row \<in> set (semantic_rows q d)"
  unfolding semantic_best_def by (drule in_set_takeD) (auto dest: sound_scan_mem)

lemma SearchSemantic_Inr:
  assumes inv: "db_inv d" and scan: "sound_scan scan"
    and ok: "SearchSemantic text_ok cosd rnd scan q d = Inr out"
  shows "out = rank_candidates (sort_by candidate_le
    (map (unranked ChannelSemantic) (map (semantic_row cosd rnd q) (semantic_best cosd scan q d))))"
proof -
  have "\<forall>row \<in> set (map (semantic_row cosd rnd q) (semantic_best cosd scan q d)). episode_check (fst row)"
    using semantic_best_mem[OF scan, of _ cosd q d] inv
    by (fastforce simp: in_semantic_rows[OF inv] db_inv_def episodes_ok_def split: prod.splits)
  from scanCandidates_ok[OF this, of ChannelSemantic] show ?thesis
    using ok by (auto simp: SearchSemantic_def semantic_best_def Let_def split: option.splits if_splits)
qed


lemma SearchSemantic_ok:
  assumes inv: "db_inv d" and scan: "sound_scan scan" and v: "validateSemantic (db_dims d) q = None" "db_ready d"
    "list_all text_ok (sq_Model q # binding_texts (cq_Binding q))" "list_all is_finite (sq_Vector q)"
  shows "\<exists>out. SearchSemantic text_ok cosd rnd scan q d = Inr out"
proof -
  have "\<forall>row \<in> set (map (semantic_row cosd rnd q) (semantic_best cosd scan q d)). episode_check (fst row)"
    using semantic_best_mem[OF scan, of _ cosd q d] inv
    by (fastforce simp: in_semantic_rows[OF inv] db_inv_def episodes_ok_def split: prod.splits)
  from scanCandidates_ok[OF this, of ChannelSemantic] show ?thesis
    using v by (simp add: SearchSemantic_def semantic_best_def Let_def)
qed

lemma SearchSemantic_answer:
  assumes inv: "db_inv d" and scan: "sound_scan scan"
    and ok: "SearchSemantic text_ok cosd rnd scan q d = Inr out"
  shows "channel_answer q ChannelSemantic out"
proof -
  let ?best = "semantic_best cosd scan q d"
  let ?rows = "map (semantic_row cosd rnd q) ?best"
  note out = SearchSemantic_Inr[OF inv scan ok]
  note mem = semantic_best_mem[OF scan, of _ cosd q d]
  have len: "int (length ?best) \<le> candidateLimit (cq_Limit q)"
    using candidateLimit_pos[of "cq_Limit q"] by (simp add: semantic_best_def)
  have "distinct (map (er_id \<circ> snd) ?best)"
    unfolding semantic_best_def by (intro distinct_take_sort sound_scan_distinct[OF scan] distinct_semantic_rows[OF inv])
  moreover have "map (er_id \<circ> fst) ?rows = map (er_id \<circ> snd) ?best" by (auto split: prod.splits)
  ultimately have "distinct (map (er_id \<circ> fst) ?rows)" by (simp only:)
  moreover have "\<forall>row \<in> set ?rows. in_query q (episode_of (fst row))"
    using mem by (auto simp: in_semantic_rows[OF inv])
  ultimately show ?thesis
    unfolding out using len by (intro channel_answer_rows) simp_all
qed

text \<open>
  C25. A semantic search answers with a well-formed ranking: at most the limit, ranks from one without
  gaps, best score first and equal scores newest first, no episode twice, and every episode inside
  the scope, the as-of cut, the event-time window, the binding and the roles asked for. Each score is
  the similarity of an encoding of that episode by the model asked for. Where the scan is exact, an
  encoded episode that satisfies the query is left out only if the limit is filled by episodes at
  least as near.
\<close>

theorem SearchSemantic_correct:
  assumes inv: "db_inv d" and scan: "sound_scan scan"
    and ok: "SearchSemantic text_ok cosd rnd scan q d = Inr out"
  shows "channel_answer q ChannelSemantic out
    \<and> (\<forall>c \<in> set out. \<exists>enc e. enc \<in> set (encodings d) \<and> e \<in> set (episodes d) \<and> nr_episode enc = er_id e
         \<and> nr_model enc = sq_Model q \<and> cd_Episode c = episode_of e \<and> cd_Score c = rnd (1 - vec_distance cosd q enc))
    \<and> (exact_scan scan \<longrightarrow> (\<forall>enc \<in> set (encodings d). \<forall>e \<in> set (episodes d).
         nr_episode enc = er_id e \<and> nr_model enc = sq_Model q \<and> in_query q (episode_of e) \<longrightarrow>
         episode_of e \<in> cd_Episode ` set out \<or>
         int (length out) = candidateLimit (cq_Limit q) \<and>
           (\<forall>(enc', e') \<in> set (semantic_best cosd scan q d). vec_distance cosd q enc' \<le> vec_distance cosd q enc)))"
proof (intro conjI ballI impI)
  let ?best = "semantic_best cosd scan q d"
  note out = SearchSemantic_Inr[OF inv scan ok]
  note mem = semantic_best_mem[OF scan, of _ cosd q d]
  show "channel_answer q ChannelSemantic out" by (rule SearchSemantic_answer[OF assms])
  show "\<exists>enc e. enc \<in> set (encodings d) \<and> e \<in> set (episodes d) \<and> nr_episode enc = er_id e
      \<and> nr_model enc = sq_Model q \<and> cd_Episode c = episode_of e \<and> cd_Score c = rnd (1 - vec_distance cosd q enc)"
    if "c \<in> set out" for c
    using rank_candidates_mem[OF that[unfolded out]] mem
    by (fastforce simp: in_semantic_rows[OF inv] unranked_def)
  fix enc e
  assume ex: "exact_scan scan" and m: "enc \<in> set (encodings d)" "e \<in> set (episodes d)"
    and q: "nr_episode enc = er_id e \<and> nr_model enc = sq_Model q \<and> in_query q (episode_of e)"
  have "(enc, e) \<in> set (scan (semantic_rows q d))"
    using m q by (simp add: exact_scan_set[OF ex] in_semantic_rows[OF inv])
  from total_preorder.take_sort_by_complete[OF total_preorder_le_key this, of "nat (candidateLimit (cq_Limit q))" "\<lambda>(enc, e). vec_distance cosd q enc"]
  consider "(enc, e) \<in> set ?best" | "int (length ?best) = candidateLimit (cq_Limit q)"
      "\<forall>(enc', e') \<in> set ?best. vec_distance cosd q enc' \<le> vec_distance cosd q enc"
    using candidateLimit_pos[of "cq_Limit q"] by (fastforce simp: semantic_best_def le_key_def)
  then show "episode_of e \<in> cd_Episode ` set out \<or> int (length out) = candidateLimit (cq_Limit q) \<and>
      (\<forall>(enc', e') \<in> set ?best. vec_distance cosd q enc' \<le> vec_distance cosd q enc)"
  proof cases
    case 1
    have "cd_Episode ` set out = (episode_of \<circ> snd) ` set ?best"
      unfolding out by (subst rank_candidates_mem_iff) (simp_all add: image_comp comp_def unranked_def case_prod_beta)
    with 1 show ?thesis by force
  next
    case 2
    then show ?thesis by (simp add: out)
  qed
qed


subsection \<open>Lexical search\<close>

definition lexical_le :: "(string \<Rightarrow> string \<Rightarrow> rat) \<Rightarrow> LexicalQuery \<Rightarrow> episode_row \<Rightarrow> episode_row \<Rightarrow> bool" where
  "lexical_le rank q = then_by (ge_key (\<lambda>e. rank (lq_Text q) (er_content e))) (ge_key er_seq)"

definition lexical_best ::
  "(string \<Rightarrow> string \<Rightarrow> bool) \<Rightarrow> (string \<Rightarrow> string \<Rightarrow> rat) \<Rightarrow> episode_row scan \<Rightarrow> LexicalQuery \<Rightarrow> db \<Rightarrow> episode_row list" where
  "lexical_best lex_match rank scan q d =
     take (nat (candidateLimit (cq_Limit q))) (sort_by (lexical_le rank q) (scan (lexical_rows lex_match q d)))"

interpretation lexical: total_preorder "lexical_le rank q"
  unfolding lexical_le_def by (intro total_preorder_intros)

lemma in_lexical_rows:
  "e \<in> set (lexical_rows lex_match q d) \<longleftrightarrow>
     e \<in> set (episodes d) \<and> lex_match (lq_Text q) (er_content e) \<and> in_query q (episode_of e)"
  by (auto simp: lexical_rows_def in_query_row)

lemma lexical_best_mem:
  "sound_scan scan \<Longrightarrow> e \<in> set (lexical_best lex_match rank scan q d) \<Longrightarrow> e \<in> set (lexical_rows lex_match q d)"
  unfolding lexical_best_def by (drule in_set_takeD) (auto dest: sound_scan_mem)

lemma SearchLexical_Inr:
  assumes inv: "db_inv d" and scan: "sound_scan scan"
    and ok: "SearchLexical text_ok lex_match rank scan q d = Inr out"
  shows "out = rank_candidates (sort_by candidate_le (map (unranked ChannelLexical)
    (map (\<lambda>e. (e, rank (lq_Text q) (er_content e))) (lexical_best lex_match rank scan q d))))"
proof -
  have "\<forall>row \<in> set (map (\<lambda>e. (e, rank (lq_Text q) (er_content e))) (lexical_best lex_match rank scan q d)). episode_check (fst row)"
    using lexical_best_mem[OF scan, of _ lex_match rank q d] inv
    by (auto simp: in_lexical_rows db_inv_def episodes_ok_def)
  from scanCandidates_ok[OF this, of ChannelLexical] show ?thesis
    using ok by (auto simp: SearchLexical_def lexical_best_def lexical_le_def Let_def split: option.splits if_splits)
qed

lemma SearchLexical_ok:
  assumes inv: "db_inv d" and scan: "sound_scan scan" and v: "validateLexical q = None" "db_ready d"
    "list_all text_ok (lq_Text q # binding_texts (cq_Binding q))"
  shows "\<exists>out. SearchLexical text_ok lex_match rank scan q d = Inr out"
proof -
  have "\<forall>row \<in> set (map (\<lambda>e. (e, rank (lq_Text q) (er_content e))) (lexical_best lex_match rank scan q d)). episode_check (fst row)"
    using lexical_best_mem[OF scan, of _ lex_match rank q d] inv
    by (auto simp: in_lexical_rows db_inv_def episodes_ok_def)
  from scanCandidates_ok[OF this, of ChannelLexical] show ?thesis
    using v by (simp add: SearchLexical_def lexical_best_def lexical_le_def Let_def)
qed

lemma SearchLexical_answer:
  assumes inv: "db_inv d" and scan: "sound_scan scan"
    and ok: "SearchLexical text_ok lex_match rank scan q d = Inr out"
  shows "channel_answer q ChannelLexical out"
proof -
  let ?best = "lexical_best lex_match rank scan q d"
  let ?rows = "map (\<lambda>e. (e, rank (lq_Text q) (er_content e))) ?best"
  note out = SearchLexical_Inr[OF inv scan ok]
  note mem = lexical_best_mem[OF scan, of _ lex_match rank q d]
  have "distinct (map er_id (lexical_rows lex_match q d))"
    using inv by (simp add: lexical_rows_def db_inv_def episodes_ok_def distinct_map_filter)
  then have "distinct (map er_id ?best)"
    unfolding lexical_best_def by (intro distinct_take_sort sound_scan_distinct[OF scan])
  then have "distinct (map (er_id \<circ> fst) ?rows)" by (simp add: comp_def)
  moreover have "\<forall>row \<in> set ?rows. in_query q (episode_of (fst row))" using mem by (auto simp: in_lexical_rows)
  moreover have "int (length ?rows) \<le> candidateLimit (cq_Limit q)"
    using candidateLimit_pos[of "cq_Limit q"] by (simp add: lexical_best_def)
  ultimately show ?thesis unfolding out by (intro channel_answer_rows)
qed

text \<open>
  A lexical search answers with a well-formed ranking of episodes that share a lexeme with the
  text and satisfy every filter; and where the scan is exact, a matching episode is left out only if
  the limit is filled by episodes that rank higher, or as high and are no older.
\<close>

theorem SearchLexical_correct:
  assumes inv: "db_inv d" and scan: "sound_scan scan"
    and ok: "SearchLexical text_ok lex_match rank scan q d = Inr out"
  shows "channel_answer q ChannelLexical out
    \<and> (\<forall>c \<in> set out. \<exists>e \<in> set (episodes d). cd_Episode c = episode_of e \<and> lex_match (lq_Text q) (er_content e)
         \<and> cd_Score c = rank (lq_Text q) (er_content e))
    \<and> (exact_scan scan \<longrightarrow> (\<forall>e \<in> set (episodes d). lex_match (lq_Text q) (er_content e) \<and> in_query q (episode_of e) \<longrightarrow>
         episode_of e \<in> cd_Episode ` set out \<or>
         int (length out) = candidateLimit (cq_Limit q) \<and>
           (\<forall>x \<in> set (lexical_best lex_match rank scan q d). lexical_le rank q x e)))"
proof (intro conjI ballI impI)
  let ?best = "lexical_best lex_match rank scan q d"
  note out = SearchLexical_Inr[OF inv scan ok]
  note mem = lexical_best_mem[OF scan, of _ lex_match rank q d]
  show "channel_answer q ChannelLexical out" by (rule SearchLexical_answer[OF assms])
  show "\<exists>e \<in> set (episodes d). cd_Episode c = episode_of e \<and> lex_match (lq_Text q) (er_content e)
      \<and> cd_Score c = rank (lq_Text q) (er_content e)" if "c \<in> set out" for c
    using rank_candidates_mem[OF that[unfolded out]] mem by (fastforce simp: in_lexical_rows unranked_def)
  fix e
  assume ex: "exact_scan scan" and m: "e \<in> set (episodes d)"
    and q: "lex_match (lq_Text q) (er_content e) \<and> in_query q (episode_of e)"
  have "e \<in> set (scan (lexical_rows lex_match q d))" using m q by (simp add: exact_scan_set[OF ex] in_lexical_rows)
  from lexical.take_sort_by_complete[OF this, of "nat (candidateLimit (cq_Limit q))" rank q]
  consider "e \<in> set ?best" | "int (length ?best) = candidateLimit (cq_Limit q)" "\<forall>x \<in> set ?best. lexical_le rank q x e"
    using candidateLimit_pos[of "cq_Limit q"] by (fastforce simp: lexical_best_def)
  then show "episode_of e \<in> cd_Episode ` set out \<or> int (length out) = candidateLimit (cq_Limit q) \<and>
      (\<forall>x \<in> set ?best. lexical_le rank q x e)"
  proof cases
    case 1
    have "cd_Episode ` set out = episode_of ` set ?best"
      unfolding out by (subst rank_candidates_mem_iff) (auto simp: image_comp unranked_def)
    with 1 show ?thesis by blast
  qed (simp add: out)
qed


subsection \<open>Replaying a search\<close>

lemma candidate_le_antisym:
  assumes "distinct (map (\<lambda>c. ep_ID (cd_Episode c)) cs)" "x \<in> set cs" "y \<in> set cs" "candidate_le x y" "candidate_le y x"
  shows "x = y"
  using assms by (auto simp: candidate_le_def then_by_def ge_key_def distinct_map dest: inj_onD)

text \<open>
  C26. Recall can be replayed. A search result depends on the rows that satisfy the query and not on
  the order the scan happened to yield them in, as long as no more rows satisfy it than the limit
  takes; and nothing ingested after \<open>AsOf\<close> can change it, however much has been appended since.
\<close>

theorem SearchLexical_replay:
  assumes inv: "db_inv d" and scan: "exact_scan scan1" "exact_scan scan2"
    and few: "int (length (lexical_rows lex_match q d)) \<le> candidateLimit (cq_Limit q)"
    and later: "episodes d' = episodes d @ new" "\<forall>e \<in> set new. instant (cq_AsOf q) < er_ingested_at e"
      "db_ready d' = db_ready d"
  shows "SearchLexical text_ok lex_match rank scan1 q d' = SearchLexical text_ok lex_match rank scan2 q d"
proof -
  let ?rows = "lexical_rows lex_match q d"
  have same: "lexical_rows lex_match q d' = ?rows"
    using later(2) by (auto simp: lexical_rows_def later(1) filter_empty_conv)
  let ?pick = "\<lambda>scan. map (\<lambda>e. (e, rank (lq_Text q) (er_content e)))
    (take (nat (candidateLimit (cq_Limit q))) (sort_by (lexical_le rank q) (scan ?rows)))"
  have all: "take (nat (candidateLimit (cq_Limit q))) (sort_by (lexical_le rank q) (scan ?rows)) = sort_by (lexical_le rank q) (scan ?rows)"
    if "exact_scan scan" for scan
  proof -
    have "length (scan ?rows) = length ?rows" using that by (metis exact_scan_def size_mset)
    then show ?thesis using few by simp
  qed
  have perm: "mset (map (unranked ChannelLexical) (?pick scan1)) = mset (map (unranked ChannelLexical) (?pick scan2))"
    using scan by (simp add: all exact_scan_def)
  have chk: "\<forall>row \<in> set (?pick scan). episode_check (fst row)" if "exact_scan scan" for scan
    using inv that by (auto simp: all exact_scan_set in_lexical_rows db_inv_def episodes_ok_def)
  have "distinct (map er_id (scan1 ?rows))"
    using inv by (intro sound_scan_distinct[OF exact_sound[OF scan(1)]])
      (simp add: lexical_rows_def db_inv_def episodes_ok_def distinct_map_filter)
  then have "distinct (map (\<lambda>c. ep_ID (cd_Episode c)) (map (unranked ChannelLexical) (?pick scan1)))"
    by (simp add: all[OF scan(1)] comp_def unranked_def episode_of_def)
  then have "sort_by candidate_le (map (unranked ChannelLexical) (?pick scan1)) = sort_by candidate_le (map (unranked ChannelLexical) (?pick scan2))"
    by (intro candidates.sort_by_perm perm) (rule candidate_le_antisym)
  then have "scanCandidates ChannelLexical (?pick scan1) = scanCandidates ChannelLexical (?pick scan2)"
    unfolding scanCandidates_ok[OF chk[OF scan(1)]] scanCandidates_ok[OF chk[OF scan(2)]] by (rule arg_cong)
  then show ?thesis
    by (auto simp: SearchLexical_def same later(3) lexical_le_def[symmetric] Let_def split: option.splits)
qed


text \<open>Concrete searches of the sample log, with one encoding written to it.\<close>

definition sample_channel :: ChannelQuery where
  "sample_channel = \<lparr>cq_Scope = ''user:1'', cq_AsOf = Time 50 0, cq_OccurredFrom = zero_time, cq_OccurredTo = zero_time,
     cq_Binding = [], cq_Roles = [], cq_Limit = 0\<rparr>"

definition sample_lexical :: LexicalQuery where
  "sample_lexical = ChannelQuery.extend sample_channel \<lparr>lq_Text = ''hello''\<rparr>"

definition sample_semantic :: SemanticQuery where
  "sample_semantic = ChannelQuery.extend sample_channel \<lparr>sq_Vector = [Fin 1, Fin 0], sq_Model = ''m''\<rparr>"

definition sample_encoded :: db where
  "sample_encoded = sample_log\<lparr>encodings := [encoding_row_of sample_encoding sample_row]\<rparr>"

lemma sample_channel_valid: "validateChannelQuery (ChannelQuery.extend sample_channel x) = None"
  by (simp add: validateChannelQuery_def sample_channel_def ChannelQuery.defs ScopeID_Validate_def limit_defs IsZero_def
      Binding_Validate_def zero_time_def ascii_simps)

lemma sample_encoded_inv: "db_inv sample_encoded"
  using sample_log_inv
  by (simp add: sample_encoded_def db_inv_def scopes_ok_def episodes_ok_def facts_ok_def extractions_ok_def jobs_ok_def
      encodings_ok_def encoding_row_of_def)
     (simp add: sample_log_def sample_row_def sample_encoding_def empty_db_def encoding_check_def in_unit_def
      len_between_def char_length_def ascii_simps)

lemma exact_scan_id: "exact_scan (\<lambda>rs. rs)" and exact_scan_rev: "exact_scan rev"
  by (simp_all add: exact_scan_def)

lemma sample_in_query: "in_query (ChannelQuery.extend sample_channel x) (episode_of sample_row)"
  by (simp add: in_query_def sample_channel_def ChannelQuery.defs episode_of_def sample_row_def time_simps)

theorem SearchLexical_correct_witness:
  "\<exists>out. SearchLexical ValidString (=) (\<lambda>_ _. 1) rev sample_lexical sample_log = Inr out
    \<and> channel_answer sample_lexical ChannelLexical out \<and> (\<forall>c \<in> set out. cd_Score c = 1)"
proof -
  have "validateLexical sample_lexical = None"
    using sample_channel_valid by (simp add: validateLexical_def sample_lexical_def) (simp add: ChannelQuery.defs ascii_simps)
  moreover have "list_all ValidString (lq_Text sample_lexical # binding_texts (cq_Binding sample_lexical))" "db_ready sample_log"
    by (simp_all add: sample_lexical_def sample_channel_def ChannelQuery.defs binding_texts_def sample_log_def empty_db_def ascii_simps)
  ultimately obtain out where ok: "SearchLexical ValidString (=) (\<lambda>_ _. 1) rev sample_lexical sample_log = Inr out"
    using SearchLexical_ok[OF sample_log_inv exact_sound[OF exact_scan_rev]] by blast
  show ?thesis using SearchLexical_correct[OF sample_log_inv exact_sound[OF exact_scan_rev] ok] ok by fastforce
qed

theorem SearchSemantic_correct_witness:
  "\<exists>out. SearchSemantic ValidString (\<lambda>v w. if v = w then 0 else 1) (\<lambda>x. x) rev sample_semantic sample_encoded = Inr out
    \<and> channel_answer sample_semantic ChannelSemantic out \<and> (\<forall>c \<in> set out. cd_Score c \<in> {0, 1})"
proof -
  have "validateSemantic (db_dims sample_encoded) sample_semantic = None"
    using sample_channel_valid
    by (simp add: validateSemantic_def sample_semantic_def) (simp add: ChannelQuery.defs sample_encoded_def sample_log_def empty_db_def)
  moreover have "list_all ValidString (sq_Model sample_semantic # binding_texts (cq_Binding sample_semantic))"
    "list_all is_finite (sq_Vector sample_semantic)" "db_ready sample_encoded"
    by (simp_all add: sample_semantic_def sample_channel_def ChannelQuery.defs binding_texts_def is_finite_def sample_encoded_def
        sample_log_def empty_db_def ascii_simps)
  ultimately obtain out where
    ok: "SearchSemantic ValidString (\<lambda>v w. if v = w then 0 else 1) (\<lambda>x. x) rev sample_semantic sample_encoded = Inr out"
    using SearchSemantic_ok[OF sample_encoded_inv exact_sound[OF exact_scan_rev]] by blast
  show ?thesis
    using SearchSemantic_correct[OF sample_encoded_inv exact_sound[OF exact_scan_rev] ok] ok by fastforce
qed

theorem SearchLexical_replay_witness:
  "SearchLexical ValidString (=) (\<lambda>_ _. 1) rev sample_lexical
      (sample_log\<lparr>episodes := episodes sample_log @ [sample_row\<lparr>er_id := 9, er_seq := 2, er_ingested_at := 60\<rparr>]\<rparr>) =
   SearchLexical ValidString (=) (\<lambda>_ _. 1) (\<lambda>rs. rs) sample_lexical sample_log"
proof (rule SearchLexical_replay[OF sample_log_inv exact_scan_rev exact_scan_id,
      where new = "[sample_row\<lparr>er_id := 9, er_seq := 2, er_ingested_at := 60\<rparr>]"])
  have "length (lexical_rows (=) sample_lexical sample_log) \<le> 1"
    unfolding lexical_rows_def by (rule order_trans[OF length_filter_le]) (simp add: sample_log_def)
  then show "int (length (lexical_rows (=) sample_lexical sample_log)) \<le> candidateLimit (cq_Limit sample_lexical)"
    using candidateLimit_pos[of "cq_Limit sample_lexical"] by linarith
qed (simp_all add: sample_lexical_def sample_channel_def ChannelQuery.defs)

end
