(* ===== verification/Erasure.thy ===== *)
theory Erasure
  imports Search
begin

section \<open>Erasure\<close>

text \<open>
  \<^verbatim>\<open>postgres/forget.go\<close> with the trigger of \<^verbatim>\<open>migrations/0004_erasure.sql\<close> and the foreign keys: one
  transaction that removes every projection before the episodes it came from, and the scope row last
  when the whole scope goes. A step that would leave a dangling reference fails, and the theorems show
  that in the order of \<^verbatim>\<open>erasureSteps\<close> none does.
\<close>

subsection \<open>Deleting from one table\<close>

definition erase_rows :: "(db \<Rightarrow> 'r list) \<Rightarrow> ('r list \<Rightarrow> db \<Rightarrow> db) \<Rightarrow> ('r \<Rightarrow> bool) \<Rightarrow> db \<Rightarrow> nat result" where
  "erase_rows get put p d = Inr (length (filter p (get d)), put (delete_where p (get d)) d)"

text \<open>
  A table of the database as an interface: reading back what was written, and writing twice. The
  laws are what one deletion promises whatever the table is.
\<close>

locale table =
  fixes get :: "db \<Rightarrow> 'r list" and put :: "'r list \<Rightarrow> db \<Rightarrow> db"
  assumes get_put: "get (put rs d) = rs"
    and put_get: "put (get d) d = d"
    and put_put: "put rs (put rs' d) = put rs d"
begin

lemma erase_gone: "erase_rows get put p d = Inr (n, d') \<Longrightarrow> r \<in> set (get d') \<longleftrightarrow> r \<in> set (get d) \<and> \<not> p r"
  by (auto simp: erase_rows_def get_put)

lemma erase_count: "erase_rows get put p d = Inr (n, d') \<Longrightarrow> n + length (get d') = length (get d)"
  by (auto simp: erase_rows_def get_put length_delete_where)

lemma erase_again:
  assumes "erase_rows get put p d = Inr (n, d')"
  shows "erase_rows get put p d' = Inr (0, d')"
proof -
  have d': "d' = put (delete_where p (get d)) d" using assms by (simp add: erase_rows_def)
  have "filter p (get d') = []" by (simp add: d' get_put delete_where_def filter_empty_conv)
  moreover have "delete_where p (get d') = get d'" by (simp add: d' get_put delete_where_def)
  ultimately show ?thesis by (simp add: erase_rows_def put_get)
qed

end

interpretation facts_table: table facts "\<lambda>rs d. d\<lparr>facts := rs\<rparr>" by unfold_locales simp_all
interpretation extractions_table: table extractions "\<lambda>rs d. d\<lparr>extractions := rs\<rparr>" by unfold_locales simp_all
interpretation encodings_table: table encodings "\<lambda>rs d. d\<lparr>encodings := rs\<rparr>" by unfold_locales simp_all
interpretation jobs_table: table jobs "\<lambda>rs d. d\<lparr>jobs := rs\<rparr>" by unfold_locales simp_all
interpretation episodes_table: table episodes "\<lambda>rs d. d\<lparr>episodes := rs\<rparr>" by unfold_locales simp_all
interpretation scopes_table: table scopes "\<lambda>rs d. d\<lparr>scopes := rs\<rparr>" by unfold_locales simp_all

subsection \<open>The steps\<close>

definition pg_raise_exception :: string where "pg_raise_exception = ''P0001''"

text \<open>The append-only trigger on a \<^verbatim>\<open>DELETE\<close>: it raises unless the transaction declared an erasure.\<close>

definition reject_l0_mutation :: "bool \<Rightarrow> err option" where
  "reject_l0_mutation erasing = reject_if (\<not> erasing) (PgErr pg_raise_exception)"

definition delete_episodes :: "bool \<Rightarrow> (episode_row \<Rightarrow> bool) \<Rightarrow> db \<Rightarrow> nat result" where
  "delete_episodes erasing p d =
     (case reject_l0_mutation erasing of Some e \<Rightarrow> Inl e
      | None \<Rightarrow>
          if \<exists>e \<in> set (episodes d). p e \<and> (er_id e \<in> nr_episode ` set (encodings d) \<or> er_id e \<in> xw_episode ` set (extractions d))
          then Inl (PgErr pgerrcodeForeignKeyViolat)
          else erase_rows episodes (\<lambda>rs d. d\<lparr>episodes := rs\<rparr>) p d)"

definition delete_scope :: "ScopeID \<Rightarrow> db \<Rightarrow> nat result" where
  "delete_scope scope d =
     (if scope \<in> sc_id ` set (scopes d) \<and>
         scope \<in> set (map er_scope (episodes d) @ map nr_scope (encodings d) @ map fw_scope (facts d)
                      @ map xw_scope (extractions d) @ map jr_scope (jobs d))
      then Inl (PgErr pgerrcodeForeignKeyViolat)
      else erase_rows scopes (\<lambda>rs d. d\<lparr>scopes := rs\<rparr>) (\<lambda>r. sc_id r = scope) d)"

record erasureStep =
  es_what :: string
  es_count :: "nat \<Rightarrow> ForgetResult \<Rightarrow> ForgetResult"
  es_whole :: "bool \<Rightarrow> ScopeID \<Rightarrow> db \<Rightarrow> nat result"
  es_some :: "bool \<Rightarrow> ScopeID \<Rightarrow> EpisodeID list \<Rightarrow> db \<Rightarrow> nat result"

definition erasureSteps :: "erasureStep list" where
  "erasureSteps =
     [\<lparr>es_what = ''facts'', es_count = (\<lambda>n r. r\<lparr>fs_Facts := n\<rparr>),
       es_whole = (\<lambda>_ scope. erase_rows facts (\<lambda>rs d. d\<lparr>facts := rs\<rparr>) (\<lambda>f. fw_scope f = scope)),
       es_some = (\<lambda>_ scope ids. erase_rows facts (\<lambda>rs d. d\<lparr>facts := rs\<rparr>)
                    (\<lambda>f. fw_scope f = scope \<and> set (fw_episodes f) \<inter> set ids \<noteq> {}))\<rparr>,
      \<lparr>es_what = ''extraction markers'', es_count = (\<lambda>n r. r\<lparr>fs_Extractions := n\<rparr>),
       es_whole = (\<lambda>_ scope. erase_rows extractions (\<lambda>rs d. d\<lparr>extractions := rs\<rparr>) (\<lambda>x. xw_scope x = scope)),
       es_some = (\<lambda>_ scope ids. erase_rows extractions (\<lambda>rs d. d\<lparr>extractions := rs\<rparr>)
                    (\<lambda>x. xw_scope x = scope \<and> xw_episode x \<in> set ids))\<rparr>,
      \<lparr>es_what = ''encodings'', es_count = (\<lambda>n r. r\<lparr>fs_Encodings := n\<rparr>),
       es_whole = (\<lambda>_ scope. erase_rows encodings (\<lambda>rs d. d\<lparr>encodings := rs\<rparr>) (\<lambda>x. nr_scope x = scope)),
       es_some = (\<lambda>_ scope ids. erase_rows encodings (\<lambda>rs d. d\<lparr>encodings := rs\<rparr>)
                    (\<lambda>x. nr_scope x = scope \<and> nr_episode x \<in> set ids))\<rparr>,
      \<lparr>es_what = ''jobs'', es_count = (\<lambda>n r. r\<lparr>fs_Jobs := n\<rparr>),
       es_whole = (\<lambda>_ scope. erase_rows jobs (\<lambda>rs d. d\<lparr>jobs := rs\<rparr>) (\<lambda>j. jr_scope j = scope)),
       es_some = (\<lambda>_ scope ids. erase_rows jobs (\<lambda>rs d. d\<lparr>jobs := rs\<rparr>)
                    (\<lambda>j. jr_scope j = scope \<and> set (jr_episodes j) \<inter> set ids \<noteq> {}))\<rparr>,
      \<lparr>es_what = ''episodes'', es_count = (\<lambda>n r. r\<lparr>fs_Episodes := n\<rparr>),
       es_whole = (\<lambda>erasing scope. delete_episodes erasing (\<lambda>e. er_scope e = scope)),
       es_some = (\<lambda>erasing scope ids. delete_episodes erasing (\<lambda>e. er_scope e = scope \<and> er_id e \<in> set ids))\<rparr>]"

definition wrapForgetError :: "err \<Rightarrow> err" where
  "wrapForgetError e = (if notReady e then ErrSchemaNotReady else e)"

fun run_steps ::
  "bool \<Rightarrow> bool \<Rightarrow> ScopeID \<Rightarrow> EpisodeID list \<Rightarrow> erasureStep list \<Rightarrow> ForgetResult \<Rightarrow> db \<Rightarrow> ForgetResult result" where
  "run_steps erasing wholeScope scope ids [] out d = Inr (out, d)"
| "run_steps erasing wholeScope scope ids (step # steps) out d =
     (case stmt d (if wholeScope then es_whole step erasing scope d else es_some step erasing scope ids d) of
        Inl e \<Rightarrow> Inl (wrapForgetError e)
      | Inr (n, d') \<Rightarrow> run_steps erasing wholeScope scope ids steps (es_count step n out) d')"

definition Forget :: "ForgetRequest \<Rightarrow> db \<Rightarrow> ForgetResult result" where
  "Forget req d =
     (case ForgetRequest_Validate req of Some e \<Rightarrow> Inl e
      | None \<Rightarrow>
          let erasing = True; wholeScope = (length (fr_Episodes req) = 0); scope = fr_Scope req;
              out = \<lparr>fs_Scope = scope, fs_Episodes = 0, fs_Encodings = 0, fs_Facts = 0, fs_Extractions = 0,
                     fs_Jobs = 0, fs_ScopeRemoved = False\<rparr>
          in case run_steps erasing wholeScope scope (fr_Episodes req) erasureSteps out d of
               Inl e \<Rightarrow> Inl e
             | Inr (out, d1) \<Rightarrow>
                 if wholeScope
                 then case stmt d1 (delete_scope scope d1) of
                        Inl e \<Rightarrow> Inl (wrapForgetError e)
                      | Inr (n, d2) \<Rightarrow> Inr (out\<lparr>fs_ScopeRemoved := 0 < n\<rparr>, d2)
                 else Inr (out, d1))"

subsection \<open>What an erasure covers\<close>

text \<open>The rows a request covers, in each table.\<close>

definition covers_episode :: "ForgetRequest \<Rightarrow> episode_row \<Rightarrow> bool" where
  "covers_episode req e \<longleftrightarrow> er_scope e = fr_Scope req \<and> (fr_Episodes req = [] \<or> er_id e \<in> set (fr_Episodes req))"

definition covers_encoding :: "ForgetRequest \<Rightarrow> encoding_row \<Rightarrow> bool" where
  "covers_encoding req x \<longleftrightarrow> nr_scope x = fr_Scope req \<and> (fr_Episodes req = [] \<or> nr_episode x \<in> set (fr_Episodes req))"

definition covers_extraction :: "ForgetRequest \<Rightarrow> extraction_row \<Rightarrow> bool" where
  "covers_extraction req x \<longleftrightarrow> xw_scope x = fr_Scope req \<and> (fr_Episodes req = [] \<or> xw_episode x \<in> set (fr_Episodes req))"

definition covers_fact :: "ForgetRequest \<Rightarrow> fact_row \<Rightarrow> bool" where
  "covers_fact req f \<longleftrightarrow> fw_scope f = fr_Scope req \<and> (fr_Episodes req = [] \<or> set (fw_episodes f) \<inter> set (fr_Episodes req) \<noteq> {})"

definition covers_job :: "ForgetRequest \<Rightarrow> job_row \<Rightarrow> bool" where
  "covers_job req j \<longleftrightarrow> jr_scope j = fr_Scope req \<and> (fr_Episodes req = [] \<or> set (jr_episodes j) \<inter> set (fr_Episodes req) \<noteq> {})"

definition covers_scope :: "ForgetRequest \<Rightarrow> scope_row \<Rightarrow> bool" where
  "covers_scope req r \<longleftrightarrow> fr_Episodes req = [] \<and> sc_id r = fr_Scope req"

lemmas covers_defs = covers_episode_def covers_encoding_def covers_extraction_def covers_fact_def covers_job_def covers_scope_def

definition erased :: "ForgetRequest \<Rightarrow> db \<Rightarrow> db" where
  "erased req d = d\<lparr>scopes := delete_where (covers_scope req) (scopes d),
     episodes := delete_where (covers_episode req) (episodes d),
     encodings := delete_where (covers_encoding req) (encodings d),
     facts := delete_where (covers_fact req) (facts d),
     extractions := delete_where (covers_extraction req) (extractions d),
     jobs := delete_where (covers_job req) (jobs d)\<rparr>"

definition erasure_tally :: "ForgetRequest \<Rightarrow> db \<Rightarrow> ForgetResult" where
  "erasure_tally req d =
     \<lparr>fs_Scope = fr_Scope req, fs_Episodes = length (filter (covers_episode req) (episodes d)),
      fs_Encodings = length (filter (covers_encoding req) (encodings d)),
      fs_Facts = length (filter (covers_fact req) (facts d)),
      fs_Extractions = length (filter (covers_extraction req) (extractions d)),
      fs_Jobs = length (filter (covers_job req) (jobs d)),
      fs_ScopeRemoved = (\<exists>r \<in> set (scopes d). covers_scope req r)\<rparr>"

text \<open>A row that points at an erased episode is itself covered, so no step leaves a dangling reference.\<close>

lemma episode_unique:
  assumes "db_inv d" "e \<in> set (episodes d)" "e' \<in> set (episodes d)" "er_id e = er_id e'"
  shows "e = e'"
  using assms by (auto simp: db_inv_def episodes_ok_def distinct_map dest: inj_onD)

lemma covered_encoding:
  assumes inv: "db_inv d" and e: "e \<in> set (episodes d)" and x: "x \<in> set (encodings d)" "nr_episode x = er_id e"
  shows "covers_encoding req x \<longleftrightarrow> covers_episode req e"
proof -
  obtain e' where "e' \<in> set (episodes d)" "er_id e' = nr_episode x" "er_scope e' = nr_scope x"
    using inv x(1) by (auto simp: db_inv_def encodings_ok_def)
  then have "nr_scope x = er_scope e" using episode_unique[OF inv e] x(2) by metis
  with x(2) show ?thesis by (simp add: covers_defs)
qed

lemma covered_extraction:
  assumes inv: "db_inv d" and e: "e \<in> set (episodes d)" and x: "x \<in> set (extractions d)" "xw_episode x = er_id e"
  shows "covers_extraction req x \<longleftrightarrow> covers_episode req e"
proof -
  obtain e' where "e' \<in> set (episodes d)" "er_id e' = xw_episode x" "er_scope e' = xw_scope x"
    using inv x(1) by (auto simp: db_inv_def extractions_ok_def)
  then have "xw_scope x = er_scope e" using episode_unique[OF inv e] x(2) by metis
  with x(2) show ?thesis by (simp add: covers_defs)
qed

text \<open>The predicates of the two statements of each step are the ones above.\<close>

lemma covers_whole:
  assumes "fr_Episodes req = []"
  shows "covers_fact req = (\<lambda>f. fw_scope f = fr_Scope req)" "covers_extraction req = (\<lambda>x. xw_scope x = fr_Scope req)"
    "covers_encoding req = (\<lambda>x. nr_scope x = fr_Scope req)" "covers_job req = (\<lambda>j. jr_scope j = fr_Scope req)"
    "covers_episode req = (\<lambda>e. er_scope e = fr_Scope req)" "covers_scope req = (\<lambda>r. sc_id r = fr_Scope req)"
  using assms by (simp_all add: covers_defs fun_eq_iff)

lemma covers_some:
  assumes "fr_Episodes req \<noteq> []"
  shows "covers_fact req = (\<lambda>f. fw_scope f = fr_Scope req \<and> set (fw_episodes f) \<inter> set (fr_Episodes req) \<noteq> {})"
    "covers_extraction req = (\<lambda>x. xw_scope x = fr_Scope req \<and> xw_episode x \<in> set (fr_Episodes req))"
    "covers_encoding req = (\<lambda>x. nr_scope x = fr_Scope req \<and> nr_episode x \<in> set (fr_Episodes req))"
    "covers_job req = (\<lambda>j. jr_scope j = fr_Scope req \<and> set (jr_episodes j) \<inter> set (fr_Episodes req) \<noteq> {})"
    "covers_episode req = (\<lambda>e. er_scope e = fr_Scope req \<and> er_id e \<in> set (fr_Episodes req))"
    "covers_scope req = (\<lambda>r. False)"
  using assms by (simp_all add: covers_defs fun_eq_iff)

lemma delete_episodes_ok:
  assumes inv: "db_inv d"
    and d1: "d1 = d\<lparr>facts := fs, extractions := delete_where (covers_extraction req) (extractions d),
      encodings := delete_where (covers_encoding req) (encodings d), jobs := js\<rparr>"
  shows "delete_episodes True (covers_episode req) d1 =
    Inr (length (filter (covers_episode req) (episodes d)), d1\<lparr>episodes := delete_where (covers_episode req) (episodes d)\<rparr>)"
proof -
  have "er_id e \<notin> nr_episode ` set (encodings d1)" "er_id e \<notin> xw_episode ` set (extractions d1)"
    if "e \<in> set (episodes d)" "covers_episode req e" for e
    using that covered_encoding[OF inv] covered_extraction[OF inv] by (auto simp: d1)
  then show ?thesis by (auto simp: delete_episodes_def reject_l0_mutation_def erase_rows_def d1)
qed

lemma run_steps_ok:
  assumes inv: "db_inv d" and r: "db_ready d"
  shows "run_steps True (length (fr_Episodes req) = 0) (fr_Scope req) (fr_Episodes req) erasureSteps out d =
    Inr (out\<lparr>fs_Episodes := fs_Episodes (erasure_tally req d), fs_Encodings := fs_Encodings (erasure_tally req d),
        fs_Facts := fs_Facts (erasure_tally req d), fs_Extractions := fs_Extractions (erasure_tally req d),
        fs_Jobs := fs_Jobs (erasure_tally req d)\<rparr>, (erased req d)\<lparr>scopes := scopes d\<rparr>)"
proof -
  note D = delete_episodes_ok[OF inv refl, where req = req]
  show ?thesis
  proof (cases "fr_Episodes req = []")
    case True
    then show ?thesis using r D[unfolded covers_whole[OF True]]
      by (simp add: erasureSteps_def stmt_def erase_rows_def erased_def erasure_tally_def covers_whole)
  next
    case False
    then show ?thesis using r D[unfolded covers_some[OF False]]
      by (simp add: erasureSteps_def stmt_def erase_rows_def erased_def erasure_tally_def covers_some)
  qed
qed

lemma delete_scope_ok:
  assumes "fr_Episodes req = []"
  shows "delete_scope (fr_Scope req) ((erased req d)\<lparr>scopes := scopes d\<rparr>) =
    Inr (length (filter (covers_scope req) (scopes d)), erased req d)"
  using assms by (auto simp: delete_scope_def erased_def covers_whole erase_rows_def)

lemma Forget_eq:
  assumes inv: "db_inv d" and r: "db_ready d" and v: "ForgetRequest_Validate req = None"
  shows "Forget req d = Inr (erasure_tally req d, erased req d)"
proof (cases "fr_Episodes req = []")
  case True
  have "db_ready ((erased req d)\<lparr>scopes := scopes d\<rparr>)" using r by (simp add: erased_def)
  moreover have "0 < length (filter (covers_scope req) (scopes d)) \<longleftrightarrow> (\<exists>r \<in> set (scopes d). covers_scope req r)"
    by (simp add: filter_empty_conv)
  ultimately show ?thesis
    using v True run_steps_ok[OF inv r, of req] delete_scope_ok[OF True, of d]
    by (simp add: Forget_def stmt_def Let_def) (simp add: erasure_tally_def)
next
  case False
  then have "delete_where (covers_scope req) (scopes d) = scopes d" by (intro delete_where_none) (simp add: covers_defs)
  then have "(erased req d)\<lparr>scopes := scopes d\<rparr> = erased req d" by (simp add: erased_def)
  then show ?thesis
    using v False run_steps_ok[OF inv r, of req] by (simp add: Forget_def Let_def) (simp add: erasure_tally_def covers_defs)
qed

lemma erased_simps [simp]:
  "scopes (erased req d) = delete_where (covers_scope req) (scopes d)"
  "episodes (erased req d) = delete_where (covers_episode req) (episodes d)"
  "encodings (erased req d) = delete_where (covers_encoding req) (encodings d)"
  "facts (erased req d) = delete_where (covers_fact req) (facts d)"
  "extractions (erased req d) = delete_where (covers_extraction req) (extractions d)"
  "jobs (erased req d) = delete_where (covers_job req) (jobs d)"
  "db_ready (erased req d) = db_ready d" "db_dims (erased req d) = db_dims d"
  by (simp_all add: erased_def)

lemma scope_survives:
  assumes "s \<in> sc_id ` set (scopes d)" "fr_Episodes req = [] \<longrightarrow> s \<noteq> fr_Scope req"
  shows "s \<in> sc_id ` set (scopes (erased req d))"
  using assms by (auto simp: covers_defs)

lemma erased_inv:
  assumes inv: "db_inv d"
  shows "db_inv (erased req d)"
proof -
  note T = db_inv_tables[OF inv]
  have "scopes_ok (erased req d)" using T(1) by (auto simp: scopes_ok_def intro: distinct_map_delete_where)
  moreover have "episodes_ok (erased req d)"
  proof -
    have "\<exists>s \<in> set (scopes (erased req d)). sc_id s = er_scope r \<and> er_seq r \<le> sc_last_seq s"
      if r: "r \<in> set (episodes d)" "\<not> covers_episode req r" for r
    proof -
      obtain s where "s \<in> set (scopes d)" "sc_id s = er_scope r" "er_seq r \<le> sc_last_seq s"
        using T(2) r(1) unfolding episodes_ok_def by blast
      with r(2) show ?thesis by (intro bexI[of _ s]) (auto simp: covers_defs)
    qed
    then show ?thesis
      using T(2) unfolding episodes_ok_def by (simp add: distinct_map_delete_where)
  qed
  moreover have "encodings_ok (erased req d)"
    using T(3) covered_encoding[OF inv]
    by (auto simp: encodings_ok_def intro!: distinct_map_delete_where) metis
  moreover have "extractions_ok (erased req d)"
    using T(5) covered_extraction[OF inv]
    by (auto simp: extractions_ok_def intro!: distinct_map_delete_where) metis
  moreover have "facts_ok (erased req d)"
  proof -
    have "\<exists>e \<in> set (episodes (erased req d)). er_id e = i \<and> er_scope e = fw_scope f"
      if f: "f \<in> set (facts d)" "\<not> covers_fact req f" "i \<in> set (fw_episodes f)" for f i
    proof -
      obtain e where "e \<in> set (episodes d)" "er_id e = i" "er_scope e = fw_scope f"
        using T(4) f(1,3) unfolding facts_ok_def by blast
      with f show ?thesis by (auto simp: covers_defs intro!: bexI[of _ e])
    qed
    moreover have "fw_scope f \<in> sc_id ` set (scopes (erased req d))" if "f \<in> set (facts d)" "\<not> covers_fact req f" for f
      using T(4) that by (intro scope_survives) (auto simp: facts_ok_def covers_defs)
    ultimately show ?thesis
      using T(4) by (auto simp: facts_ok_def intro!: distinct_map_delete_where)
  qed
  moreover have "jobs_ok (erased req d)"
  proof -
    have "filter inflight (delete_where (covers_job req) (jobs d)) = delete_where (covers_job req) (filter inflight (jobs d))"
      by (simp add: delete_where_def conj_commute)
    moreover have "jr_scope j \<in> sc_id ` set (scopes (erased req d))" if "j \<in> set (jobs d)" "\<not> covers_job req j" for j
      using T(6) that by (intro scope_survives) (auto simp: jobs_ok_def covers_defs)
    ultimately show ?thesis
      using T(6) by (auto simp: jobs_ok_def intro!: distinct_map_delete_where)
  qed
  ultimately show ?thesis by (simp add: db_inv_def)
qed

lemma Forget_Inr:
  assumes "db_inv d" "Forget req d = Inr (res, d')"
  shows "res = erasure_tally req d" "d' = erased req d" "ForgetRequest_Validate req = None" "db_ready d"
proof -
  show v: "ForgetRequest_Validate req = None" using assms(2) by (auto simp: Forget_def split: option.splits)
  show r: "db_ready d"
    using assms(2) v by (auto simp: Forget_def erasureSteps_def Let_def stmt_def split: if_splits)
  show "res = erasure_tally req d" "d' = erased req d" using Forget_eq[OF assms(1) r v] assms(2) by simp_all
qed

lemma Forget_inv: "db_inv d \<Longrightarrow> Forget req d = Inr (res, d') \<Longrightarrow> db_inv d'"
  using Forget_Inr(2) erased_inv by blast


text \<open>
  C4. Erasure is total and complete. On a consistent store every valid request succeeds: no step
  meets the append-only trigger or a foreign key. Afterwards no table holds anything of what was
  asked to be erased: no episode in question, no encoding or extraction marker of one, no fact one of
  them is evidence for, no job that names one, and for a whole scope no row of the scope at all.
  Reading an erased episode answers \<open>ErrNotFound\<close>, the counts reported are the rows removed, and the store is
  consistent again.
\<close>

theorem Forget_complete:
  assumes inv: "db_inv d" and r: "db_ready d" and v: "ForgetRequest_Validate req = None"
  shows "\<exists>res d'. Forget req d = Inr (res, d') \<and> db_inv d'
    \<and> (\<forall>e \<in> set (episodes d). covers_episode req e \<longrightarrow>
         Episode (er_scope e) (er_id e) d' = Inl ErrNotFound \<and> er_id e \<notin> er_id ` set (episodes d')
         \<and> er_id e \<notin> nr_episode ` set (encodings d') \<and> er_id e \<notin> xw_episode ` set (extractions d')
         \<and> (\<forall>f \<in> set (facts d'). er_id e \<notin> set (fw_episodes f))
         \<and> (\<forall>j \<in> set (jobs d'). jr_scope j = er_scope e \<longrightarrow> er_id e \<notin> set (jr_episodes j)))
    \<and> (fr_Episodes req = [] \<longrightarrow> fr_Scope req \<notin> set (map sc_id (scopes d') @ map er_scope (episodes d')
         @ map nr_scope (encodings d') @ map fw_scope (facts d') @ map xw_scope (extractions d') @ map jr_scope (jobs d')))
    \<and> fs_Episodes res + length (episodes d') = length (episodes d)
    \<and> fs_Encodings res + length (encodings d') = length (encodings d)
    \<and> fs_Facts res + length (facts d') = length (facts d)
    \<and> fs_Extractions res + length (extractions d') = length (extractions d)
    \<and> fs_Jobs res + length (jobs d') = length (jobs d)"
proof (intro exI conjI)
  let ?d = "erased req d"
  show "Forget req d = Inr (erasure_tally req d, ?d)" by (rule Forget_eq[OF inv r v])
  show inv': "db_inv ?d" by (rule erased_inv[OF inv])
  show "fr_Episodes req = [] \<longrightarrow> fr_Scope req \<notin> set (map sc_id (scopes ?d) @ map er_scope (episodes ?d)
      @ map nr_scope (encodings ?d) @ map fw_scope (facts ?d) @ map xw_scope (extractions ?d) @ map jr_scope (jobs ?d))"
    by (auto simp: covers_defs)
  show "\<forall>e \<in> set (episodes d). covers_episode req e \<longrightarrow>
      Episode (er_scope e) (er_id e) ?d = Inl ErrNotFound \<and> er_id e \<notin> er_id ` set (episodes ?d)
      \<and> er_id e \<notin> nr_episode ` set (encodings ?d) \<and> er_id e \<notin> xw_episode ` set (extractions ?d)
      \<and> (\<forall>f \<in> set (facts ?d). er_id e \<notin> set (fw_episodes f))
      \<and> (\<forall>j \<in> set (jobs ?d). jr_scope j = er_scope e \<longrightarrow> er_id e \<notin> set (jr_episodes j))"
  proof (intro ballI impI)
    fix e
    assume e: "e \<in> set (episodes d)" "covers_episode req e"
    have gone: "er_id e \<notin> er_id ` set (episodes ?d)" using e episode_unique[OF inv e(1)] by auto
    then have gone_find: "find (\<lambda>x. er_scope x = er_scope e \<and> er_id x = er_id e) (episodes ?d) = None"
      unfolding find_None_iff by (metis image_eqI)
    have "er_scope e = fr_Scope req" "ScopeID_Validate (fr_Scope req) = None"
      using e v by (auto simp: covers_defs ForgetRequest_Validate_def)
    then have ep: "Episode (er_scope e) (er_id e) ?d = Inl ErrNotFound"
      using gone_find r by (simp add: Episode_def)
    have enc: "er_id e \<notin> nr_episode ` set (encodings ?d)" and ext: "er_id e \<notin> xw_episode ` set (extractions ?d)"
      using covered_encoding[OF inv e(1)] covered_extraction[OF inv e(1)] e(2) by auto
    have "er_id e \<in> er_id ` set (episodes ?d)" if "f \<in> set (facts ?d)" "er_id e \<in> set (fw_episodes f)" for f
      using inv' that unfolding db_inv_def facts_ok_def by (metis image_eqI)
    then have fct: "\<forall>f \<in> set (facts ?d). er_id e \<notin> set (fw_episodes f)" using gone by blast
    have "\<forall>j \<in> set (jobs ?d). jr_scope j = er_scope e \<longrightarrow> er_id e \<notin> set (jr_episodes j)"
      using e(2) by (auto simp: covers_defs)
    with gone ep enc ext fct show "Episode (er_scope e) (er_id e) ?d = Inl ErrNotFound \<and> er_id e \<notin> er_id ` set (episodes ?d)
      \<and> er_id e \<notin> nr_episode ` set (encodings ?d) \<and> er_id e \<notin> xw_episode ` set (extractions ?d)
      \<and> (\<forall>f \<in> set (facts ?d). er_id e \<notin> set (fw_episodes f))
      \<and> (\<forall>j \<in> set (jobs ?d). jr_scope j = er_scope e \<longrightarrow> er_id e \<notin> set (jr_episodes j))" by blast
  qed
qed (simp_all add: erasure_tally_def length_delete_where)

text \<open>
  C28. Erasure never crosses a scope, and touches nothing it was not asked for: every row of every
  other scope is still there, in every table and in the same order, and when episodes are named, so is
  every episode of the scope that was not.
\<close>

theorem Forget_isolated:
  assumes inv: "db_inv d" and ok: "Forget req d = Inr (res, d')"
  shows "filter (\<lambda>r. sc_id r \<noteq> fr_Scope req) (scopes d') = filter (\<lambda>r. sc_id r \<noteq> fr_Scope req) (scopes d)
    \<and> filter (\<lambda>r. er_scope r \<noteq> fr_Scope req) (episodes d') = filter (\<lambda>r. er_scope r \<noteq> fr_Scope req) (episodes d)
    \<and> filter (\<lambda>r. nr_scope r \<noteq> fr_Scope req) (encodings d') = filter (\<lambda>r. nr_scope r \<noteq> fr_Scope req) (encodings d)
    \<and> filter (\<lambda>r. fw_scope r \<noteq> fr_Scope req) (facts d') = filter (\<lambda>r. fw_scope r \<noteq> fr_Scope req) (facts d)
    \<and> filter (\<lambda>r. xw_scope r \<noteq> fr_Scope req) (extractions d') = filter (\<lambda>r. xw_scope r \<noteq> fr_Scope req) (extractions d)
    \<and> filter (\<lambda>r. jr_scope r \<noteq> fr_Scope req) (jobs d') = filter (\<lambda>r. jr_scope r \<noteq> fr_Scope req) (jobs d)
    \<and> (fr_Episodes req \<noteq> [] \<longrightarrow> scopes d' = scopes d \<and>
         filter (\<lambda>r. er_id r \<notin> set (fr_Episodes req)) (episodes d') = filter (\<lambda>r. er_id r \<notin> set (fr_Episodes req)) (episodes d))"
proof -
  have keep: "filter q (delete_where p rs) = filter q rs" if "\<And>r. q r \<Longrightarrow> \<not> p r" for p q and rs :: "'r list"
    using that by (induction rs) (auto simp: delete_where_def)
  show ?thesis
    unfolding Forget_Inr(2)[OF inv ok] erased_simps
    by (intro conjI impI keep delete_where_none) (auto simp: covers_defs)
qed

text \<open>
  Erasure is idempotent: erasing again what is already gone removes nothing, reports zero
  everywhere and leaves the store as it is.
\<close>

theorem Forget_idempotent:
  assumes inv: "db_inv d" and ok: "Forget req d = Inr (res, d')"
  shows "Forget req d' = Inr (\<lparr>fs_Scope = fr_Scope req, fs_Episodes = 0, fs_Encodings = 0, fs_Facts = 0,
    fs_Extractions = 0, fs_Jobs = 0, fs_ScopeRemoved = False\<rparr>, d')"
proof -
  note F = Forget_Inr[OF inv ok]
  have "Forget req d' = Inr (erasure_tally req d', erased req d')"
    using F(3,4) by (intro Forget_eq) (simp_all add: F(2) erased_inv[OF inv])
  moreover have "erased req d' = d'" by (simp add: F(2) erased_def delete_where_def)
  moreover have "filter p (delete_where p rs) = []" for p and rs :: "'r list"
    by (simp add: delete_where_def filter_empty_conv)
  ultimately show ?thesis by (simp add: erasure_tally_def F(2) filter_empty_conv)
qed

lemma Append_seqs:
  assumes "Append text_ok mint_e mint_j cmd d = Inr (res, d')"
  shows "map ep_Seq (as_Episodes res) =
    map (\<lambda>k. scope_last_seq d (ne_Scope (hd (ac_Episodes cmd))) + int k + 1) [0..<length (ac_Episodes cmd)]"
proof -
  obtain rows js where
    A: "appendSQL text_ok mint_e mint_j (ne_Scope (hd (ac_Episodes cmd)))
       (int32_of (int (length (ac_Episodes cmd)))) (ne_IngestedAt (hd (ac_Episodes cmd)))
       (ac_Episodes cmd) (ac_Jobs cmd) d = Inr ((rows, js), d')"
    and out: "as_Episodes res = map2 appended_episode (ac_Episodes cmd) (sort_by (le_key er_seq) rows)"
    using Append_Inr(2)[OF assms] by blast
  show ?thesis unfolding out appendSQL_Inr(2)[OF A] sort_append_rows
    by (rule nth_equalityI) (simp_all add: append_rows_nth appended_episode_def new_episode_row_def)
qed

text \<open>
  Sequence numbers after an erasure. Naming episodes leaves the scope's counter where it was, so
  the next append continues above every number ever used, holes included; erasing the whole scope
  starts its log again at one.
\<close>

theorem Forget_then_Append_seq:
  assumes inv: "db_inv d" and ok: "Forget req d = Inr (res, d')"
    and app: "Append text_ok mint_e mint_j cmd d' = Inr (out, d'')" and sc: "ne_Scope (hd (ac_Episodes cmd)) = fr_Scope req"
  shows "map ep_Seq (as_Episodes out) =
    map (\<lambda>k. (if fr_Episodes req = [] then 0 else scope_last_seq d (fr_Scope req)) + int k + 1) [0..<length (ac_Episodes cmd)]"
proof -
  note F = Forget_Inr[OF inv ok]
  have base: "scope_last_seq d' (fr_Scope req) = (if fr_Episodes req = [] then 0 else scope_last_seq d (fr_Scope req))"
  proof (cases "fr_Episodes req = []")
    case True
    then have "find (\<lambda>r. sc_id r = fr_Scope req) (scopes d') = None" by (auto simp: F(2) find_None_iff covers_defs)
    then show ?thesis using True by (simp add: scope_last_seq_def)
  next
    case False
    then have "scopes d' = scopes d" by (simp add: F(2) delete_where_none covers_defs)
    then show ?thesis using False by (simp add: scope_last_seq_def)
  qed
  show ?thesis using Append_seqs[OF app] by (simp add: sc base)
qed


text \<open>A concrete erasure: the log with its fact, the whole scope and by episode.\<close>

definition sample_forget :: "EpisodeID list \<Rightarrow> ForgetRequest" where
  "sample_forget ids = \<lparr>fr_Scope = ''user:1'', fr_Episodes = ids\<rparr>"

lemma sample_forget_valid: "ForgetRequest_Validate (sample_forget []) = None" "ForgetRequest_Validate (sample_forget [1]) = None"
  by (simp_all add: ForgetRequest_Validate_def sample_forget_def ScopeID_Validate_def limit_defs id_IsZero_def ascii_simps)

lemma sample_facts_inv: "db_inv sample_facts" and sample_facts_ready: "db_ready sample_facts"
  by (rule ApplyExtraction_inv[OF sample_log_inv sample_extract_run])
     (simp add: sample_facts_def sample_log_def empty_db_def)

lemma sample_forget_run:
  "ForgetRequest_Validate req = None \<Longrightarrow> Forget req sample_facts = Inr (erasure_tally req sample_facts, erased req sample_facts)"
  by (rule Forget_eq[OF sample_facts_inv sample_facts_ready])

theorem Forget_complete_witness:
  "\<exists>res d'. Forget (sample_forget [1]) sample_facts = Inr (res, d') \<and> db_inv d'
    \<and> fs_Episodes res + length (episodes d') = 1 \<and> fs_Facts res + length (facts d') = 1
    \<and> Episode ''user:1'' 1 d' = Inl ErrNotFound"
proof -
  have "sample_row \<in> set (episodes sample_facts)" "covers_episode (sample_forget [1]) sample_row"
    "er_scope sample_row = ''user:1''" "er_id sample_row = 1" "length (episodes sample_facts) = 1" "length (facts sample_facts) = 1"
    by (simp_all add: sample_facts_def sample_log_def sample_row_def covers_defs sample_forget_def)
  then show ?thesis
    using Forget_complete[OF sample_facts_inv sample_facts_ready sample_forget_valid(2)] by metis
qed

theorem Forget_isolated_witness:
  "\<exists>res d'. Forget (sample_forget [1]) sample_facts = Inr (res, d') \<and> scopes d' = scopes sample_facts"
  using Forget_isolated[OF sample_facts_inv sample_forget_run[OF sample_forget_valid(2)]]
    sample_forget_run[OF sample_forget_valid(2)]
  by (simp add: sample_forget_def)

theorem Forget_idempotent_witness:
  "Forget (sample_forget []) (erased (sample_forget []) sample_facts) =
    Inr (\<lparr>fs_Scope = ''user:1'', fs_Episodes = 0, fs_Encodings = 0, fs_Facts = 0, fs_Extractions = 0, fs_Jobs = 0,
      fs_ScopeRemoved = False\<rparr>, erased (sample_forget []) sample_facts)"
  using Forget_idempotent[OF sample_facts_inv sample_forget_run[OF sample_forget_valid(1)]] by (simp add: sample_forget_def)


theorem Forget_then_Append_seq_witness:
  "\<exists>out d''. Append ValidString (\<lambda>k. of_nat k + 5) (\<lambda>k. of_nat k + 9) sample_command (erased (sample_forget [1]) sample_facts) = Inr (out, d'')
    \<and> map ep_Seq (as_Episodes out) = [2, 3]"
proof -
  let ?d = "erased (sample_forget [1]) sample_facts"
  have "append_admissible ValidString (\<lambda>k. of_nat k + 5) (\<lambda>k. of_nat k + 9) sample_command ?d"
    by (simp add: sample_command_def sample_episode_def append_admissible_def Let_def erased_def sample_forget_def covers_defs
        sample_facts_def sample_log_def sample_row_def empty_db_def delete_where_def scope_last_seq_def episode_texts_def
        fresh_ids_def ascii_simps)
  from Append_ok[OF sample_valid erased_inv[OF sample_facts_inv] this]
  obtain out d'' where run: "Append ValidString (\<lambda>k. of_nat k + 5) (\<lambda>k. of_nat k + 9) sample_command ?d = Inr (out, d'')" by blast
  moreover have "scope_last_seq sample_facts ''user:1'' = 1" by (simp add: scope_last_seq_def sample_facts_def sample_log_def)
  ultimately show ?thesis
    using Forget_then_Append_seq[OF sample_facts_inv sample_forget_run[OF sample_forget_valid(2)] run]
    by (simp add: sample_forget_def sample_command_def sample_episode_def)
qed

end
