(* ===== verification/Tokens.thy ===== *)
theory Tokens
  imports Types
begin

section \<open>Token accounting\<close>

text \<open>
  \<^verbatim>\<open>tokens.go\<close>: the interface \<open>TokenCounter\<close> as a locale, and \<open>ApproxTokenCounter\<close>, the default
  counter, with Go's 64-bit arithmetic written out: \<open>len(text) + per - 1\<close> wraps, and the division
  truncates towards zero.
\<close>

definition DefaultBytesPerToken :: int where "DefaultBytesPerToken = 4"

record ApproxTokenCounter =
  BytesPerToken :: int

definition go_div :: "int \<Rightarrow> int \<Rightarrow> int" where
  "go_div a b = sgn a * sgn b * (\<bar>a\<bar> div \<bar>b\<bar>)"

definition effective_per :: "ApproxTokenCounter \<Rightarrow> int" where
  "effective_per c = (if BytesPerToken c \<le> 0 then DefaultBytesPerToken else BytesPerToken c)"

definition CountTokens :: "ApproxTokenCounter \<Rightarrow> string \<Rightarrow> int" where
  "CountTokens c text =
     (if text = '''' then 0
      else let per = effective_per c
           in go_div (int64_of (int64_of (int (length text) + per) - 1)) per)"

lemma effective_per_pos: "0 < effective_per c"
  by (simp add: effective_per_def DefaultBytesPerToken_def)

lemma go_div_pos: "0 \<le> a \<Longrightarrow> 0 < b \<Longrightarrow> go_div a b = a div b"
  by (cases "a = 0") (simp_all add: go_div_def)

lemma CountTokens_no_overflow:
  assumes "text \<noteq> ''''" "int (length text) + effective_per c < 2 ^ 63"
  shows "CountTokens c text = (int (length text) + effective_per c - 1) div effective_per c"
proof -
  have "0 < int (length text)" using assms(1) by simp
  with assms(2) effective_per_pos[of c] show ?thesis
    by (simp add: CountTokens_def assms(1) Let_def go_div_pos)
qed

lemma ceiling_div_bounds:
  fixes n d :: int
  assumes "0 < d"
  shows "n \<le> (n + d - 1) div d * d" "(n + d - 1) div d * d < n + d"
  using assms pos_mod_bound[of d "n + d - 1"] div_mult_mod_eq[of "n + d - 1" d]
    pos_mod_sign[of d "n + d - 1"] by linarith+

subsection \<open>The counter's contract\<close>

text \<open>
  What recall relies on: a count is never negative. \<open>sum_tokens\<close> is the total of a list, and a
  prefix never costs more than the whole.
\<close>

locale token_counter =
  fixes count :: "string \<Rightarrow> int" and admissible :: "string \<Rightarrow> bool"
  assumes count_nonneg: "admissible s \<Longrightarrow> 0 \<le> count s"
begin

lemma sum_nonneg: "\<forall>s \<in> set ss. admissible s \<Longrightarrow> 0 \<le> sum_list (map count ss)"
  by (induction ss) (simp_all add: count_nonneg)

lemma sum_prefix_le:
  "\<forall>s \<in> set ss. admissible s \<Longrightarrow> sum_list (map count (take n ss)) \<le> sum_list (map count ss)"
proof -
  assume "\<forall>s \<in> set ss. admissible s"
  then have "0 \<le> sum_list (map count (drop n ss))" by (intro sum_nonneg) (auto dest: in_set_dropD)
  then show ?thesis
    by (metis append_take_drop_id le_add_same_cancel1 map_append sum_list_append)
qed

end

text \<open>
  The default counter meets the contract on every text a process can hold beside its divisor
  without the sum wrapping; every stored text is far below that.
\<close>

lemma CountTokens_nonneg:
  assumes "int (length s) + effective_per c < 2 ^ 63"
  shows "0 \<le> CountTokens c s"
proof (cases "s = ''''")
  case False
  have "0 \<le> (int (length s) + effective_per c - 1) div effective_per c"
    using effective_per_pos[of c] by (intro div_int_pos_iff[THEN iffD2]) auto
  then show ?thesis using False assms by (simp add: CountTokens_no_overflow)
qed (simp add: CountTokens_def)

interpretation approx: token_counter "CountTokens c" "\<lambda>s. int (length s) + effective_per c < 2 ^ 63"
  by unfold_locales (rule CountTokens_nonneg)

text \<open>
  Where the sum does not overflow, \<^verbatim>\<open>ApproxTokenCounter.CountTokens\<close> is the number of tokens of
  \<open>BytesPerToken\<close> bytes needed to cover the text, rounded up: that many tokens cover it, one fewer
  does not, and a non-empty text costs at least one.
\<close>

theorem CountTokens_ceiling:
  assumes "text \<noteq> ''''" "int (length text) + effective_per c < 2 ^ 63"
  shows "int (length text) \<le> CountTokens c text * effective_per c
    \<and> (CountTokens c text - 1) * effective_per c < int (length text)
    \<and> 1 \<le> CountTokens c text"
proof -
  let ?n = "int (length text)" and ?d = "effective_per c"
  have "0 < ?n" using assms(1) by simp
  then have "1 * ?d \<le> ?n + ?d - 1" by simp
  then have "1 \<le> (?n + ?d - 1) div ?d" using effective_per_pos[of c] by (simp add: pos_imp_zdiv_pos_iff int_one_le_iff_zero_less)
  then show ?thesis
    using ceiling_div_bounds[OF effective_per_pos[of c], of ?n]
    by (simp add: CountTokens_no_overflow[OF assms] left_diff_distrib)
qed

theorem CountTokens_ceiling_witness:
  "int (length ''hello'') \<le> CountTokens \<lparr>BytesPerToken = 0\<rparr> ''hello'' * effective_per \<lparr>BytesPerToken = 0\<rparr>
    \<and> (CountTokens \<lparr>BytesPerToken = 0\<rparr> ''hello'' - 1) * effective_per \<lparr>BytesPerToken = 0\<rparr> < int (length ''hello'')
    \<and> 1 \<le> CountTokens \<lparr>BytesPerToken = 0\<rparr> ''hello''"
  by (rule CountTokens_ceiling) (simp_all add: effective_per_def DefaultBytesPerToken_def)

text \<open>
  The comment's "non-empty text always costs at least one token" fails for a divisor close to the
  largest int: the sum wraps and the quotient is zero or negative.
\<close>

lemma CountTokens_overflow: "CountTokens \<lparr>BytesPerToken = 2 ^ 63 - 1\<rparr> ''ab'' = - 1"
  by (simp add: CountTokens_def effective_per_def go_div_def int64_of_def)

end
