(* ===== verification/Fusion.thy ===== *)
theory Fusion
  imports Types
begin

section \<open>Reciprocal rank fusion\<close>

text \<open>
  \<^verbatim>\<open>fusion.go\<close>. A finite \<^verbatim>\<open>float64\<close> is a rational and every arithmetic operation on it is followed
  by \<open>rnd\<close>, the rounding of the floating-point unit, a parameter of the definitions; the theorems
  hold for every rounding. Infinities and NaN are outside the model of \<^verbatim>\<open>K\<close> and the weights.
  The map \<open>byID\<close> is a map from ids, \<open>order\<close> the ids in the order they were first seen.
\<close>

definition DefaultFusionK :: float64 where "DefaultFusionK = 60"
definition DefaultLexicalWeight :: float64 where "DefaultLexicalWeight = 1 / 4"

record FusionOptions =
  fo_K :: float64
  fo_Weights :: "(Channel \<times> float64) list"

definition weight_check :: "Channel \<times> float64 \<Rightarrow> err option" where
  "weight_check cw = (case cw of (ch, w) \<Rightarrow> first_err
     [reject_if (\<not> Channel_Valid ch) ErrInvalidChannel, reject_if (w < 0) ErrInvalidConfig])"

definition resolve :: "FusionOptions \<Rightarrow> err + FusionOptions" where
  "resolve opts =
     (if fo_K opts < 0 then Inl ErrInvalidConfig
      else let K = (if fo_K opts = 0 then DefaultFusionK else fo_K opts) in
        case first_err (map weight_check (sort_by (le_key fst) (fo_Weights opts))) of
          Some e \<Rightarrow> Inl e
        | None \<Rightarrow>
            let ws = fo_Weights opts;
                ws' = (if ChannelLexical \<in> fst ` set ws then ws
                       else ws @ [(ChannelLexical, DefaultLexicalWeight)])
            in Inr \<lparr>fo_K = K, fo_Weights = ws'\<rparr>)"

definition weight :: "FusionOptions \<Rightarrow> Channel \<Rightarrow> float64" where
  "weight opts c = (case map_of (fo_Weights opts) c of Some w \<Rightarrow> w | None \<Rightarrow> 1)"

record channelResult =
  ch_channel :: Channel
  ch_candidates :: "Candidate list"
  ch_facts :: "Fact list"
  ch_elapsed :: int
  ch_err :: "err option"

record entry =
  e_episode :: Episode
  e_score :: float64
  e_hits :: "ChannelHit list"

abbreviation cand_id :: "Candidate \<Rightarrow> EpisodeID" where
  "cand_id c \<equiv> ep_ID (cd_Episode c)"

text \<open>The body of the inner loop once the repeat test has passed.\<close>

definition bump ::
  "(rat \<Rightarrow> rat) \<Rightarrow> FusionOptions \<Rightarrow> Channel \<Rightarrow> Candidate \<Rightarrow> entry option \<Rightarrow> entry" where
  "bump rnd opts ch cand old =
     (let acc = (case old of Some e \<Rightarrow> e
                 | None \<Rightarrow> \<lparr>e_episode = cd_Episode cand, e_score = 0, e_hits = []\<rparr>)
      in acc \<lparr>e_score := rnd (e_score acc + rnd (weight opts ch / rnd (fo_K opts + of_int (cd_Rank cand)))),
              e_hits := e_hits acc @ [\<lparr>h_Channel = ch, h_Rank = cd_Rank cand, h_Score = cd_Score cand\<rparr>]\<rparr>)"

type_synonym fuse_state = "EpisodeID list \<times> (EpisodeID \<Rightarrow> entry option)"

fun fuse_candidates ::
  "(rat \<Rightarrow> rat) \<Rightarrow> FusionOptions \<Rightarrow> Channel \<Rightarrow> EpisodeID set \<Rightarrow> Candidate list \<Rightarrow> fuse_state \<Rightarrow> fuse_state" where
  "fuse_candidates rnd opts ch seen [] st = st"
| "fuse_candidates rnd opts ch seen (cand # cands) (order, byID) =
     (let id = cand_id cand in
      if id \<in> seen then fuse_candidates rnd opts ch seen cands (order, byID)
      else fuse_candidates rnd opts ch (insert id seen) cands
             (if byID id = None then order @ [id] else order,
              byID(id \<mapsto> bump rnd opts ch cand (byID id))))"

fun fuse_results :: "(rat \<Rightarrow> rat) \<Rightarrow> FusionOptions \<Rightarrow> channelResult list \<Rightarrow> fuse_state \<Rightarrow> fuse_state" where
  "fuse_results rnd opts [] st = st"
| "fuse_results rnd opts (res # rs) st =
     (if ch_err res \<noteq> None then fuse_results rnd opts rs st
      else fuse_results rnd opts rs
             (fuse_candidates rnd opts (ch_channel res) {} (ch_candidates res) st))"

definition to_recalled :: "entry \<Rightarrow> RecalledEpisode" where
  "to_recalled acc =
     \<lparr>re_Episode = e_episode acc, re_Score = e_score acc,
      re_Hits = sort_by (le_key h_Channel) (e_hits acc), re_Tokens = 0\<rparr>"

abbreviation re_id :: "RecalledEpisode \<Rightarrow> EpisodeID" where
  "re_id r \<equiv> ep_ID (re_Episode r)"

text \<open>The comparison of the final sort: score downwards, then the newer id first.\<close>

definition fused_le :: "RecalledEpisode \<Rightarrow> RecalledEpisode \<Rightarrow> bool" where
  "fused_le = then_by (ge_key re_Score) (ge_key re_id)"

definition fuse ::
  "(rat \<Rightarrow> rat) \<Rightarrow> channelResult list \<Rightarrow> FusionOptions \<Rightarrow> RecalledEpisode list" where
  "fuse rnd results opts =
     (let (order, byID) = fuse_results rnd opts results ([], \<lambda>_. None)
      in sort_by fused_le (map (\<lambda>id. to_recalled (the (byID id))) order))"

interpretation fused: total_preorder fused_le
  unfolding fused_le_def by (intro total_preorder_intros)

subsection \<open>What fusion computes\<close>

text \<open>
  The specification, one id at a time: the channels that answered and hold the id contribute their
  first candidate with that id, in the order of the channels.
\<close>

definition contribution :: "channelResult \<Rightarrow> EpisodeID \<Rightarrow> (Channel \<times> Candidate) list" where
  "contribution res i =
     (if ch_err res \<noteq> None then []
      else case find (\<lambda>c. cand_id c = i) (ch_candidates res) of
             None \<Rightarrow> [] | Some c \<Rightarrow> [(ch_channel res, c)])"

definition contributions :: "channelResult list \<Rightarrow> EpisodeID \<Rightarrow> (Channel \<times> Candidate) list" where
  "contributions results i = concat (map (\<lambda>res. contribution res i) results)"

definition rrf_score :: "(rat \<Rightarrow> rat) \<Rightarrow> FusionOptions \<Rightarrow> (Channel \<times> Candidate) list \<Rightarrow> float64" where
  "rrf_score rnd opts cs =
     foldl (\<lambda>s (ch, c). rnd (s + rnd (weight opts ch / rnd (fo_K opts + of_int (cd_Rank c))))) 0 cs"

definition hit_of :: "Channel \<times> Candidate \<Rightarrow> ChannelHit" where
  "hit_of cc = (case cc of (ch, c) \<Rightarrow> \<lparr>h_Channel = ch, h_Rank = cd_Rank c, h_Score = cd_Score c\<rparr>)"

definition bumps ::
  "(rat \<Rightarrow> rat) \<Rightarrow> FusionOptions \<Rightarrow> (Channel \<times> Candidate) list \<Rightarrow> entry option \<Rightarrow> entry option" where
  "bumps rnd opts cs old = foldl (\<lambda>e (ch, c). Some (bump rnd opts ch c e)) old cs"

lemma bumps_simps [simp]:
  "bumps rnd opts [] old = old"
  "bumps rnd opts ((ch, c) # cs) old = bumps rnd opts cs (Some (bump rnd opts ch c old))"
  "bumps rnd opts (xs @ ys) old = bumps rnd opts ys (bumps rnd opts xs old)"
  by (simp_all add: bumps_def)

lemma bumps_None_iff: "bumps rnd opts cs old = None \<longleftrightarrow> cs = [] \<and> old = None"
proof (induction cs arbitrary: old)
  case (Cons cc cs)
  then show ?case by (cases cc) (simp del: not_None_eq)
qed simp

lemma bumps_Some:
  "bumps rnd opts cs (Some e) = Some
     \<lparr>e_episode = e_episode e,
      e_score = foldl (\<lambda>s (ch, c). rnd (s + rnd (weight opts ch / rnd (fo_K opts + of_int (cd_Rank c))))) (e_score e) cs,
      e_hits = e_hits e @ map hit_of cs\<rparr>"
  by (induction cs arbitrary: e) (auto simp: bump_def hit_of_def Let_def)

lemma bumps_start:
  "bumps rnd opts ((ch, c) # cs) None = Some
     \<lparr>e_episode = cd_Episode c, e_score = rrf_score rnd opts ((ch, c) # cs),
      e_hits = map hit_of ((ch, c) # cs)\<rparr>"
  by (simp add: bumps_Some bump_def rrf_score_def hit_of_def Let_def)

text \<open>The loops compute \<open>bumps\<close> of the contributions, and keep \<open>order\<close> a listing of the map's keys.\<close>

lemma fuse_candidates_byID:
  "snd (fuse_candidates rnd opts ch seen cands (order, byID)) i =
     (if i \<in> seen then byID i
      else case find (\<lambda>c. cand_id c = i) cands of
             None \<Rightarrow> byID i | Some c \<Rightarrow> Some (bump rnd opts ch c (byID i)))"
  by (induction rnd opts ch seen cands "(order, byID)" arbitrary: order byID rule: fuse_candidates.induct)
     (auto simp: Let_def split: option.splits)

definition fuse_inv :: "fuse_state \<Rightarrow> bool" where
  "fuse_inv st \<longleftrightarrow> (case st of (order, byID) \<Rightarrow> distinct order \<and> set order = dom byID)"

lemma fuse_candidates_inv: "fuse_inv st \<Longrightarrow> fuse_inv (fuse_candidates rnd opts ch seen cands st)"
proof (induction rnd opts ch seen cands st rule: fuse_candidates.induct)
  case (2 rnd opts ch seen cand cands order byID)
  show ?case
  proof (cases "cand_id cand \<in> seen")
    case True
    with 2 show ?thesis by (simp add: Let_def)
  next
    case False
    have "fuse_inv (if byID (cand_id cand) = None then order @ [cand_id cand] else order,
        byID(cand_id cand \<mapsto> bump rnd opts ch cand (byID (cand_id cand))))"
      using "2.prems" by (auto simp: fuse_inv_def)
    with 2 False show ?thesis by (simp add: Let_def)
  qed
qed simp

lemma fuse_results_inv: "fuse_inv st \<Longrightarrow> fuse_inv (fuse_results rnd opts rs st)"
  by (induction rnd opts rs st rule: fuse_results.induct) (auto intro: fuse_candidates_inv)

lemma fuse_candidates_contribution:
  "ch_err res = None \<Longrightarrow>
   snd (fuse_candidates rnd opts (ch_channel res) {} (ch_candidates res) st) i =
     bumps rnd opts (contribution res i) (snd st i)"
  by (cases st) (auto simp: fuse_candidates_byID contribution_def split: option.splits)

lemma fuse_results_byID:
  "snd (fuse_results rnd opts rs st) i = bumps rnd opts (contributions rs i) (snd st i)"
proof (induction rnd opts rs st rule: fuse_results.induct)
  case (2 rnd opts res rs st)
  then show ?case
    by (cases "ch_err res = None")
       (simp_all add: contributions_def fuse_candidates_contribution contribution_def[of res])
qed (simp add: contributions_def)

lemma contribution_id: "(ch, c) \<in> set (contribution res i) \<Longrightarrow> cand_id c = i"
  by (auto simp: contribution_def find_Some_iff[of "\<lambda>c. cand_id c = i"] dest: sym
      split: if_splits option.splits)

lemma contributions_id: "(ch, c) \<in> set (contributions rs i) \<Longrightarrow> cand_id c = i"
  by (auto simp: contributions_def dest: contribution_id)

definition recalled_of ::
  "(rat \<Rightarrow> rat) \<Rightarrow> FusionOptions \<Rightarrow> channelResult list \<Rightarrow> EpisodeID \<Rightarrow> RecalledEpisode" where
  "recalled_of rnd opts rs i =
     (let cs = contributions rs i in
      \<lparr>re_Episode = cd_Episode (snd (hd cs)), re_Score = rrf_score rnd opts cs,
       re_Hits = sort_by (le_key h_Channel) (map hit_of cs), re_Tokens = 0\<rparr>)"

lemma re_id_recalled_of: "contributions rs i \<noteq> [] \<Longrightarrow> re_id (recalled_of rnd opts rs i) = i"
  using contributions_id[of "fst (hd (contributions rs i))" "snd (hd (contributions rs i))" rs i]
  by (simp add: recalled_of_def Let_def)

lemma fuse_unfold:
  obtains order where "distinct order" "set order = {i. contributions rs i \<noteq> []}"
    "fuse rnd rs opts = sort_by fused_le (map (recalled_of rnd opts rs) order)"
proof -
  obtain order byID where st: "fuse_results rnd opts rs ([], \<lambda>_. None) = (order, byID)"
    by (cases "fuse_results rnd opts rs ([], \<lambda>_. None)")
  have inv: "distinct order" "set order = dom byID"
    using fuse_results_inv[of "([], \<lambda>_. None)" rnd opts rs] st by (auto simp: fuse_inv_def)
  have at: "byID i = bumps rnd opts (contributions rs i) None" for i
    using fuse_results_byID[of rnd opts rs "([], \<lambda>_. None)" i] st by simp
  have dom: "dom byID = {i. contributions rs i \<noteq> []}"
    by (simp add: dom_def at bumps_None_iff del: not_None_eq)
  have "to_recalled (the (byID i)) = recalled_of rnd opts rs i" if i: "i \<in> set order" for i
  proof -
    obtain ch c cs where "contributions rs i = (ch, c) # cs"
      using i inv dom by (cases "contributions rs i") auto
    then show ?thesis by (simp add: at bumps_start to_recalled_def recalled_of_def del: bumps_simps)
  qed
  then have "fuse rnd rs opts = sort_by fused_le (map (recalled_of rnd opts rs) order)"
    by (simp add: fuse_def st cong: map_cong)
  with inv dom that show thesis by blast
qed

lemma contributions_nonempty:
  "contributions rs i \<noteq> [] \<longleftrightarrow> (\<exists>res \<in> set rs. ch_err res = None \<and> i \<in> cand_id ` set (ch_candidates res))"
proof -
  have "contribution res i \<noteq> [] \<longleftrightarrow> ch_err res = None \<and> i \<in> cand_id ` set (ch_candidates res)" for res
  proof (cases "find (\<lambda>c. cand_id c = i) (ch_candidates res)")
    case None
    moreover from None have "i \<notin> cand_id ` set (ch_candidates res)" by (auto simp: find_None_iff)
    ultimately show ?thesis by (simp add: contribution_def)
  next
    case (Some c)
    then have "c \<in> set (ch_candidates res)" "cand_id c = i" by (auto simp: find_Some_iff)
    with Some show ?thesis by (auto simp: contribution_def)
  qed
  then show ?thesis by (auto simp: contributions_def)
qed

lemma fuse_members:
  "set (fuse rnd rs opts) = recalled_of rnd opts rs ` {i. contributions rs i \<noteq> []}"
proof -
  obtain order where "set order = {i. contributions rs i \<noteq> []}"
    "fuse rnd rs opts = sort_by fused_le (map (recalled_of rnd opts rs) order)"
    by (rule fuse_unfold)
  then show ?thesis by (metis set_map set_sort_by)
qed

lemma fuse_distinct: "distinct (map re_id (fuse rnd rs opts))"
proof -
  obtain order where o: "distinct order" "set order = {i. contributions rs i \<noteq> []}"
    "fuse rnd rs opts = sort_by fused_le (map (recalled_of rnd opts rs) order)"
    by (rule fuse_unfold)
  have "map (re_id \<circ> recalled_of rnd opts rs) order = order"
    using o(2) by (intro map_idI) (simp add: re_id_recalled_of)
  then show ?thesis using o(1) by (simp add: o(3))
qed

lemma fuse_sorted: "sorted_wrt fused_le (fuse rnd rs opts)"
  by (simp add: fuse_def fused.sorted_sort_by split: prod.splits)

lemma fuse_skips_failed: "fuse rnd (filter (\<lambda>r. ch_err r = None) rs) opts = fuse rnd rs opts"
proof -
  have "fuse_results rnd opts (filter (\<lambda>r. ch_err r = None) rs) st = fuse_results rnd opts rs st" for st
    by (induction rnd opts rs st rule: fuse_results.induct) auto
  then show ?thesis by (simp add: fuse_def)
qed

lemma length_fuse:
  "length (fuse rnd rs opts) = card {i. contributions rs i \<noteq> []}"
  by (rule fuse_unfold[of rs rnd opts]) (simp add: distinct_card[symmetric])

text \<open>
  C3. \<open>fuse\<close> returns one entry for each episode id that some channel which answered found, and no
  other; no id twice; every entry carries the reciprocal-rank sum of the channels that found it,
  each counted once at its first candidate, with the hits behind it; and the list is ordered by
  score downwards, ties by the larger (newer) id first. Channels that failed contribute nothing.
\<close>

theorem fuse_correct:
  "set (fuse rnd rs opts) = recalled_of rnd opts rs `
      {i. \<exists>res \<in> set rs. ch_err res = None \<and> i \<in> cand_id ` set (ch_candidates res)}
   \<and> distinct (map re_id (fuse rnd rs opts))
   \<and> sorted_wrt (\<lambda>a b. re_Score b < re_Score a \<or> re_Score b = re_Score a \<and> re_id b \<le> re_id a)
       (fuse rnd rs opts)
   \<and> fuse rnd (filter (\<lambda>r. ch_err r = None) rs) opts = fuse rnd rs opts"
proof -
  have "sorted_wrt (\<lambda>a b. re_Score b < re_Score a \<or> re_Score b = re_Score a \<and> re_id b \<le> re_id a)
      (fuse rnd rs opts)"
    by (rule sorted_wrt_mono_rel[OF _ fuse_sorted])
       (auto simp: fused_le_def then_by_def ge_key_def)
  then show ?thesis
    by (simp add: fuse_members contributions_nonempty fuse_distinct fuse_skips_failed)
qed

text \<open>
  Resolving fusion options succeeds exactly when \<open>K\<close> is not negative and every weight is for a
  known channel and not negative. The result has a positive \<open>K\<close>, the default when it was zero; the
  lexical channel weighs a quarter unless it was named; every other channel keeps its weight.
\<close>

theorem resolve_correct:
  "case resolve opts of
     Inl e \<Rightarrow> (fo_K opts < 0 \<or> (\<exists>(c, w) \<in> set (fo_Weights opts). \<not> Channel_Valid c \<or> w < 0))
              \<and> e \<in> {ErrInvalidConfig, ErrInvalidChannel}
   | Inr r \<Rightarrow> 0 \<le> fo_K opts \<and> \<not> (\<exists>(c, w) \<in> set (fo_Weights opts). \<not> Channel_Valid c \<or> w < 0)
       \<and> fo_K r = (if fo_K opts = 0 then 60 else fo_K opts) \<and> 0 < fo_K r
       \<and> weight r ChannelLexical =
           (case map_of (fo_Weights opts) ChannelLexical of Some w \<Rightarrow> w | None \<Rightarrow> 1 / 4)
       \<and> weight r ChannelSemantic = weight opts ChannelSemantic
       \<and> weight r ChannelFact = weight opts ChannelFact"
proof (cases "resolve opts")
  case (Inl e)
  then consider "fo_K opts < 0" "e = ErrInvalidConfig"
    | "first_err (map weight_check (sort_by (le_key fst) (fo_Weights opts))) = Some e"
    by (auto simp: resolve_def Let_def split: if_splits option.splits)
  then show ?thesis
  proof cases
    case 2
    then obtain cw where "cw \<in> set (fo_Weights opts)" "weight_check cw = Some e"
      by (auto dest!: first_err_Some_mem)
    then show ?thesis using Inl
      by (fastforce simp: weight_check_def split: prod.splits dest: first_err_Some_mem)
  qed (simp add: Inl)
next
  case (Inr r)
  let ?ws = "fo_Weights opts"
  have K: "\<not> fo_K opts < 0"
    and ok: "\<forall>cw \<in> set ?ws. weight_check cw = None"
    and r: "r = \<lparr>fo_K = if fo_K opts = 0 then DefaultFusionK else fo_K opts,
      fo_Weights = if ChannelLexical \<in> fst ` set ?ws then ?ws
                   else ?ws @ [(ChannelLexical, DefaultLexicalWeight)]\<rparr>"
    using Inr by (simp_all add: resolve_def Let_def split: if_splits option.splits)
  have "\<not> (\<exists>(c, w) \<in> set ?ws. \<not> Channel_Valid c \<or> w < 0)"
    using ok by (auto simp: weight_check_def)
  moreover have "weight r ChannelLexical = (case map_of ?ws ChannelLexical of Some w \<Rightarrow> w | None \<Rightarrow> 1 / 4)"
    by (auto simp: r weight_def map_add_def map_of_eq_None_iff DefaultLexicalWeight_def
        split: option.splits dest!: map_of_SomeD intro: rev_image_eqI)
  moreover have "weight r ChannelSemantic = weight opts ChannelSemantic"
    "weight r ChannelFact = weight opts ChannelFact"
    by (simp_all add: r weight_def map_add_def split: option.splits)
  ultimately show ?thesis using K by (simp add: Inr) (simp add: r DefaultFusionK_def)
qed


theorem resolve_correct_witness:
  "\<exists>r. resolve \<lparr>fo_K = 0, fo_Weights = []\<rparr> = Inr r \<and> fo_K r = 60 \<and> weight r ChannelLexical = 1 / 4
    \<and> weight r ChannelSemantic = 1"
proof -
  obtain r where r: "resolve \<lparr>fo_K = 0, fo_Weights = []\<rparr> = Inr r" by (simp add: resolve_def Let_def)
  with resolve_correct[of "\<lparr>fo_K = 0, fo_Weights = []\<rparr>"] show ?thesis by (simp add: weight_def)
qed

lemma fuse_episode:
  assumes "r \<in> set (fuse rnd rs opts)"
  obtains res c where "res \<in> set rs" "ch_err res = None" "c \<in> set (ch_candidates res)" "re_Episode r = cd_Episode c"
proof -
  obtain i where i: "contributions rs i \<noteq> []" "r = recalled_of rnd opts rs i" using assms by (auto simp: fuse_members)
  let ?hd = "hd (contributions rs i)"
  have "?hd \<in> set (contributions rs i)" using i(1) by simp
  then obtain res where res: "res \<in> set rs" "?hd \<in> set (contribution res i)" by (auto simp: contributions_def)
  moreover have "ch_err res = None \<and> c \<in> set (ch_candidates res)" if m: "(ch, c) \<in> set (contribution res i)" for ch c
  proof -
    have "ch_err res = None" "find (\<lambda>c. cand_id c = i) (ch_candidates res) = Some c"
      using m by (auto simp: contribution_def split: if_splits option.splits)
    then show ?thesis by (auto simp: find_Some_iff)
  qed
  ultimately have "ch_err res = None" "snd ?hd \<in> set (ch_candidates res)" by (metis prod.collapse)+
  with res i that show thesis by (auto simp: recalled_of_def Let_def)
qed

end
