(* ===== verification/Job_Queue.thy ===== *)
theory Job_Queue
  imports Episode_Log
begin

section \<open>The job queue\<close>

text \<open>
  \<^verbatim>\<open>postgres/queue.go\<close>: the six methods of \<^verbatim>\<open>mempher.Queue\<close> (\<open>Enqueue\<close>, \<open>Lease\<close>, \<open>Succeed\<close>, \<open>Fail\<close>,
  \<open>Reclaim\<close>, \<open>Job\<close>) and the operational ones (\<open>Jobs\<close>, \<open>Stats\<close>, \<open>Retry\<close>, \<open>Purge\<close>), with the requests of
  \<^verbatim>\<open>ops/inspect.go\<close> and their validation in \<^verbatim>\<open>ops/validate.go\<close>. Each method is one SQL statement and
  therefore one atomic step. \<open>locked\<close> are the rows other transactions hold while a lease runs, which
  \<^verbatim>\<open>SKIP LOCKED\<close> passes over. An error value handed to \<open>Fail\<close> is its message, \<open>None\<close> for nil.

  A row that fails to scan would fail the call after the statement took effect; the checks on the
  table exclude that (\<open>scanJob_ok\<close>), and the model reports the error without a new state.
\<close>

subsection \<open>Rows as jobs\<close>

definition scanJob :: "job_row \<Rightarrow> err + Job" where
  "scanJob r =
     (if \<not> JobKind_Valid (jr_kind r) then Inl ErrInvalidJobKind
      else if \<not> JobState_Valid (jr_state r) then Inl ErrInvalidConfig
      else Inr \<lparr>j_ID = jr_id r, j_Kind = jr_kind r, j_Scope = jr_scope r, j_Episodes = jr_episodes r,
                j_State = jr_state r, j_Attempts = jr_attempts r, j_MaxAttempts = jr_max_attempts r,
                j_RunAfter = Time (jr_run_after r) 0,
                j_LeasedUntil = (case jr_leased_until r of None \<Rightarrow> zero_time | Some t \<Rightarrow> Time t 0),
                j_LeasedBy = (case jr_leased_by r of None \<Rightarrow> '''' | Some w \<Rightarrow> w),
                j_LastError = (case jr_last_error r of None \<Rightarrow> '''' | Some m \<Rightarrow> m),
                j_CreatedAt = Time (jr_created_at r) 0, j_UpdatedAt = Time (jr_updated_at r) 0\<rparr>)"

definition Job :: "JobID \<Rightarrow> db \<Rightarrow> err + Job" where
  "Job i d =
     (if id_IsZero i then Inl ErrNotFound
      else if \<not> db_ready d then Inl ErrSchemaNotReady
      else case find (\<lambda>r. jr_id r = i) (jobs d) of
             None \<Rightarrow> Inl ErrNotFound
           | Some r \<Rightarrow> scanJob r)"

subsection \<open>Enqueue\<close>

definition validateNewJob :: "NewJob \<Rightarrow> gotime \<Rightarrow> err option" where
  "validateNewJob job now = first_err
     ([ScopeID_Validate (nj_Scope job),
       reject_if (\<not> JobKind_Valid (nj_Kind job)) ErrInvalidJobKind,
       reject_if (length (nj_Episodes job) = 0) ErrInvalidConfig,
       reject_if (nj_MaxAttempts job < 0) ErrInvalidConfig,
       reject_if (IsZero now) ErrInvalidConfig]
      @ map (\<lambda>i. reject_if (id_IsZero i) ErrInvalidConfig) (nj_Episodes job))"

definition enqueue_row :: "uuid \<Rightarrow> NewJob \<Rightarrow> gotime \<Rightarrow> job_row" where
  "enqueue_row i job now =
     (let runAfter = (if IsZero (nj_RunAfter job) then now else nj_RunAfter job);
          tries = (if nj_MaxAttempts job = 0 then DefaultMaxAttempts else nj_MaxAttempts job)
      in \<lparr>jr_id = i, jr_kind = nj_Kind job, jr_scope = nj_Scope job, jr_episodes = nj_Episodes job,
          jr_state = JobStatePending, jr_attempts = 0, jr_max_attempts = int32_of tries,
          jr_run_after = instant runAfter, jr_leased_until = None, jr_leased_by = None,
          jr_last_error = None, jr_created_at = instant now, jr_updated_at = instant now\<rparr>)"

definition enqueueSQL :: "(string \<Rightarrow> bool) \<Rightarrow> job_row \<Rightarrow> db \<Rightarrow> job_row result" where
  "enqueueSQL text_ok r d = stmt d
     (if \<not> text_ok (jr_scope r) then Inl (PgErr pg_invalid_text)
      else if \<not> job_check r then Inl (PgErr pgerrcodeCheckViolation)
      else case find (\<lambda>x. inflight x \<and> job_key x = job_key r) (jobs d) of
             Some x \<Rightarrow> Inr (x, d)
           | None \<Rightarrow>
               if jr_id r \<in> jr_id ` set (jobs d) then Inl (PgErr pgerrcodeUniqueViolation)
               else if jr_scope r \<notin> sc_id ` set (scopes d) then Inl (PgErr pgerrcodeForeignKeyViolat)
               else Inr (r, d\<lparr>jobs := jobs d @ [r]\<rparr>))"

definition Enqueue :: "(string \<Rightarrow> bool) \<Rightarrow> uuid \<Rightarrow> NewJob \<Rightarrow> gotime \<Rightarrow> db \<Rightarrow> Job result" where
  "Enqueue text_ok mint job now d =
     (case validateNewJob job now of Some e \<Rightarrow> Inl e
      | None \<Rightarrow>
          case enqueueSQL text_ok (enqueue_row mint job now) d of
            Inl e \<Rightarrow> Inl (if isCode e [pgerrcodeForeignKeyViolat] then ErrNotFound
                          else if notReady e then ErrSchemaNotReady else e)
          | Inr (r, d') \<Rightarrow> (case scanJob r of Inl e \<Rightarrow> Inl e | Inr j \<Rightarrow> Inr (j, d')))"

subsection \<open>Lease\<close>

definition validateLease :: "LeaseRequest \<Rightarrow> err option" where
  "validateLease req = first_err
     ([reject_if (lr_Worker req = '''') ErrInvalidConfig,
       reject_if (IsZero (lr_Now req)) ErrInvalidConfig,
       reject_if (lr_Limit req < 0) ErrInvalidConfig,
       reject_if (lr_Duration req < 0) ErrInvalidConfig]
      @ map (\<lambda>k. reject_if (\<not> JobKind_Valid k) ErrInvalidJobKind) (lr_Kinds req))"

definition claimable :: "JobKind list \<Rightarrow> int \<Rightarrow> job_row \<Rightarrow> bool" where
  "claimable kinds now r \<longleftrightarrow> jr_state r = JobStatePending \<and> jr_run_after r \<le> now \<and>
     jr_attempts r < jr_max_attempts r \<and> (kinds = [] \<or> jr_kind r \<in> set kinds)"

definition lease_le :: "job_row \<Rightarrow> job_row \<Rightarrow> bool" where
  "lease_le = then_by (le_key jr_run_after) (le_key jr_id)"

definition lease_limit :: "LeaseRequest \<Rightarrow> nat" where
  "lease_limit req = nat (if lr_Limit req = 0 then 1 else lr_Limit req)"

definition lease_until :: "LeaseRequest \<Rightarrow> int" where
  "lease_until req = instant (time_Add (lr_Now req)
     (if lr_Duration req = 0 then DefaultLeaseDuration else lr_Duration req))"

definition lease_ready :: "(JobID \<Rightarrow> bool) \<Rightarrow> LeaseRequest \<Rightarrow> job_row list \<Rightarrow> job_row list" where
  "lease_ready locked req js =
     filter (\<lambda>r. claimable (lr_Kinds req) (instant (lr_Now req)) r \<and> \<not> locked (jr_id r)) js"

definition lease_candidates :: "(JobID \<Rightarrow> bool) \<Rightarrow> LeaseRequest \<Rightarrow> job_row list \<Rightarrow> job_row list" where
  "lease_candidates locked req js =
     take (lease_limit req) (sort_by lease_le (lease_ready locked req js))"

definition lease_row :: "int \<Rightarrow> int \<Rightarrow> WorkerID \<Rightarrow> job_row \<Rightarrow> job_row" where
  "lease_row now until worker r =
     r\<lparr>jr_state := JobStateRunning, jr_attempts := jr_attempts r + 1, jr_leased_until := Some until,
       jr_leased_by := Some worker, jr_updated_at := now\<rparr>"

definition Lease :: "(string \<Rightarrow> bool) \<Rightarrow> (JobID \<Rightarrow> bool) \<Rightarrow> LeaseRequest \<Rightarrow> db \<Rightarrow> Job list result" where
  "Lease text_ok locked req d =
     (case validateLease req of Some e \<Rightarrow> Inl e
      | None \<Rightarrow>
          let ids = jr_id ` set (lease_candidates locked req (jobs d));
              jobs' = update_where (\<lambda>r. jr_id r \<in> ids)
                (lease_row (instant (lr_Now req)) (lease_until req) (lr_Worker req)) (jobs d)
          in if \<not> db_ready d then Inl ErrSchemaNotReady
             else if \<not> text_ok (lr_Worker req) then Inl (PgErr pg_invalid_text)
             else case traverse scanJob (filter (\<lambda>r. jr_id r \<in> ids) jobs') of
                    Inl e \<Rightarrow> Inl e
                  | Inr js \<Rightarrow> Inr (js, d\<lparr>jobs := jobs'\<rparr>))"

subsection \<open>Finishing a job\<close>

definition validateJobUpdate :: "JobID \<Rightarrow> WorkerID \<Rightarrow> gotime \<Rightarrow> err option" where
  "validateJobUpdate i worker t = first_err
     [reject_if (id_IsZero i) ErrInvalidConfig,
      reject_if (worker = '''') ErrInvalidConfig,
      reject_if (IsZero t) ErrInvalidConfig]"

definition held_by :: "JobID \<Rightarrow> WorkerID \<Rightarrow> job_row \<Rightarrow> bool" where
  "held_by i worker r \<longleftrightarrow> jr_id r = i \<and> jr_state r = JobStateRunning \<and> jr_leased_by r = Some worker"

definition explainLostLease :: "JobID \<Rightarrow> db \<Rightarrow> err" where
  "explainLostLease i d = (case Job i d of Inl e \<Rightarrow> e | Inr _ \<Rightarrow> ErrJobNotLeased)"

definition succeed_row :: "int \<Rightarrow> job_row \<Rightarrow> job_row" where
  "succeed_row t r =
     r\<lparr>jr_state := JobStateDone, jr_leased_until := None, jr_leased_by := None, jr_updated_at := t\<rparr>"

definition Succeed :: "(string \<Rightarrow> bool) \<Rightarrow> JobID \<Rightarrow> WorkerID \<Rightarrow> gotime \<Rightarrow> db \<Rightarrow> unit result" where
  "Succeed text_ok i worker t d =
     (case validateJobUpdate i worker t of Some e \<Rightarrow> Inl e
      | None \<Rightarrow>
          if \<not> db_ready d then Inl (PgErr pgerrcodeUndefinedTable)
          else if \<not> text_ok worker then Inl (PgErr pg_invalid_text)
          else if \<exists>r \<in> set (jobs d). held_by i worker r
          then Inr ((), d\<lparr>jobs := update_where (held_by i worker) (succeed_row (instant t)) (jobs d)\<rparr>)
          else Inl (explainLostLease i d))"

definition maxLastErrorLen :: nat where "maxLastErrorLen = 2000"

definition truncateError :: "string option \<Rightarrow> string option" where
  "truncateError cause =
     (case cause of None \<Rightarrow> None
      | Some message \<Rightarrow>
          Some (if length message > maxLastErrorLen
                then take maxLastErrorLen message @ ''... (truncated)'' else message))"

definition fail_row :: "int \<Rightarrow> int \<Rightarrow> string option \<Rightarrow> job_row \<Rightarrow> job_row" where
  "fail_row t retryAt message r =
     r\<lparr>jr_state := (if jr_attempts r \<ge> jr_max_attempts r then JobStateDead else JobStatePending),
       jr_run_after := (if jr_attempts r \<ge> jr_max_attempts r then jr_run_after r else retryAt),
       jr_leased_until := None, jr_leased_by := None, jr_last_error := message, jr_updated_at := t\<rparr>"

definition Fail ::
  "(string \<Rightarrow> bool) \<Rightarrow> JobID \<Rightarrow> WorkerID \<Rightarrow> string option \<Rightarrow> gotime \<Rightarrow> gotime \<Rightarrow> db \<Rightarrow> unit result" where
  "Fail text_ok i worker cause t retryAt d =
     (case first_err [validateJobUpdate i worker t, reject_if (IsZero retryAt) ErrInvalidConfig] of
        Some e \<Rightarrow> Inl e
      | None \<Rightarrow>
          if \<not> db_ready d then Inl (PgErr pgerrcodeUndefinedTable)
          else if \<not> (text_ok worker \<and> (\<forall>m \<in> set_option (truncateError cause). text_ok m))
          then Inl (PgErr pg_invalid_text)
          else if \<exists>r \<in> set (jobs d). held_by i worker r
          then Inr ((), d\<lparr>jobs := update_where (held_by i worker)
                              (fail_row (instant t) (instant retryAt) (truncateError cause)) (jobs d)\<rparr>)
          else Inl (explainLostLease i d))"

definition expired :: "int \<Rightarrow> job_row \<Rightarrow> bool" where
  "expired now r \<longleftrightarrow> jr_state r = JobStateRunning \<and>
     (case jr_leased_until r of None \<Rightarrow> False | Some u \<Rightarrow> u < now)"

definition reclaim_row :: "int \<Rightarrow> job_row \<Rightarrow> job_row" where
  "reclaim_row now r =
     r\<lparr>jr_state := (if jr_attempts r \<ge> jr_max_attempts r then JobStateDead else JobStatePending),
       jr_leased_until := None, jr_leased_by := None,
       jr_last_error := Some ''lease expired; the worker holding it is presumed dead'',
       jr_updated_at := now\<rparr>"

definition Reclaim :: "gotime \<Rightarrow> db \<Rightarrow> nat result" where
  "Reclaim now d =
     (if IsZero now then Inl ErrInvalidConfig
      else if \<not> db_ready d then Inl ErrSchemaNotReady
      else Inr (length (filter (expired (instant now)) (jobs d)),
                d\<lparr>jobs := update_where (expired (instant now)) (reclaim_row (instant now)) (jobs d)\<rparr>))"

subsection \<open>Operating the queue\<close>

record JobQuery =
  jq_Scope :: ScopeID
  jq_Kinds :: "JobKind list"
  jq_States :: "JobState list"
  jq_After :: JobID
  jq_Limit :: int

record JobCount =
  jc_Kind :: JobKind
  jc_State :: JobState
  jc_Jobs :: nat
  jc_Oldest :: gotime

record PurgeRequest =
  pr_Before :: gotime
  pr_States :: "JobState list"
  pr_Limit :: int

definition DefaultJobsLimit :: int where "DefaultJobsLimit = 100"
definition DefaultPurgeLimit :: int where "DefaultPurgeLimit = 1000"

definition JobQuery_Validate :: "JobQuery \<Rightarrow> err option" where
  "JobQuery_Validate q = first_err
     ([if jq_Scope q \<noteq> '''' then ScopeID_Validate (jq_Scope q) else None]
      @ map (\<lambda>k. reject_if (\<not> JobKind_Valid k) ErrInvalidJobKind) (jq_Kinds q)
      @ map (\<lambda>s. reject_if (\<not> JobState_Valid s) ErrInvalidJobState) (jq_States q)
      @ [reject_if (jq_Limit q < 0) ErrInvalidConfig])"

definition PurgeRequest_Validate :: "PurgeRequest \<Rightarrow> err option" where
  "PurgeRequest_Validate r = first_err
     ([reject_if (IsZero (pr_Before r)) ErrInvalidConfig]
      @ map (\<lambda>s. reject_if (s \<noteq> JobStateDone \<and> s \<noteq> JobStateDead) ErrInvalidJobState) (pr_States r)
      @ [reject_if (pr_Limit r < 0) ErrInvalidConfig])"

definition Jobs :: "JobQuery \<Rightarrow> db \<Rightarrow> err + Job list" where
  "Jobs q d =
     (case JobQuery_Validate q of Some e \<Rightarrow> Inl e
      | None \<Rightarrow>
          let limit = (if jq_Limit q = 0 then DefaultJobsLimit else jq_Limit q);
              p = (\<lambda>r. (jq_Scope q \<noteq> '''' \<longrightarrow> jr_scope r = jq_Scope q)
                     \<and> (jq_Kinds q \<noteq> [] \<longrightarrow> jr_kind r \<in> set (jq_Kinds q))
                     \<and> (jq_States q \<noteq> [] \<longrightarrow> jr_state r \<in> set (jq_States q))
                     \<and> (\<not> id_IsZero (jq_After q) \<longrightarrow> jq_After q < jr_id r))
          in if \<not> db_ready d then Inl ErrSchemaNotReady
             else traverse scanJob (take (nat limit) (sort_by (le_key jr_id) (filter p (jobs d)))))"

text \<open>\<^verbatim>\<open>GROUP BY kind, state ORDER BY kind, state\<close>: one bucket per pair that occurs.\<close>

definition stats_bucket :: "job_row list \<Rightarrow> string \<times> string \<Rightarrow> JobCount" where
  "stats_bucket rs ks =
     (let g = filter (\<lambda>r. (jr_kind r, jr_state r) = ks) rs in
      \<lparr>jc_Kind = fst ks, jc_State = snd ks, jc_Jobs = length g,
       jc_Oldest = Time (Min (jr_created_at ` set g)) 0\<rparr>)"

definition Stats :: "ScopeID \<Rightarrow> db \<Rightarrow> err + JobCount list" where
  "Stats scope d =
     (case (if scope \<noteq> '''' then ScopeID_Validate scope else None) of Some e \<Rightarrow> Inl e
      | None \<Rightarrow>
          let rs = filter (\<lambda>r. scope \<noteq> '''' \<longrightarrow> jr_scope r = scope) (jobs d)
          in if \<not> db_ready d then Inl ErrSchemaNotReady
             else Inr (map (stats_bucket rs)
                    (sort_by (then_by (le_key fst) (le_key snd))
                       (remdups (map (\<lambda>r. (jr_kind r, jr_state r)) rs)))))"

definition explainNotRevived :: "JobID \<Rightarrow> db \<Rightarrow> err" where
  "explainNotRevived i d = (case Job i d of Inl e \<Rightarrow> e | Inr _ \<Rightarrow> ErrJobNotDead)"

definition revive_row :: "int \<Rightarrow> job_row \<Rightarrow> job_row" where
  "revive_row now r =
     r\<lparr>jr_state := JobStatePending, jr_attempts := 0, jr_run_after := now, jr_leased_until := None,
       jr_leased_by := None, jr_updated_at := now\<rparr>"

definition Retry :: "JobID \<Rightarrow> gotime \<Rightarrow> db \<Rightarrow> Job result" where
  "Retry i now d =
     (if id_IsZero i then Inl ErrNotFound
      else if IsZero now then Inl ErrInvalidConfig
      else if \<not> db_ready d then Inl ErrSchemaNotReady
      else case find (\<lambda>r. jr_id r = i \<and> jr_state r = JobStateDead) (jobs d) of
             None \<Rightarrow> Inl (explainNotRevived i d)
           | Some r \<Rightarrow>
               if job_conflicts (jobs d) r then Inl ErrJobOutstanding
               else case scanJob (revive_row (instant now) r) of
                      Inl e \<Rightarrow> Inl e
                    | Inr j \<Rightarrow>
                        Inr (j, d\<lparr>jobs := update_where (\<lambda>x. jr_id x = i \<and> jr_state x = JobStateDead)
                                          (revive_row (instant now)) (jobs d)\<rparr>))"

definition purge_states :: "PurgeRequest \<Rightarrow> JobState list" where
  "purge_states req = (if pr_States req = [] then [JobStateDone, JobStateDead] else pr_States req)"

definition purge_limit :: "PurgeRequest \<Rightarrow> int" where
  "purge_limit req = (if pr_Limit req = 0 then DefaultPurgeLimit else pr_Limit req)"

definition purge_select :: "PurgeRequest \<Rightarrow> job_row list \<Rightarrow> job_row list" where
  "purge_select req js = take (nat (purge_limit req)) (sort_by (le_key jr_id)
     (filter (\<lambda>r. jr_state r \<in> set (purge_states req) \<and> jr_updated_at r < instant (pr_Before req)) js))"

definition Purge :: "PurgeRequest \<Rightarrow> db \<Rightarrow> nat result" where
  "Purge req d =
     (case PurgeRequest_Validate req of Some e \<Rightarrow> Inl e
      | None \<Rightarrow>
          let ids = jr_id ` set (purge_select req (jobs d))
          in if \<not> db_ready d then Inl ErrSchemaNotReady
             else Inr (length (filter (\<lambda>r. jr_id r \<in> ids) (jobs d)),
                       d\<lparr>jobs := delete_where (\<lambda>r. jr_id r \<in> ids) (jobs d)\<rparr>))"

subsection \<open>The life of a job\<close>

text \<open>
  What the queue promises of one job, as a state machine: claimed while attempts remain, finished
  or handed back by its holder or by the expiry of the lease, dead once its attempts are spent,
  revived only from there.
\<close>

inductive job_step :: "job_row \<Rightarrow> job_row \<Rightarrow> bool" where
  claim: "jr_state r = JobStatePending \<Longrightarrow> jr_attempts r < jr_max_attempts r \<Longrightarrow>
    job_step r (lease_row now until worker r)"
| finish: "jr_state r = JobStateRunning \<Longrightarrow> job_step r (succeed_row t r)"
| give_back: "jr_state r = JobStateRunning \<Longrightarrow> job_step r (fail_row t retryAt message r)"
| expire: "jr_state r = JobStateRunning \<Longrightarrow> job_step r (reclaim_row t r)"
| revive: "jr_state r = JobStateDead \<Longrightarrow> job_step r (revive_row t r)"

inductive_cases job_step_cases: "job_step r s"

lemmas row_defs = lease_row_def succeed_row_def fail_row_def reclaim_row_def revive_row_def

lemma row_keeps_identity:
  assumes "job_step r s"
  shows "jr_id s = jr_id r \<and> job_key s = job_key r \<and> jr_max_attempts s = jr_max_attempts r
    \<and> jr_created_at s = jr_created_at r"
  using assms by (rule job_step_cases) (auto simp: row_defs job_key_def)

lemma row_keeps_key [simp]:
  "job_key (lease_row a b c r) = job_key r" "job_key (succeed_row a r) = job_key r"
  "job_key (fail_row a b m r) = job_key r" "job_key (reclaim_row a r) = job_key r"
  "job_key (revive_row a r) = job_key r"
  "jr_id (lease_row a b c r) = jr_id r" "jr_id (succeed_row a r) = jr_id r"
  "jr_id (fail_row a b m r) = jr_id r" "jr_id (reclaim_row a r) = jr_id r"
  "jr_id (revive_row a r) = jr_id r"
  by (simp_all add: row_defs job_key_def)

lemma job_step_check:
  assumes "job_step r s" "job_check r"
  shows "job_check s"
  using assms(1) by (rule job_step_cases) (use assms(2) in \<open>auto simp: row_defs job_check_iff\<close>)

lemma job_step_inflight: "job_step r s \<Longrightarrow> jr_state r \<noteq> JobStateDead \<Longrightarrow> inflight s \<Longrightarrow> inflight r"
  by (erule job_step_cases) (auto simp: inflight_iff)

lemma scanJob_ok: "job_check r \<Longrightarrow> \<exists>j. scanJob r = Inr j \<and> j_ID j = jr_id r"
  by (auto simp: scanJob_def job_check_iff)

subsection \<open>Every operation keeps the table sound\<close>

lemma db_inv_jobs:
  assumes "db_inv d" "jobs_ok (d\<lparr>jobs := js\<rparr>)"
  shows "db_inv (d\<lparr>jobs := js\<rparr>)"
  using assms by (simp add: db_inv_def table_ok_defs)

lemma inflight_keys_update:
  assumes "distinct (map job_key (filter inflight js))"
    and "\<And>r. r \<in> set js \<Longrightarrow> p r \<Longrightarrow> job_key (f r) = job_key r"
    and "\<And>r. r \<in> set js \<Longrightarrow> p r \<Longrightarrow> inflight (f r) \<Longrightarrow> inflight r"
  shows "distinct (map job_key (filter inflight (update_where p f js)))"
proof -
  have "set (map job_key (filter inflight (update_where p f xs))) \<subseteq> set (map job_key (filter inflight xs))"
    if "set xs \<subseteq> set js" for xs
    using that assms(2,3) by (auto simp: update_where_def split: if_splits)
  then have "distinct (map job_key (filter inflight (update_where p f xs)))"
    if "set xs \<subseteq> set js" "distinct (map job_key (filter inflight xs))" for xs
    using that
  proof (induction xs)
    case (Cons x xs)
    have "set (map job_key (filter inflight (update_where p f xs))) \<subseteq> set (map job_key (filter inflight xs))"
      using Cons.prems by simp
    then show ?case using Cons assms(2,3)[of x] by (auto simp: update_where_def split: if_splits)
  qed (simp add: update_where_def)
  with assms(1) show ?thesis by blast
qed

lemma jobs_ok_update:
  assumes "jobs_ok d" and "\<And>r. r \<in> set (jobs d) \<Longrightarrow> p r \<Longrightarrow> job_step r (f r) \<and> jr_state r \<noteq> JobStateDead"
  shows "jobs_ok (d\<lparr>jobs := update_where p f (jobs d)\<rparr>)"
proof -
  have id: "map jr_id (update_where p f (jobs d)) = map jr_id (jobs d)"
    using assms(2) row_keeps_identity by (auto simp: update_where_def)
  moreover have "distinct (map job_key (filter inflight (update_where p f (jobs d))))"
    using assms by (intro inflight_keys_update)
      (auto simp: jobs_ok_def row_keeps_identity intro: job_step_inflight[of _ "f _"])
  moreover have "job_check s \<and> jr_scope s \<in> sc_id ` set (scopes d)"
    if s: "s \<in> set (update_where p f (jobs d))" for s
  proof -
    obtain r where r: "r \<in> set (jobs d)" "s = (if p r then f r else r)"
      using s by (auto simp: update_where_def)
    then have "job_check r" "jr_scope r \<in> sc_id ` set (scopes d)" using assms(1) by (auto simp: jobs_ok_def)
    moreover have "p r \<Longrightarrow> job_step r s" using r assms(2) by simp
    then have "p r \<Longrightarrow> job_check s \<and> jr_scope s = jr_scope r"
      using calculation job_step_check row_keeps_identity[of r s] by (auto simp: job_key_def)
    ultimately show ?thesis using r(2) by (cases "p r") auto
  qed
  ultimately show ?thesis using assms(1) by (simp add: jobs_ok_def)
qed

lemma db_inv_jobs_update:
  assumes "db_inv d" and "\<And>r. r \<in> set (jobs d) \<Longrightarrow> p r \<Longrightarrow> job_step r (f r) \<and> jr_state r \<noteq> JobStateDead"
  shows "db_inv (d\<lparr>jobs := update_where p f (jobs d)\<rparr>)"
  using assms(1) jobs_ok_update[OF _ assms(2)] by (intro db_inv_jobs) (auto simp: db_inv_def)

interpretation lease_order: total_preorder lease_le
  unfolding lease_le_def by (intro total_preorder_intros)

lemma in_lease_candidates:
  "r \<in> set (lease_candidates locked req js) \<Longrightarrow> r \<in> set (lease_ready locked req js)"
  by (auto simp: lease_candidates_def dest!: in_set_takeD)

lemma in_lease_ready:
  "r \<in> set (lease_ready locked req js) \<longleftrightarrow>
     r \<in> set js \<and> claimable (lr_Kinds req) (instant (lr_Now req)) r \<and> \<not> locked (jr_id r)"
  by (auto simp: lease_ready_def)

lemma candidate_by_id:
  assumes "distinct (map jr_id js)" "r \<in> set js" "jr_id r \<in> jr_id ` set (lease_candidates locked req js)"
  shows "r \<in> set (lease_candidates locked req js)"
proof -
  obtain x where "x \<in> set (lease_candidates locked req js)" "jr_id x = jr_id r" using assms(3) by auto
  moreover from this have "x = r"
    using assms(1,2) in_lease_candidates[of x] by (auto simp: in_lease_ready distinct_map dest: inj_onD)
  ultimately show ?thesis by simp
qed

lemma Lease_Inr:
  assumes "Lease text_ok locked req d = Inr (js, d')"
  shows "d' = d\<lparr>jobs := update_where (\<lambda>r. jr_id r \<in> jr_id ` set (lease_candidates locked req (jobs d)))
      (lease_row (instant (lr_Now req)) (lease_until req) (lr_Worker req)) (jobs d)\<rparr>"
  using assms by (auto simp: Lease_def Let_def split: option.splits if_splits sum.splits)

lemma Lease_steps:
  assumes "db_inv d" "r \<in> set (jobs d)" "jr_id r \<in> jr_id ` set (lease_candidates locked req (jobs d))"
  shows "job_step r (lease_row now until w r)" "jr_state r = JobStatePending"
proof -
  have "r \<in> set (lease_candidates locked req (jobs d))"
    using assms by (intro candidate_by_id) (auto simp: db_inv_def jobs_ok_def)
  then have "claimable (lr_Kinds req) (instant (lr_Now req)) r"
    using in_lease_candidates in_lease_ready by blast
  then show "job_step r (lease_row now until w r)" "jr_state r = JobStatePending"
    by (auto simp: claimable_def intro: job_step.claim)
qed

lemma Lease_inv:
  assumes "db_inv d" "Lease text_ok locked req d = Inr (js, d')"
  shows "db_inv d'"
  unfolding Lease_Inr[OF assms(2)] using Lease_steps[OF assms(1)]
  by (intro db_inv_jobs_update[OF assms(1)]) auto

lemma Succeed_Inr:
  assumes "Succeed text_ok i w t d = Inr (u, d')"
  shows "d' = d\<lparr>jobs := update_where (held_by i w) (succeed_row (instant t)) (jobs d)\<rparr>"
    "\<exists>r \<in> set (jobs d). held_by i w r"
  using assms by (auto simp: Succeed_def split: option.splits if_splits)

lemma Succeed_inv: "db_inv d \<Longrightarrow> Succeed text_ok i w t d = Inr (u, d') \<Longrightarrow> db_inv d'"
  by (auto simp: held_by_def dest!: Succeed_Inr(1) intro!: db_inv_jobs_update job_step.finish)

lemma Fail_Inr:
  assumes "Fail text_ok i w cause t retryAt d = Inr (u, d')"
  shows "d' = d\<lparr>jobs := update_where (held_by i w)
      (fail_row (instant t) (instant retryAt) (truncateError cause)) (jobs d)\<rparr>"
    "\<exists>r \<in> set (jobs d). held_by i w r"
  using assms by (auto simp: Fail_def split: option.splits if_splits)

lemma Fail_inv: "db_inv d \<Longrightarrow> Fail text_ok i w cause t retryAt d = Inr (u, d') \<Longrightarrow> db_inv d'"
  by (auto simp: held_by_def dest!: Fail_Inr(1) intro!: db_inv_jobs_update job_step.give_back)

lemma Reclaim_Inr:
  assumes "Reclaim now d = Inr (n, d')"
  shows "d' = d\<lparr>jobs := update_where (expired (instant now)) (reclaim_row (instant now)) (jobs d)\<rparr>"
    "n = length (filter (expired (instant now)) (jobs d))"
  using assms by (auto simp: Reclaim_def split: if_splits)

lemma Reclaim_inv: "db_inv d \<Longrightarrow> Reclaim now d = Inr (n, d') \<Longrightarrow> db_inv d'"
  by (auto simp: expired_def dest!: Reclaim_Inr(1) intro!: db_inv_jobs_update job_step.expire)

lemma enqueueSQL_inv:
  assumes "db_inv d" "enqueueSQL text_ok r d = Inr (x, d')" "inflight r"
  shows "db_inv d'"
proof (cases "find (\<lambda>x. inflight x \<and> job_key x = job_key r) (jobs d)")
  case None
  then have "\<forall>x \<in> set (filter inflight (jobs d)). job_key x \<noteq> job_key r" by (auto simp: find_None_iff)
  then have new: "job_key r \<notin> job_key ` set (filter inflight (jobs d))" by force
  have d': "d' = d\<lparr>jobs := jobs d @ [r]\<rparr>" "job_check r" "jr_id r \<notin> jr_id ` set (jobs d)"
    "jr_scope r \<in> sc_id ` set (scopes d)"
    using assms(2) None by (auto simp: enqueueSQL_def stmt_def split: if_splits)
  have "jobs_ok (d\<lparr>jobs := jobs d @ [r]\<rparr>)"
    using assms(1,3) new d'(2-4) by (auto simp: db_inv_def jobs_ok_def)
  then show ?thesis using assms(1) unfolding d'(1) by (intro db_inv_jobs)
next
  case (Some y)
  then show ?thesis using assms by (auto simp: enqueueSQL_def stmt_def split: if_splits)
qed

lemma inflight_enqueue_row [simp]: "inflight (enqueue_row i job now)"
  by (simp add: inflight_iff enqueue_row_def Let_def)

lemma Enqueue_Inr:
  assumes "Enqueue text_ok mint job now d = Inr (j, d')"
  obtains r where "validateNewJob job now = None"
    "enqueueSQL text_ok (enqueue_row mint job now) d = Inr (r, d')" "scanJob r = Inr j"
  using assms by (auto simp: Enqueue_def split: option.splits sum.splits)

lemma Enqueue_inv: "db_inv d \<Longrightarrow> Enqueue text_ok mint job now d = Inr (j, d') \<Longrightarrow> db_inv d'"
  by (erule Enqueue_Inr) (blast intro: enqueueSQL_inv inflight_enqueue_row)

lemma revive_keys:
  assumes "distinct (map job_key (filter inflight js))" "distinct (map jr_id js)" "r \<in> set js"
    "\<not> inflight r" "\<not> job_conflicts js r" "\<And>x. job_key (f x) = job_key x"
  shows "distinct (map job_key (filter inflight (update_where (\<lambda>x. jr_id x = jr_id r) f js)))"
  using assms(1,2,3,5)
proof (induction js)
  case (Cons y ys)
  show ?case
  proof (cases "jr_id y = jr_id r")
    case True
    then have y: "y = r" using Cons.prems(2,3) by (auto simp: rev_image_eqI)
    have same: "update_where (\<lambda>x. jr_id x = jr_id r) f ys = ys"
      using Cons.prems(2) True by (intro update_where_none) (auto simp: rev_image_eqI)
    have "job_key r \<notin> job_key ` set (filter inflight ys)"
      using Cons.prems(4) by (auto simp: job_conflicts_def)
    with same y Cons.prems(1) assms(4,6) show ?thesis by (auto simp: update_where_def)
  next
    case False
    let ?ys = "update_where (\<lambda>x. jr_id x = jr_id r) f ys"
    have IH: "distinct (map job_key (filter inflight ?ys))"
      using Cons False by (auto simp: job_conflicts_def split: if_splits)
    have "job_key y \<notin> job_key ` set (filter inflight ?ys)" if "inflight y"
    proof
      assume "job_key y \<in> job_key ` set (filter inflight ?ys)"
      then obtain z where z: "z \<in> set ys" "job_key z = job_key y" "jr_id z = jr_id r \<or> inflight z"
        using assms(6) by (auto simp: update_where_def split: if_splits)
      moreover have "jr_id z = jr_id r \<Longrightarrow> z = r"
        using z(1) Cons.prems(2,3) False by (auto simp: distinct_map dest: inj_onD)
      ultimately have "inflight z" using Cons.prems(4) that by (auto simp: job_conflicts_def)
      then have "job_key y \<in> job_key ` set (filter inflight ys)" using z(1,2) by (auto intro: rev_image_eqI)
      then show False using Cons.prems(1) that by simp
    qed
    with IH False show ?thesis by (auto simp: update_where_def)
  qed
qed simp

lemma Retry_inv:
  assumes inv: "db_inv d" and ok: "Retry i now d = Inr (j, d')"
  shows "db_inv d'"
proof -
  let ?p = "\<lambda>x. jr_id x = i \<and> jr_state x = JobStateDead"
  obtain r where r: "find ?p (jobs d) = Some r" "\<not> job_conflicts (jobs d) r"
    and d': "d' = d\<lparr>jobs := update_where ?p (revive_row (instant now)) (jobs d)\<rparr>"
    using ok by (auto simp: Retry_def split: if_splits option.splits sum.splits)
  have r': "r \<in> set (jobs d)" "jr_id r = i" "jr_state r = JobStateDead" using r(1) by (auto simp: find_Some_iff)
  have inj: "distinct (map jr_id (jobs d))" using inv by (simp add: db_inv_def jobs_ok_def)
  then have only: "x = r" if "x \<in> set (jobs d)" "jr_id x = i" for x
    using that r' by (auto simp: distinct_map dest: inj_onD)
  have "?p x \<longleftrightarrow> jr_id x = jr_id r" if "x \<in> set (jobs d)" for x
    using only[OF that] r'(2,3) by metis
  then have same: "update_where ?p (revive_row (instant now)) (jobs d) =
      update_where (\<lambda>x. jr_id x = jr_id r) (revive_row (instant now)) (jobs d)"
    unfolding update_where_def by (intro map_cong[OF refl]) simp
  have "distinct (map job_key (filter inflight (update_where ?p (revive_row (instant now)) (jobs d))))"
    unfolding same using inv r r' by (intro revive_keys) (auto simp: db_inv_def jobs_ok_def inflight_iff)
  moreover have "job_check x \<and> jr_scope x \<in> sc_id ` set (scopes d)"
    if "x \<in> set (update_where ?p (revive_row (instant now)) (jobs d))" for x
  proof -
    obtain y where y: "y \<in> set (jobs d)" "x = (if ?p y then revive_row (instant now) y else y)"
      using \<open>x \<in> _\<close> by (auto simp: update_where_def)
    then have "job_check y" "jr_scope y \<in> sc_id ` set (scopes d)" using inv by (auto simp: db_inv_def jobs_ok_def)
    then show ?thesis unfolding y(2) by (simp add: revive_row_def job_check_iff)
  qed
  moreover have "map jr_id (update_where ?p (revive_row (instant now)) (jobs d)) = map jr_id (jobs d)"
    by (rule map_update_where) simp
  ultimately show ?thesis unfolding d' using inv inj by (intro db_inv_jobs) (simp_all add: jobs_ok_def)
qed

lemma Purge_inv:
  assumes "db_inv d" "Purge req d = Inr (n, d')"
  shows "db_inv d'"
proof -
  obtain p where "d' = d\<lparr>jobs := delete_where p (jobs d)\<rparr>"
    using assms(2) by (auto simp: Purge_def Let_def split: option.splits if_splits)
  moreover have "jobs_ok (d\<lparr>jobs := delete_where p (jobs d)\<rparr>)" if "jobs_ok d"
  proof -
    have "filter inflight (delete_where p (jobs d)) = delete_where p (filter inflight (jobs d))"
      by (simp add: delete_where_def conj_commute)
    then show ?thesis using that by (auto simp: jobs_ok_def intro: distinct_map_delete_where)
  qed
  ultimately show ?thesis using assms(1) by (simp add: db_inv_jobs db_inv_def[of d])
qed

subsection \<open>What each operation does\<close>

lemma filter_id_update:
  assumes "\<And>r. jr_id (f r) = jr_id r"
  shows "filter (\<lambda>r. jr_id r \<in> ids) (update_where (\<lambda>r. jr_id r \<in> ids) f js) =
    map f (filter (\<lambda>r. jr_id r \<in> ids) js)"
  by (induction js) (auto simp: update_where_def assms)

lemma scanJob_rows:
  assumes "\<forall>r \<in> set rs. job_check r"
  shows "\<exists>js. traverse scanJob rs = Inr js \<and> map j_ID js = map jr_id rs"
proof -
  have "traverse scanJob rs = Inr (map (\<lambda>r. projr (scanJob r)) rs)"
    using assms scanJob_ok by (intro traverse_Inr) fastforce
  moreover have "map (j_ID \<circ> (\<lambda>r. projr (scanJob r))) rs = map jr_id rs"
    using assms scanJob_ok by fastforce
  ultimately show ?thesis by (auto simp del: map_eq_conv)
qed

lemma length_chosen:
  assumes "distinct (map k xs)" "set ys \<subseteq> set xs" "distinct (map k ys)"
  shows "length (filter (\<lambda>x. k x \<in> k ` set ys) xs) = length ys"
proof -
  have "set (filter (\<lambda>x. k x \<in> k ` set ys) xs) = set ys"
    using assms(1,2) by (auto simp: distinct_map dest: inj_onD)
  moreover have "distinct (filter (\<lambda>x. k x \<in> k ` set ys) xs)" "distinct ys"
    using assms(1,3) by (auto simp: distinct_map)
  ultimately show ?thesis by (metis distinct_card)
qed

lemma lease_chosen:
  assumes "distinct (map jr_id (jobs d))"
  shows "set (filter (\<lambda>r. jr_id r \<in> jr_id ` set (lease_candidates locked req (jobs d))) (jobs d)) =
      set (lease_candidates locked req (jobs d))"
    and "length (filter (\<lambda>r. jr_id r \<in> jr_id ` set (lease_candidates locked req (jobs d))) (jobs d)) =
      min (lease_limit req) (length (lease_ready locked req (jobs d)))"
proof -
  let ?c = "lease_candidates locked req (jobs d)"
  have sub: "set ?c \<subseteq> set (jobs d)" using in_lease_candidates in_lease_ready by blast
  have "distinct (map jr_id (lease_ready locked req (jobs d)))"
    using assms by (simp add: lease_ready_def distinct_map_filter)
  then have "distinct (map jr_id ?c)" by (simp add: lease_candidates_def take_map[symmetric] distinct_take)
  then have "length (filter (\<lambda>r. jr_id r \<in> jr_id ` set ?c) (jobs d)) = length ?c"
    by (rule length_chosen[OF assms sub])
  then show "length (filter (\<lambda>r. jr_id r \<in> jr_id ` set ?c) (jobs d)) =
      min (lease_limit req) (length (lease_ready locked req (jobs d)))"
    by (simp add: lease_candidates_def min.commute)
  show "set (filter (\<lambda>r. jr_id r \<in> jr_id ` set ?c) (jobs d)) = set ?c"
    using sub candidate_by_id[OF assms] by auto
qed

lemma lease_earliest:
  assumes "r \<in> set (lease_candidates locked req js)" "x \<in> set (lease_ready locked req js)"
    "x \<notin> set (lease_candidates locked req js)"
  shows "jr_run_after r < jr_run_after x \<or> jr_run_after r = jr_run_after x \<and> jr_id r \<le> jr_id x"
proof -
  let ?s = "sort_by lease_le (lease_ready locked req js)"
  have "x \<in> set (take (lease_limit req) ?s) \<union> set (drop (lease_limit req) ?s)"
    using assms(2) by (metis append_take_drop_id set_append set_sort_by)
  then have "x \<in> set (drop (lease_limit req) ?s)" using assms(3) by (auto simp: lease_candidates_def)
  then have "lease_le r x"
    using assms(1) lease_order.take_sort_by_best unfolding lease_candidates_def by blast
  then show ?thesis by (auto simp: lease_le_def then_by_def le_key_def)
qed

lemma Lease_ok:
  fixes req :: LeaseRequest
  assumes inv: "db_inv d" and v: "validateLease req = None" and "db_ready d" "text_ok (lr_Worker req)"
    and f: "f = lease_row (instant (lr_Now req)) (lease_until req) (lr_Worker req)"
    and rows: "rows = filter (\<lambda>r. jr_id r \<in> jr_id ` set (lease_candidates locked req (jobs d))) (jobs d)"
  shows "\<exists>js. Lease text_ok locked req d = Inr (js, d\<lparr>jobs := update_where (\<lambda>r. r \<in> set rows) f (jobs d)\<rparr>)
    \<and> traverse scanJob (map f rows) = Inr js \<and> map j_ID js = map jr_id rows"
proof -
  let ?ids = "jr_id ` set (lease_candidates locked req (jobs d))"
  have "job_check (f r)" if "r \<in> set rows" for r
  proof (rule job_step_check)
    show "job_step r (f r)" using that unfolding f rows by (intro Lease_steps(1)[OF inv]) auto
    show "job_check r" using that inv by (simp add: rows db_inv_def jobs_ok_def)
  qed
  then obtain js where js: "traverse scanJob (map f rows) = Inr js" "map j_ID js = map jr_id (map f rows)"
    using scanJob_rows[of "map f rows"] by auto
  have "update_where (\<lambda>r. jr_id r \<in> ?ids) f (jobs d) = update_where (\<lambda>r. r \<in> set rows) f (jobs d)"
    by (simp add: update_where_def rows)
  then have "Lease text_ok locked req d = Inr (js, d\<lparr>jobs := update_where (\<lambda>r. r \<in> set rows) f (jobs d)\<rparr>)"
    using v assms(3,4) js(1) filter_id_update[of f ?ids "jobs d"] by (simp add: Lease_def Let_def f rows)
  moreover have "map j_ID js = map jr_id rows" using js(2) by (simp add: f comp_def)
  ultimately show ?thesis using js(1) by blast
qed

text \<open>
  C1. A valid lease request on a sound, migrated database is answered. It claims as many ready jobs
  as there are, up to the limit, and of those the ones that became ready first (ties by id): no
  ready job left behind precedes a claimed one. Each claimed job is running, held by the requesting
  worker until the requested instant, with one more attempt counted; every other row is untouched.
\<close>

theorem Lease_correct:
  assumes inv: "db_inv d" and v: "validateLease req = None" and "db_ready d" "text_ok (lr_Worker req)"
  shows "\<exists>js d' claimed. let ready = filter (\<lambda>r. jr_state r = ''pending'' \<and> jr_run_after r \<le> instant (lr_Now req)
          \<and> jr_attempts r < jr_max_attempts r \<and> (lr_Kinds req = [] \<or> jr_kind r \<in> set (lr_Kinds req)) \<and> \<not> locked (jr_id r)) (jobs d);
        leased = (\<lambda>r. r\<lparr>jr_state := ''running'', jr_attempts := jr_attempts r + 1, jr_leased_until := Some (lease_until req),
          jr_leased_by := Some (lr_Worker req), jr_updated_at := instant (lr_Now req)\<rparr>) in
      Lease text_ok locked req d = Inr (js, d')
    \<and> set claimed \<subseteq> set ready \<and> distinct (map jr_id claimed) \<and> length claimed = min (lease_limit req) (length ready)
    \<and> (\<forall>r \<in> set claimed. \<forall>x \<in> set ready - set claimed.
          jr_run_after r < jr_run_after x \<or> jr_run_after r = jr_run_after x \<and> jr_id r \<le> jr_id x)
    \<and> traverse scanJob (map leased claimed) = Inr js
    \<and> d' = d\<lparr>jobs := map (\<lambda>r. if r \<in> set claimed then leased r else r) (jobs d)\<rparr>"
proof -
  let ?f = "lease_row (instant (lr_Now req)) (lease_until req) (lr_Worker req)"
  let ?c = "lease_candidates locked req (jobs d)"
  let ?ids = "jr_id ` set ?c"
  let ?rows = "filter (\<lambda>r. jr_id r \<in> ?ids) (jobs d)"
  have inj: "distinct (map jr_id (jobs d))" using inv by (auto simp: db_inv_def jobs_ok_def)
  note chosen = lease_chosen[OF inj, of locked req]
  obtain js where js: "traverse scanJob (map ?f ?rows) = Inr js"
    and "Lease text_ok locked req d = Inr (js, d\<lparr>jobs := update_where (\<lambda>r. r \<in> set ?rows) ?f (jobs d)\<rparr>)"
    using Lease_ok[where text_ok = text_ok and locked = locked, OF assms refl refl] by blast
  moreover have "set ?rows \<subseteq> set (lease_ready locked req (jobs d))"
    unfolding chosen(1) using in_lease_candidates by blast
  moreover have "distinct (map jr_id ?rows)" using inj by (simp add: distinct_map_filter)
  moreover have "\<forall>r \<in> set ?rows. \<forall>x \<in> set (lease_ready locked req (jobs d)) - set ?rows.
          jr_run_after r < jr_run_after x \<or> jr_run_after r = jr_run_after x \<and> jr_id r \<le> jr_id x"
    unfolding chosen(1) using lease_earliest by blast
  ultimately have "\<exists>js d' claimed. Lease text_ok locked req d = Inr (js, d')
    \<and> set claimed \<subseteq> set (lease_ready locked req (jobs d)) \<and> distinct (map jr_id claimed)
    \<and> length claimed = min (lease_limit req) (length (lease_ready locked req (jobs d)))
    \<and> (\<forall>r \<in> set claimed. \<forall>x \<in> set (lease_ready locked req (jobs d)) - set claimed.
          jr_run_after r < jr_run_after x \<or> jr_run_after r = jr_run_after x \<and> jr_id r \<le> jr_id x)
    \<and> traverse scanJob (map ?f claimed) = Inr js
    \<and> d' = d\<lparr>jobs := update_where (\<lambda>r. r \<in> set claimed) ?f (jobs d)\<rparr>" using js chosen(2) by blast
  moreover have "?f = (\<lambda>r. r\<lparr>jr_state := ''running'', jr_attempts := jr_attempts r + 1, jr_leased_until := Some (lease_until req),
      jr_leased_by := Some (lr_Worker req), jr_updated_at := instant (lr_Now req)\<rparr>)" by (simp add: fun_eq_iff lease_row_def JobStateRunning_def)
  ultimately show ?thesis unfolding Let_def lease_ready_def claimable_def update_where_def conj_assoc JobStatePending_def by (simp only:)
qed

text \<open>A concrete queue: one ready job, one not due yet, one held by another worker.\<close>

definition sample_job :: "uuid \<Rightarrow> JobState \<Rightarrow> int \<Rightarrow> WorkerID option \<Rightarrow> job_row" where
  "sample_job i state due holder =
     \<lparr>jr_id = i, jr_kind = ''encode'', jr_scope = ''user:1'', jr_episodes = [i], jr_state = state,
      jr_attempts = (if state = ''running'' then 1 else 0), jr_max_attempts = 5, jr_run_after = due,
      jr_leased_until = map_option (\<lambda>_. 50) holder, jr_leased_by = holder, jr_last_error = None,
      jr_created_at = 1, jr_updated_at = 1\<rparr>"

definition sample_queue :: db where
  "sample_queue = (empty_db 3)\<lparr>scopes := [\<lparr>sc_id = ''user:1'', sc_last_seq = 0, sc_created_at = 1\<rparr>],
     jobs := [sample_job 1 ''pending'' 10 None, sample_job 2 ''pending'' 99 None,
              sample_job 3 ''running'' 5 (Some ''w2'')]\<rparr>"

lemma sample_queue_inv: "db_inv sample_queue"
  by (simp add: sample_queue_def sample_job_def empty_db_def db_inv_def table_ok_defs scope_check_def
      len_between_def char_length_def job_check_def inflight_def job_key_def ascii_simps)

definition sample_lease :: LeaseRequest where
  "sample_lease = \<lparr>lr_Kinds = [''encode''], lr_Worker = ''w1'', lr_Limit = 8, lr_Duration = 0, lr_Now = Time 20 0\<rparr>"

lemma sample_lease_valid: "validateLease sample_lease = None"
  by (simp add: sample_lease_def validateLease_def JobKind_Valid_check time_simps)

theorem Lease_correct_witness:
  "\<exists>js d' r. Lease ValidString (\<lambda>_. False) sample_lease sample_queue = Inr (js, d') \<and> jobs d' ! 0 = r
    \<and> length js = 1 \<and> jr_state r = ''running'' \<and> jr_leased_by r = Some ''w1'' \<and> jr_attempts r = 1"
proof -
  let ?j = "sample_job 1 ''pending'' 10 None"
  have t: "db_ready sample_queue" "ValidString (lr_Worker sample_lease)"
    by (simp_all add: sample_queue_def empty_db_def sample_lease_def ascii_simps)
  have ready: "filter (\<lambda>r. jr_state r = ''pending'' \<and> jr_run_after r \<le> instant (lr_Now sample_lease) \<and> jr_attempts r < jr_max_attempts r
      \<and> (lr_Kinds sample_lease = [] \<or> jr_kind r \<in> set (lr_Kinds sample_lease)) \<and> \<not> (\<lambda>_. False) (jr_id r)) (jobs sample_queue) = [?j]"
    by (simp add: sample_queue_def sample_job_def sample_lease_def)
  have lim: "lease_limit sample_lease = 8" by (simp add: lease_limit_def sample_lease_def)
  obtain js d' claimed where L: "Lease ValidString (\<lambda>_. False) sample_lease sample_queue = Inr (js, d')"
    and c: "set claimed \<subseteq> {?j}" "length claimed = 1" and js: "length js = length claimed"
    and d': "jobs d' ! 0 = (if jobs sample_queue ! 0 \<in> set claimed then (jobs sample_queue ! 0)\<lparr>jr_state := ''running'',
      jr_attempts := jr_attempts (jobs sample_queue ! 0) + 1, jr_leased_until := Some (lease_until sample_lease),
      jr_leased_by := Some (lr_Worker sample_lease), jr_updated_at := instant (lr_Now sample_lease)\<rparr> else jobs sample_queue ! 0)"
    using Lease_correct[where text_ok = ValidString and locked = "\<lambda>_. False", OF sample_queue_inv sample_lease_valid t]
    unfolding Let_def ready lim by (auto dest!: traverse_length simp: sample_queue_def)
  have "?j \<in> set claimed" "jobs sample_queue ! 0 = ?j"
    using c by (cases claimed; auto simp: sample_queue_def)+
  then show ?thesis using L c(2) js d' by (auto simp: sample_job_def sample_lease_def)
qed

subsection \<open>Finishing\<close>

abbreviation job_at :: "db \<Rightarrow> JobID \<Rightarrow> job_row option" where
  "job_at d i \<equiv> find (\<lambda>r. jr_id r = i) (jobs d)"

lemma find_update_where:
  assumes "\<And>r. k (f r) = k r"
  shows "find (\<lambda>r. k r = i) (update_where p f rs) =
    map_option (\<lambda>r. if p r then f r else r) (find (\<lambda>r. k r = i) rs)"
  by (induction rs) (auto simp: update_where_def assms)

lemma find_keyD: "find (\<lambda>r. k r = i) rs = Some r \<Longrightarrow> r \<in> set rs \<and> k r = i"
  by (auto simp: find_Some_iff)

lemma find_key_mem:
  assumes "distinct (map k rs)" "r \<in> set rs" "k r = i"
  shows "find (\<lambda>r. k r = i) rs = Some r"
  using distinct_map_find[OF assms(1,2)] assms(3) by simp

lemma Job_at:
  assumes "db_inv d" "db_ready d" "i \<noteq> 0"
  shows "Job i d = (case job_at d i of None \<Rightarrow> Inl ErrNotFound | Some r \<Rightarrow> scanJob r)"
    "job_at d i = Some r \<Longrightarrow> \<exists>j. Job i d = Inr j"
proof -
  show eq: "Job i d = (case job_at d i of None \<Rightarrow> Inl ErrNotFound | Some r \<Rightarrow> scanJob r)"
    using assms by (simp add: Job_def id_IsZero_def)
  assume r: "job_at d i = Some r"
  then have "job_check r" using assms(1) by (auto simp: find_Some_iff db_inv_def jobs_ok_def)
  then show "\<exists>j. Job i d = Inr j" using scanJob_ok r eq by fastforce
qed

lemma held_iff:
  assumes "db_inv d"
  shows "(\<exists>r \<in> set (jobs d). held_by i w r) \<longleftrightarrow> (\<exists>r. job_at d i = Some r \<and> held_by i w r)"
  using assms find_key_mem[of jr_id "jobs d" _ i]
  by (auto simp: held_by_def db_inv_def jobs_ok_def find_Some_iff) metis+

lemma explainLostLease_eq:
  assumes "db_inv d" "db_ready d" "i \<noteq> 0"
  shows "explainLostLease i d = (if job_at d i = None then ErrNotFound else ErrJobNotLeased)"
  using Job_at[OF assms] by (cases "job_at d i") (auto simp: explainLostLease_def)

text \<open>
  C7. Only the worker that holds a job's lease can finish it. For the holder \<^verbatim>\<open>Succeed\<close> makes the job
  done and \<^verbatim>\<open>Fail\<close> hands it back, dead if that was its last attempt; every other job keeps its row.
  For anyone else both calls change nothing and report \<open>ErrJobNotLeased\<close>, or \<open>ErrNotFound\<close> when there
  is no such job.
\<close>

theorem only_holder_finishes:
  assumes inv: "db_inv d" and v: "validateJobUpdate i w t = None" and r: "\<not> IsZero retryAt"
    and ready: "db_ready d" and tok: "text_ok w" "pred_option text_ok (truncateError cause)"
  shows "case job_at d i of
      None \<Rightarrow> Succeed text_ok i w t d = Inl ErrNotFound \<and> Fail text_ok i w cause t retryAt d = Inl ErrNotFound
    | Some r \<Rightarrow>
        if jr_state r = JobStateRunning \<and> jr_leased_by r = Some w
        then (\<exists>d1 d2. Succeed text_ok i w t d = Inr ((), d1) \<and> job_at d1 i = Some (succeed_row (instant t) r)
               \<and> Fail text_ok i w cause t retryAt d = Inr ((), d2)
               \<and> job_at d2 i = Some (fail_row (instant t) (instant retryAt) (truncateError cause) r)
               \<and> (\<forall>k. k \<noteq> i \<longrightarrow> job_at d1 k = job_at d k \<and> job_at d2 k = job_at d k))
        else Succeed text_ok i w t d = Inl ErrJobNotLeased \<and> Fail text_ok i w cause t retryAt d = Inl ErrJobNotLeased"
proof -
  have i: "i \<noteq> 0" using v by (simp add: validateJobUpdate_def id_IsZero_def)
  have S: "Succeed text_ok i w t d =
      (if \<exists>r \<in> set (jobs d). held_by i w r
       then Inr ((), d\<lparr>jobs := update_where (held_by i w) (succeed_row (instant t)) (jobs d)\<rparr>)
       else Inl (explainLostLease i d))"
    using v ready tok by (simp add: Succeed_def)
  have F: "Fail text_ok i w cause t retryAt d =
      (if \<exists>r \<in> set (jobs d). held_by i w r
       then Inr ((), d\<lparr>jobs := update_where (held_by i w)
          (fail_row (instant t) (instant retryAt) (truncateError cause)) (jobs d)\<rparr>)
       else Inl (explainLostLease i d))"
    using v r ready tok by (simp add: Fail_def pred_option_def)

  have skip: "map_option (\<lambda>r. if held_by i w r then f r else r) (job_at d k) = job_at d k" if "k \<noteq> i" for f k
    using that by (cases "job_at d k") (auto simp: held_by_def dest: find_keyD)
  show ?thesis
  proof (cases "job_at d i")
    case None
    then show ?thesis using held_iff[OF inv] explainLostLease_eq[OF inv ready i] by (simp add: S F)
  next
    case (Some r)
    then have id: "jr_id r = i" by (auto simp: find_Some_iff)
    show ?thesis
    proof (cases "jr_state r = JobStateRunning \<and> jr_leased_by r = Some w")
      case True
      then have "held_by i w r" by (simp add: held_by_def id)
      then show ?thesis using True Some held_iff[OF inv] skip by (simp add: S F find_update_where)
    next
      case False
      then have "\<not> held_by i w r" by (auto simp: held_by_def)
      then show ?thesis using False Some held_iff[OF inv] explainLostLease_eq[OF inv ready i]
        by (simp add: S F)
    qed
  qed
qed

theorem only_holder_finishes_witness:
  "Succeed ValidString 3 ''w1'' (Time 30 0) sample_queue = Inl ErrJobNotLeased
   \<and> (\<exists>d1. Succeed ValidString 3 ''w2'' (Time 30 0) sample_queue = Inr ((), d1))"
proof -
  have v: "validateJobUpdate 3 ''w1'' (Time 30 0) = None" "validateJobUpdate 3 ''w2'' (Time 30 0) = None"
    by (simp_all add: validateJobUpdate_def id_IsZero_def time_simps)
  have at: "job_at sample_queue 3 = Some (sample_job 3 ''running'' 5 (Some ''w2''))"
    by (simp add: sample_queue_def sample_job_def)
  have pre: "\<not> IsZero (Time 40 0)" "db_ready sample_queue" "ValidString ''w1''" "ValidString ''w2''"
    "pred_option ValidString (truncateError None)"
    by (simp_all add: IsZero_def sample_queue_def empty_db_def truncateError_def ascii_simps)
  show ?thesis
    using only_holder_finishes[OF sample_queue_inv v(1) pre(1,2,3,5)]
      only_holder_finishes[OF sample_queue_inv v(2) pre(1,2,4,5)]
    by (auto simp: at sample_job_def JobStateRunning_def)
qed

subsection \<open>Retries end\<close>

text \<open>
  Between two revivals a job moves through finitely many states: a claim spends an attempt, and
  attempts are bounded. \<open>budget\<close> is what is left to spend.
\<close>

definition budget :: "job_row \<Rightarrow> nat" where
  "budget r = 2 * nat (jr_max_attempts r - jr_attempts r) + (if jr_state r = JobStateRunning then 1 else 0)"

lemma job_step_budget:
  assumes "job_step r s" "job_check r" "jr_state r \<noteq> JobStateDead"
  shows "budget s < budget r"
  using assms(1) by (rule job_step_cases) (use assms in \<open>auto simp: budget_def row_defs job_check_iff\<close>)

inductive job_run :: "job_row \<Rightarrow> nat \<Rightarrow> job_row \<Rightarrow> bool" where
  start: "job_run r 0 r"
| claimed: "job_run r n s \<Longrightarrow> job_step s u \<Longrightarrow> jr_state s = JobStatePending \<Longrightarrow> job_run r (Suc n) u"
| moved: "job_run r n s \<Longrightarrow> job_step s u \<Longrightarrow> jr_state s = JobStateRunning \<Longrightarrow> job_run r n u"

lemma job_run_attempts:
  assumes "job_run r n s" "job_check r"
  shows "job_check s \<and> jr_attempts s = jr_attempts r + int n \<and> jr_max_attempts s = jr_max_attempts r"
  using assms
proof (induction rule: job_run.induct)
  case (claimed r n s u)
  from claimed.hyps(2) show ?case
    by (rule job_step_cases) (use claimed job_step_check in \<open>auto simp: row_defs\<close>)
next
  case (moved r n s u)
  from moved.hyps(2) show ?case
    by (rule job_step_cases) (use moved job_step_check in \<open>auto simp: row_defs\<close>)
qed simp



subsection \<open>Reclaim, Enqueue, Retry, Purge\<close>

text \<open>
  After \<^verbatim>\<open>Reclaim\<close> no running job holds a lease that expired before that instant; each one that
  did is pending again if it has attempts left and dead otherwise, with its attempts as they were;
  all other jobs are untouched, and the number reported is the number released.
\<close>

theorem Reclaim_correct:
  assumes "db_ready d" "\<not> IsZero now"
  shows "\<exists>d'. Reclaim now d = Inr (length (filter (expired (instant now)) (jobs d)), d')
    \<and> \<not> (\<exists>r \<in> set (jobs d'). expired (instant now) r)
    \<and> list_all2 (\<lambda>r s. if expired (instant now) r
          then jr_state s = (if jr_attempts r < jr_max_attempts r then JobStatePending else JobStateDead)
            \<and> jr_leased_by s = None \<and> jr_leased_until s = None \<and> jr_attempts s = jr_attempts r
            \<and> jr_id s = jr_id r \<and> job_key s = job_key r \<and> jr_run_after s = jr_run_after r
          else s = r) (jobs d) (jobs d')"
  using assms
  by (auto simp: Reclaim_def update_where_def list_all2_conv_all_nth reclaim_row_def expired_def job_key_def)

theorem Reclaim_correct_witness:
  "\<exists>d'. Reclaim (Time 60 0) sample_queue = Inr (length (filter (expired (instant (Time 60 0))) (jobs sample_queue)), d')
    \<and> \<not> (\<exists>r \<in> set (jobs d'). expired (instant (Time 60 0)) r)"
  using Reclaim_correct[of sample_queue "Time 60 0"]
  by (auto simp: sample_queue_def empty_db_def IsZero_def)

lemma find_append_None: "find p xs = None \<Longrightarrow> find p (xs @ ys) = find p ys"
  by (induction xs) (auto split: if_splits)

lemma enqueueSQL_again:
  assumes "db_inv d" "enqueueSQL text_ok r d = Inr (x, d')" "inflight r" "job_key s = job_key r"
    "jr_scope s = jr_scope r" "job_check s"
  shows "enqueueSQL text_ok s d' = Inr (x, d')"
proof (cases "find (\<lambda>x. inflight x \<and> job_key x = job_key r) (jobs d)")
  case None
  have "x = r" "d' = d\<lparr>jobs := jobs d @ [r]\<rparr>" "db_ready d" "text_ok (jr_scope r)"
    using assms(2) None by (auto simp: enqueueSQL_def stmt_def split: if_splits)
  moreover have "find (\<lambda>x. inflight x \<and> job_key x = job_key r) (jobs d @ [r]) = Some r"
    using None assms(3) by (simp add: find_append_None)
  ultimately show ?thesis using assms(4-6) by (simp add: enqueueSQL_def stmt_def)
next
  case (Some y)
  then have "x = y" "d' = d" "db_ready d" "text_ok (jr_scope r)"
    using assms(2) by (auto simp: enqueueSQL_def stmt_def split: if_splits)
  with Some assms(4-6) show ?thesis by (simp add: enqueueSQL_def stmt_def)
qed

text \<open>
  Enqueueing is idempotent while the work is outstanding: enqueueing the same work again, later
  and with another freshly minted id, returns the very same job and changes nothing.
\<close>

theorem Enqueue_idempotent:
  assumes "db_inv d" "Enqueue text_ok i job now d = Inr (j, d')" "\<not> IsZero later"
  shows "Enqueue text_ok k job later d' = Inr (j, d')"
proof -
  obtain r where v: "validateNewJob job now = None" and r: "scanJob r = Inr j"
    and ok: "enqueueSQL text_ok (enqueue_row i job now) d = Inr (r, d')"
    using Enqueue_Inr[OF assms(2)] by metis
  have "job_check (enqueue_row i job now)"
    using ok by (auto simp: enqueueSQL_def stmt_def split: if_splits)
  then have "job_check (enqueue_row k job later)" by (simp add: job_check_iff enqueue_row_def Let_def)
  then have "enqueueSQL text_ok (enqueue_row k job later) d' = Inr (r, d')"
    by (intro enqueueSQL_again[OF assms(1) ok]) (simp_all add: enqueue_row_def Let_def job_key_def inflight_iff)
  moreover have "validateNewJob job later = None" using v assms(3) by (simp add: validateNewJob_def)
  ultimately show ?thesis using r by (simp add: Enqueue_def)
qed

definition sample_new_job :: NewJob where
  "sample_new_job = \<lparr>nj_Kind = ''extract'', nj_Scope = ''user:1'', nj_Episodes = [7],
     nj_RunAfter = zero_time, nj_MaxAttempts = 0\<rparr>"

lemma sample_enqueue: "\<exists>j d'. Enqueue ValidString 11 sample_new_job (Time 20 0) sample_queue = Inr (j, d')"
proof -
  let ?r = "enqueue_row 11 sample_new_job (Time 20 0)"
  have v: "validateNewJob sample_new_job (Time 20 0) = None"
    by (simp add: sample_new_job_def validateNewJob_def ScopeID_Validate_None JobKind_Valid_check
        IsZero_def id_IsZero_def ascii_simps)
  have chk: "job_check ?r"
    by (simp add: job_check_iff enqueue_row_def sample_new_job_def Let_def JobKind_Valid_check DefaultMaxAttempts_def)
  have "enqueueSQL ValidString ?r sample_queue = Inr (?r, sample_queue\<lparr>jobs := jobs sample_queue @ [?r]\<rparr>)"
    using chk by (simp add: enqueueSQL_def stmt_def)
      (simp add: sample_queue_def empty_db_def enqueue_row_def Let_def sample_new_job_def job_key_def
        sample_job_def ascii_simps)
  then show ?thesis using v scanJob_ok[OF chk] by (auto simp: Enqueue_def)
qed

theorem Enqueue_idempotent_witness:
  "\<exists>j d'. Enqueue ValidString 11 sample_new_job (Time 20 0) sample_queue = Inr (j, d')
    \<and> Enqueue ValidString 12 sample_new_job (Time 25 0) d' = Inr (j, d')"
proof -
  obtain j d' where "Enqueue ValidString 11 sample_new_job (Time 20 0) sample_queue = Inr (j, d')"
    using sample_enqueue by blast
  moreover from this have "Enqueue ValidString 12 sample_new_job (Time 25 0) d' = Inr (j, d')"
    by (rule Enqueue_idempotent[OF sample_queue_inv]) (simp add: IsZero_def)
  ultimately show ?thesis by blast
qed

lemma Retry_find:
  assumes "db_inv d" "job_at d i = Some r"
  shows "find (\<lambda>x. jr_id x = i \<and> jr_state x = JobStateDead) (jobs d) =
    (if jr_state r = JobStateDead then Some r else None)"
proof -
  have inj: "distinct (map jr_id (jobs d))" using assms(1) by (simp add: db_inv_def jobs_ok_def)
  have r: "r \<in> set (jobs d)" "jr_id r = i" using find_keyD[OF assms(2)] by auto
  have only: "x = r" if "x \<in> set (jobs d)" "jr_id x = i" for x
    using that r inj by (auto simp: distinct_map dest: inj_onD)
  show ?thesis
  proof (cases "find (\<lambda>x. jr_id x = i \<and> jr_state x = JobStateDead) (jobs d)")
    case None
    then show ?thesis using r by (auto simp: find_None_iff)
  next
    case (Some y)
    then have "y \<in> set (jobs d)" "jr_id y = i" "jr_state y = JobStateDead" by (auto simp: find_Some_iff)
    then show ?thesis using only Some by auto
  qed
qed

text \<open>
  \<^verbatim>\<open>Retry\<close> revives exactly the dead: it fails with \<open>ErrNotFound\<close> for a job that does not exist, with
  \<open>ErrJobNotDead\<close> for one in any other state, with \<open>ErrJobOutstanding\<close> when the same work is already
  pending or running, and otherwise returns the job to pending with its attempts reset, ready now,
  and its last error kept.
\<close>

theorem Retry_correct:
  assumes inv: "db_inv d" and "db_ready d" "i \<noteq> 0" "\<not> IsZero now"
  shows "case job_at d i of
      None \<Rightarrow> Retry i now d = Inl ErrNotFound
    | Some r \<Rightarrow>
        if jr_state r \<noteq> JobStateDead then Retry i now d = Inl ErrJobNotDead
        else if \<exists>x \<in> set (jobs d). inflight x \<and> job_key x = job_key r then Retry i now d = Inl ErrJobOutstanding
        else \<exists>j d'. Retry i now d = Inr (j, d') \<and> job_at d' i = Some (revive_row (instant now) r)
               \<and> j_State j = JobStatePending \<and> j_Attempts j = 0 \<and> j_RunAfter j = Time (instant now) 0
               \<and> j_LastError j = (case jr_last_error r of None \<Rightarrow> '''' | Some m \<Rightarrow> m)"
proof (cases "job_at d i")
  case None
  then have "find (\<lambda>x. jr_id x = i \<and> jr_state x = JobStateDead) (jobs d) = None" by (auto simp: find_None_iff)
  then show ?thesis using None assms Job_at(1)[OF inv assms(2,3)]
    by (simp add: Retry_def id_IsZero_def explainNotRevived_def)
next
  case (Some r)
  note F = Retry_find[OF inv Some]
  have chk: "job_check r" using find_keyD[OF Some] inv by (auto simp: db_inv_def jobs_ok_def)
  have "\<exists>j. Job i d = Inr j" by (rule Job_at(2)[OF inv assms(2,3) Some])
  then have nd: "jr_state r \<noteq> JobStateDead \<Longrightarrow> Retry i now d = Inl ErrJobNotDead"
    using assms F by (auto simp: Retry_def id_IsZero_def explainNotRevived_def)
  obtain j where j: "scanJob (revive_row (instant now) r) = Inr j"
    using chk by (auto simp: scanJob_def job_check_iff revive_row_def)
  have row: "find (\<lambda>r. jr_id r = i) (update_where (\<lambda>x. jr_id x = i \<and> jr_state x = JobStateDead)
      (revive_row (instant now)) (jobs d)) = Some (revive_row (instant now) r)" if "jr_state r = JobStateDead"
    using find_keyD[OF Some] Some that by (simp add: find_update_where)
  have "j_State j = JobStatePending \<and> j_Attempts j = 0 \<and> j_RunAfter j = Time (instant now) 0
      \<and> j_LastError j = (case jr_last_error r of None \<Rightarrow> '''' | Some m \<Rightarrow> m)"
    using j by (auto simp: scanJob_def revive_row_def split: if_splits)
  then show ?thesis
    using Some assms F nd j row by (auto simp: Retry_def id_IsZero_def job_conflicts_def)
qed

theorem Retry_correct_witness: "Retry 3 (Time 60 0) sample_queue = Inl ErrJobNotDead"
proof -
  have "job_at sample_queue 3 = Some (sample_job 3 ''running'' 5 (Some ''w2''))"
    by (simp add: sample_queue_def sample_job_def)
  then show ?thesis
    using Retry_correct[OF sample_queue_inv, of 3 "Time 60 0"]
    by (simp add: sample_queue_def empty_db_def IsZero_def sample_job_def JobStateDead_def)
qed

text \<open>
  \<^verbatim>\<open>Purge\<close> never removes work that is still owed: every job that is pending or running survives, as
  does every job updated at or after the horizon; it removes at most the limit, and it reports
  exactly how many rows went.
\<close>

theorem Purge_keeps_owed_work:
  assumes inv: "db_inv d" and ok: "Purge req d = Inr (n, d')"
  shows "filter inflight (jobs d') = filter inflight (jobs d)
    \<and> filter (\<lambda>r. instant (pr_Before req) \<le> jr_updated_at r) (jobs d') =
       filter (\<lambda>r. instant (pr_Before req) \<le> jr_updated_at r) (jobs d)
    \<and> int n \<le> purge_limit req \<and> n + length (jobs d') = length (jobs d)"
proof -
  let ?doomed = "purge_select req (jobs d)"
  let ?p = "\<lambda>r. jr_id r \<in> jr_id ` set ?doomed"
  have v: "PurgeRequest_Validate req = None" and n: "n = length (filter ?p (jobs d))"
    and d': "jobs d' = delete_where ?p (jobs d)"
    using ok by (simp_all add: Purge_def Let_def split: option.splits if_splits) auto
  have inj: "distinct (map jr_id (jobs d))" using inv by (simp add: db_inv_def jobs_ok_def)
  have "set (purge_states req) \<subseteq> {JobStateDone, JobStateDead}"
    using v by (auto simp: PurgeRequest_Validate_def purge_states_def)
  then have doom: "x \<in> set (jobs d)" "\<not> inflight x" "jr_updated_at x < instant (pr_Before req)"
    if "x \<in> set ?doomed" for x
    using that by (auto simp: purge_select_def inflight_iff dest!: in_set_takeD)
  then have gone: "\<not> inflight r" "jr_updated_at r < instant (pr_Before req)" if "r \<in> set (jobs d)" "?p r" for r
    using that inj by (auto simp: distinct_map dest: inj_onD)
  have keep: "filter q (jobs d') = filter q (jobs d)" if "\<And>r. r \<in> set (jobs d) \<Longrightarrow> q r \<Longrightarrow> \<not> ?p r" for q
    using that unfolding d' delete_where_def filter_filter by (intro filter_cong) auto
  have "distinct (map jr_id ?doomed)"
    using inj by (simp add: purge_select_def take_map[symmetric] distinct_take distinct_map_filter)
  then have "n = length ?doomed" unfolding n using doom(1) by (intro length_chosen[OF inj]) auto
  moreover have "0 \<le> purge_limit req"
    using v by (simp add: PurgeRequest_Validate_def DefaultPurgeLimit_def purge_limit_def)
  moreover have "length ?doomed \<le> nat (purge_limit req)" by (simp add: purge_select_def)
  ultimately have "int n \<le> purge_limit req" by linarith
  moreover have "n + length (jobs d') = length (jobs d)" unfolding n d' by (rule length_delete_where)
  moreover have "filter inflight (jobs d') = filter inflight (jobs d)" using gone(1) by (intro keep) blast
  moreover have "filter (\<lambda>r. instant (pr_Before req) \<le> jr_updated_at r) (jobs d') =
       filter (\<lambda>r. instant (pr_Before req) \<le> jr_updated_at r) (jobs d)"
    using gone(2) by (intro keep) (meson not_le)
  ultimately show ?thesis by blast
qed

theorem Purge_keeps_owed_work_witness:
  "\<exists>n d'. Purge \<lparr>pr_Before = Time 60 0, pr_States = [], pr_Limit = 0\<rparr> sample_queue = Inr (n, d')
    \<and> filter inflight (jobs d') = filter inflight (jobs sample_queue)"
proof -
  have "PurgeRequest_Validate \<lparr>pr_Before = Time 60 0, pr_States = [], pr_Limit = 0\<rparr> = None"
    by (simp add: PurgeRequest_Validate_def IsZero_def)
  moreover have "db_ready sample_queue" by (simp add: sample_queue_def empty_db_def)
  ultimately obtain n d' where
    P: "Purge \<lparr>pr_Before = Time 60 0, pr_States = [], pr_Limit = 0\<rparr> sample_queue = Inr (n, d')"
    by (simp add: Purge_def Let_def)
  from Purge_keeps_owed_work[OF sample_queue_inv P] P show ?thesis by blast
qed

subsection \<open>The stored failure message\<close>

definition long_message :: string where
  "long_message = replicate (maxLastErrorLen - 1) (CHR ''a'') @ [CHR 0xC3, CHR 0xA9]"

lemma ValidString_a: "ValidString (replicate n (CHR ''a''))"
  by (rule ascii_ValidString) (simp add: ascii_def list_all_iff)

lemma long_message_valid: "ValidString long_message"
proof -
  have "utf8_valid (bytes_of [CHR 0xC3, CHR 0xA9])"
    by (simp add: bytes_of_def utf8_valid_step cont_def)
  then have "ValidString [CHR 0xC3, CHR 0xA9]" by (simp only: ValidString_def)
  then show ?thesis by (simp only: long_message_def ValidString_append[OF ValidString_a])
qed

lemma truncated_invalid:
  "\<exists>m. truncateError (Some long_message) = Some m \<and> \<not> ValidString m"
proof -
  have "0 < maxLastErrorLen" by (simp add: maxLastErrorLen_def)
  then have t: "truncateError (Some long_message) =
      Some (replicate (maxLastErrorLen - 1) (CHR ''a'') @ CHR 0xC3 # ''... (truncated)'')"
    by (simp add: truncateError_def long_message_def)
  have "\<not> utf8_valid (bytes_of (CHR 0xC3 # ''... (truncated)''))"
    by (simp add: bytes_of_def utf8_valid_step cont_def)
  then have "\<not> ValidString (replicate (maxLastErrorLen - 1) (CHR ''a'') @ CHR 0xC3 # ''... (truncated)'')"
    by (simp only: ValidString_append[OF ValidString_a]) (simp add: ValidString_def)
  with t show ?thesis by blast
qed

text \<open>
  A failure message is cut after 2000 bytes wherever that falls. A valid message whose 2000th
  byte is inside a character becomes invalid UTF-8, which the server refuses, so \<^verbatim>\<open>Fail\<close> itself fails
  and the job stays leased until its lease expires: its retry time and its error are both lost.
\<close>

theorem Fail_cuts_characters:
  assumes "text_rule text_ok" "validateJobUpdate i w t = None" "\<not> IsZero retryAt" "db_ready d"
  shows "ValidString long_message
    \<and> Fail text_ok i w (Some long_message) t retryAt d = Inl (PgErr pg_invalid_text)"
  using assms long_message_valid truncated_invalid by (auto simp: Fail_def text_rule_def)

theorem Fail_cuts_characters_witness:
  "ValidString long_message
    \<and> Fail (\<lambda>s. ValidString s \<and> CHR 0x00 \<notin> set s) 3 ''w2'' (Some long_message) (Time 30 0) (Time 40 0) sample_queue
      = Inl (PgErr pg_invalid_text)"
  by (rule Fail_cuts_characters)
     (simp_all add: text_rule_def validateJobUpdate_def id_IsZero_def IsZero_def sample_queue_def empty_db_def)

end
