(* ===== verification/Ports.thy ===== *)
theory Ports
  imports Erasure Tokens Fusion Job_Queue
begin

section \<open>The ports\<close>

text \<open>
  The interfaces \<^verbatim>\<open>Store\<close>, \<^verbatim>\<open>Queue\<close>, \<^verbatim>\<open>FactStore\<close>, \<^verbatim>\<open>Embedder\<close>, \<^verbatim>\<open>Extractor\<close> and \<^verbatim>\<open>Clock\<close> as records of
  their methods, over a type \<open>'s\<close> for the state behind them. A method that only reads is a function of
  the state; a method that writes is atomic and returns the new state, or an error and no change. The
  type assertions \<^verbatim>\<open>store.(Queue)\<close> and \<^verbatim>\<open>store.(FactStore)\<close> are two optional fields of the store. The
  embedder and the extractor are model providers; what they answer may depend on the state, so two
  calls with the same input may differ.

  \<open>pg_store\<close>, \<open>pg_queue\<close> and \<open>pg_facts\<close> are the PostgreSQL adapter behind these interfaces. \<open>server\<close>
  bundles the parameters that stand for the database server, \<open>world\<close> the state: the database and a
  counter of calls, which numbers the ids minted and the readings of the clock.
\<close>

record 's Queue =
  q_Enqueue :: "NewJob \<Rightarrow> gotime \<Rightarrow> 's \<Rightarrow> err + Job \<times> 's"
  q_Lease :: "LeaseRequest \<Rightarrow> 's \<Rightarrow> err + Job list \<times> 's"
  q_Succeed :: "JobID \<Rightarrow> WorkerID \<Rightarrow> gotime \<Rightarrow> 's \<Rightarrow> err + unit \<times> 's"
  q_Fail :: "JobID \<Rightarrow> WorkerID \<Rightarrow> string option \<Rightarrow> gotime \<Rightarrow> gotime \<Rightarrow> 's \<Rightarrow> err + unit \<times> 's"
  q_Reclaim :: "gotime \<Rightarrow> 's \<Rightarrow> err + nat \<times> 's"
  q_Job :: "JobID \<Rightarrow> 's \<Rightarrow> err + Job"

record 's FactStore =
  fp_ApplyExtraction :: "ExtractCommand \<Rightarrow> 's \<Rightarrow> err + Fact list \<times> 's"
  fp_Facts :: "FactQuery \<Rightarrow> 's \<Rightarrow> err + Fact list"
  fp_Fact :: "ScopeID \<Rightarrow> FactID \<Rightarrow> 's \<Rightarrow> err + Fact"

record 's Store =
  st_Append :: "AppendCommand \<Rightarrow> 's \<Rightarrow> err + AppendResult \<times> 's"
  st_Episode :: "ScopeID \<Rightarrow> EpisodeID \<Rightarrow> 's \<Rightarrow> err + Episode"
  st_Replay :: "ScopeID \<Rightarrow> int \<Rightarrow> int \<Rightarrow> 's \<Rightarrow> err + Episode list"
  st_SearchSemantic :: "SemanticQuery \<Rightarrow> 's \<Rightarrow> err + Candidate list"
  st_SearchLexical :: "LexicalQuery \<Rightarrow> 's \<Rightarrow> err + Candidate list"
  st_PutEncoding :: "Encoding \<Rightarrow> 's \<Rightarrow> err + unit \<times> 's"
  st_Forget :: "ForgetRequest \<Rightarrow> 's \<Rightarrow> err + ForgetResult \<times> 's"
  st_asQueue :: "'s Queue option"
  st_asFactStore :: "'s FactStore option"

record 's Embedder =
  em_EmbedDocuments :: "string list \<Rightarrow> 's \<Rightarrow> err + Vector list"
  em_EmbedQuery :: "string \<Rightarrow> 's \<Rightarrow> err + Vector"
  em_Dimensions :: int
  em_Model :: ModelID

record 's Extractor =
  ex_Extract :: "ExtractRequest \<Rightarrow> 's \<Rightarrow> err + ExtractResult"
  ex_Model :: ExtractorID

type_synonym 's Clock = "'s \<Rightarrow> gotime \<times> 's"

subsection \<open>The PostgreSQL adapter behind the ports\<close>

record server =
  sv_text_ok :: "string \<Rightarrow> bool"
  sv_coll :: "string \<Rightarrow> string \<Rightarrow> bool"
  sv_rank :: "string \<Rightarrow> string \<Rightarrow> rat"
  sv_lex_match :: "string \<Rightarrow> string \<Rightarrow> bool"
  sv_cosd :: "Vector \<Rightarrow> Vector \<Rightarrow> rat"
  sv_rnd :: "rat \<Rightarrow> rat"
  sv_scan_encodings :: "nat \<Rightarrow> (encoding_row \<times> episode_row) scan"
  sv_scan_episodes :: "nat \<Rightarrow> episode_row scan"
  sv_mint :: "nat \<Rightarrow> string \<Rightarrow> nat \<Rightarrow> uuid"
  sv_locked :: "nat \<Rightarrow> JobID \<Rightarrow> bool"
  sv_now :: "nat \<Rightarrow> gotime"

record world =
  w_db :: db
  w_calls :: nat

definition on_db :: "(nat \<Rightarrow> db \<Rightarrow> err + 'a \<times> db) \<Rightarrow> world \<Rightarrow> err + 'a \<times> world" where
  "on_db f w = (case f (w_calls w) (w_db w) of Inl e \<Rightarrow> Inl e
     | Inr (a, d) \<Rightarrow> Inr (a, \<lparr>w_db = d, w_calls = w_calls w + 1\<rparr>))"

definition read_db :: "(nat \<Rightarrow> db \<Rightarrow> err + 'a) \<Rightarrow> world \<Rightarrow> err + 'a" where
  "read_db f w = f (w_calls w) (w_db w)"

definition pg_clock :: "server \<Rightarrow> world Clock" where
  "pg_clock sv w = (sv_now sv (w_calls w), w\<lparr>w_calls := w_calls w + 1\<rparr>)"

definition pg_queue :: "server \<Rightarrow> world Queue" where
  "pg_queue sv =
     \<lparr>q_Enqueue = \<lambda>job now. on_db (\<lambda>c. Enqueue (sv_text_ok sv) (sv_mint sv c ''jobs'' 0) job now),
      q_Lease = \<lambda>req. on_db (\<lambda>c. Lease (sv_text_ok sv) (sv_locked sv c) req),
      q_Succeed = \<lambda>i worker ts. on_db (\<lambda>_. Succeed (sv_text_ok sv) i worker ts),
      q_Fail = \<lambda>i worker cause ts retryAt. on_db (\<lambda>_. Fail (sv_text_ok sv) i worker cause ts retryAt),
      q_Reclaim = \<lambda>now. on_db (\<lambda>_. Reclaim now),
      q_Job = \<lambda>i. read_db (\<lambda>_. Job i)\<rparr>"

definition pg_facts :: "server \<Rightarrow> world FactStore" where
  "pg_facts sv =
     \<lparr>fp_ApplyExtraction = \<lambda>cmd. on_db (\<lambda>c. ApplyExtraction (sv_text_ok sv) (sv_coll sv) (sv_mint sv c ''facts'') cmd),
      fp_Facts = \<lambda>q. read_db (\<lambda>_. Facts (sv_text_ok sv) (sv_coll sv) (sv_rank sv) q),
      fp_Fact = \<lambda>scope i. read_db (\<lambda>_. Fact scope i)\<rparr>"

definition pg_store :: "server \<Rightarrow> world Store" where
  "pg_store sv =
     \<lparr>st_Append = \<lambda>cmd. on_db (\<lambda>c. Append (sv_text_ok sv) (sv_mint sv c ''episodes'') (sv_mint sv c ''jobs'') cmd),
      st_Episode = \<lambda>scope i. read_db (\<lambda>_. Episode scope i),
      st_Replay = \<lambda>scope afterSeq limit. read_db (\<lambda>_. Replay scope afterSeq limit),
      st_SearchSemantic = \<lambda>q. read_db (\<lambda>c. SearchSemantic (sv_text_ok sv) (sv_cosd sv) (sv_rnd sv) (sv_scan_encodings sv c) q),
      st_SearchLexical = \<lambda>q. read_db (\<lambda>c. SearchLexical (sv_text_ok sv) (sv_lex_match sv) (sv_rank sv) (sv_scan_episodes sv c) q),
      st_PutEncoding = \<lambda>enc. on_db (\<lambda>_. PutEncoding (sv_text_ok sv) enc),
      st_Forget = \<lambda>req. on_db (\<lambda>_. Forget req),
      st_asQueue = Some (pg_queue sv), st_asFactStore = Some (pg_facts sv)\<rparr>"

text \<open>What the development relies on of the server: scans that invent no row, a total collation.\<close>

definition server_ok :: "server \<Rightarrow> bool" where
  "server_ok sv \<longleftrightarrow> total_preorder (sv_coll sv) \<and>
     (\<forall>c. sound_scan (sv_scan_encodings sv c)) \<and> (\<forall>c. sound_scan (sv_scan_episodes sv c))"

text \<open>The state invariant: the database is consistent and no stored window ends at the zero time.\<close>

definition windows_ok :: "db \<Rightarrow> bool" where
  "windows_ok d \<longleftrightarrow> (\<forall>f \<in> set (facts d). fw_upper f \<noteq> Some 0)"

definition world_ok :: "world \<Rightarrow> bool" where
  "world_ok w \<longleftrightarrow> db_inv (w_db w) \<and> windows_ok (w_db w)"

lemma on_db_Inr:
  assumes "on_db f w = Inr (a, w')"
  shows "f (w_calls w) (w_db w) = Inr (a, w_db w')" "w_calls w' = w_calls w + 1"
  using assms by (auto simp: on_db_def split: sum.splits)

lemma world_ok_facts_same: "world_ok w \<Longrightarrow> db_inv d \<Longrightarrow> facts d = facts (w_db w) \<Longrightarrow> w_db w' = d \<Longrightarrow> world_ok w'"
  by (simp add: world_ok_def windows_ok_def)

subsection \<open>Windows across an extraction\<close>

lemma applyRetractions_windows:
  assumes "applyRetractions scope ts rs fs = Inr fs'" "\<forall>r \<in> set rs. instant (r_At r) \<noteq> 0" "\<forall>f \<in> set fs. fw_upper f \<noteq> Some 0"
  shows "\<forall>f \<in> set fs'. fw_upper f \<noteq> Some 0"
  using assms
proof (induction scope ts rs fs rule: applyRetractions.induct)
  case (2 scope ts r rs fs)
  have "\<forall>f \<in> set (retractSQL (r_Fact r) scope (instant (r_At r)) ts fs). fw_upper f \<noteq> Some 0"
    using "2.prems"(2,3) by (auto simp: retractSQL_map close_if_def close_row_def)
  with 2 show ?case by (auto split: if_splits option.splits)
qed simp

lemma applyAssertionsSQL_windows:
  assumes sql: "applyAssertionsSQL text_ok mint scope extractor ids ts as known fs = Inr fs'"
    and w: "\<forall>f \<in> set fs. fw_upper f \<noteq> Some 0"
  shows "\<forall>f \<in> set fs'. fw_upper f \<noteq> Some 0"
proof -
  let ?new = "filter (\<lambda>a. identity_of a \<notin> updated_triples scope extractor as fs) as"
  let ?rows = "map (\<lambda>k. assert_row (mint k) scope extractor ids ts (?new ! k)) [0..<length ?new]"
  let ?fs = "refresh_facts scope extractor ids ts as fs"
  have "insert_facts ?fs ?rows = Inr fs'"
    using sql by (auto simp: applyAssertionsSQL_def Let_def split: if_splits sum.splits)
  then have fs': "fs' = ?fs @ ?rows" by (rule insert_facts_Inr(1))
  have "fw_upper f \<noteq> Some 0" if "f \<in> set ?fs" for f
    using that w by (elim in_refresh) auto
  moreover have "fw_upper f \<noteq> Some 0" if "f \<in> set ?rows" for f
    using that by (auto simp: assert_row_def upper_of_def IsOpen_def IsZero_def split: if_splits)
  ultimately show ?thesis by (auto simp: fs')
qed

lemma ApplyExtraction_windows:
  assumes inv: "db_inv d" and w: "windows_ok d" and ok: "ApplyExtraction text_ok coll mint cmd d = Inr (out, d')"
  shows "windows_ok d'"
proof (rule ApplyExtraction_Inr[OF ok])
  fix as found marked d1 fs
  assume v: "ExtractCommand_Validate cmd = None"
    and mark: "markExtractionSQL text_ok (xc_Episodes cmd) (xc_Scope cmd) (xc_Extractor cmd) (length as) (xc_At cmd) d = Inr ((found, marked), d1)"
    and d': "d' = d1\<lparr>facts := fs\<rparr>" and ap: "apply_if_marked text_ok mint cmd as marked d1 = Inr fs"
  have f1: "facts d1 = facts d" by (simp add: mark_ok(4)[OF inv mark])
  have "\<forall>r \<in> set (xc_Retract cmd). Retraction_Validate r = None"
    using v by (auto simp: ExtractCommand_Validate_def)
  then have at: "\<forall>r \<in> set (xc_Retract cmd). instant (r_At r) \<noteq> 0" by (simp add: Retraction_Validate_def IsZero_def)
  have "\<forall>f \<in> set fs. fw_upper f \<noteq> Some 0"
  proof (cases "marked > 0")
    case True
    then obtain fs1 where
      R: "applyRetractions (xc_Scope cmd) (instant (xc_At cmd)) (xc_Retract cmd) (facts d1) = Inr fs1"
      and A: "applyAssertions text_ok mint cmd as d1 fs1 = Inr fs"
      using ap by (auto simp: apply_if_marked_def split: sum.splits)
    have "\<forall>f \<in> set fs1. fw_upper f \<noteq> Some 0" using applyRetractions_windows[OF R at] w by (simp add: f1 windows_ok_def)
    then show ?thesis using A applyAssertionsSQL_windows by (auto simp: applyAssertions_def split: if_splits sum.splits)
  next
    case False
    then show ?thesis using ap w by (simp add: apply_if_marked_def f1 windows_ok_def)
  qed
  then show ?thesis by (simp add: d' windows_ok_def)
qed

end
