(* ===== verification/Memory.thy ===== *)
theory Memory
  imports Ports
begin

section \<open>Memory: the write and read loops\<close>

text \<open>
  \<^verbatim>\<open>mempher.go\<close> and \<^verbatim>\<open>Memory.Forget\<close> of \<^verbatim>\<open>forget.go\<close>, over the ports. A nil interface value is \<open>None\<close>.
  Reading the clock advances the state. \<open>Recall\<close> runs its channels in goroutines, each writing to a
  slot of its own: \<open>views i\<close> is the state the \<open>i\<close>-th channel reads, so channels may see the store at
  different moments, \<open>elapsed i\<close> its measured duration, and \<open>ctx_err\<close> what \<^verbatim>\<open>ctx.Err()\<close> answers once
  all have returned. Token counts are unbounded integers: the stored texts are at most a megabyte.
\<close>

record 's Config =
  cfg_Store :: "'s Store option"
  cfg_Queue :: "'s Queue option"
  cfg_Embedder :: "'s Embedder option"
  cfg_Extractor :: "'s Extractor option"
  cfg_FactStore :: "'s FactStore option"
  cfg_Clock :: "'s Clock option"
  cfg_TokenCounter :: "(string \<Rightarrow> int) option"
  cfg_Fusion :: FusionOptions
  cfg_DefaultLimit :: int

record 's Memory =
  m_store :: "'s Store"
  m_queue :: "'s Queue"
  m_embedder :: "'s Embedder"
  m_extractor :: "'s Extractor option"
  m_facts :: "'s FactStore option"
  m_clock :: "'s Clock"
  m_tokens :: "string \<Rightarrow> int"
  m_fusion :: FusionOptions
  m_defaultLimit :: int

subsection \<open>Assembling\<close>

definition resolveFactStore ::
  "'s Store \<Rightarrow> 's FactStore option \<Rightarrow> 's Extractor option \<Rightarrow> err + 's FactStore option" where
  "resolveFactStore store explicit extractor =
     (case extractor of
        None \<Rightarrow> if explicit \<noteq> None then Inl ErrInvalidConfig else Inr None
      | Some _ \<Rightarrow>
          (case explicit of
             Some fs \<Rightarrow> Inr (Some fs)
           | None \<Rightarrow> (case st_asFactStore store of None \<Rightarrow> Inl ErrInvalidConfig | Some fs \<Rightarrow> Inr (Some fs))))"

definition resolveQueue :: "'s Store \<Rightarrow> 's Queue option \<Rightarrow> err + 's Queue" where
  "resolveQueue store queue =
     (case queue of Some q \<Rightarrow> Inr q
      | None \<Rightarrow> (case st_asQueue store of None \<Rightarrow> Inl ErrInvalidConfig | Some q \<Rightarrow> Inr q))"

definition New :: "'s Clock \<Rightarrow> 's Config \<Rightarrow> err + 's Memory" where
  "New systemClock cfg =
     (case cfg_Store cfg of None \<Rightarrow> Inl ErrInvalidConfig | Some store \<Rightarrow>
      case cfg_Embedder cfg of None \<Rightarrow> Inl ErrInvalidConfig | Some embedder \<Rightarrow>
      if em_Dimensions embedder \<le> 0 then Inl ErrInvalidConfig
      else if em_Model embedder = '''' then Inl ErrInvalidConfig
      else case resolveQueue store (cfg_Queue cfg) of Inl e \<Rightarrow> Inl e | Inr queue \<Rightarrow>
      case resolveFactStore store (cfg_FactStore cfg) (cfg_Extractor cfg) of Inl e \<Rightarrow> Inl e | Inr fp \<Rightarrow>
      if (case cfg_Extractor cfg of Some x \<Rightarrow> ex_Model x = '''' | None \<Rightarrow> False) then Inl ErrInvalidConfig
      else case resolve (cfg_Fusion cfg) of Inl e \<Rightarrow> Inl e | Inr fusion \<Rightarrow>
      if cfg_DefaultLimit cfg < 0 then Inl ErrInvalidConfig
      else Inr \<lparr>m_store = store, m_queue = queue, m_embedder = embedder, m_extractor = cfg_Extractor cfg,
                m_facts = fp,
                m_clock = (case cfg_Clock cfg of None \<Rightarrow> systemClock | Some c \<Rightarrow> c),
                m_tokens = (case cfg_TokenCounter cfg of None \<Rightarrow> CountTokens \<lparr>BytesPerToken = 0\<rparr> | Some t \<Rightarrow> t),
                m_fusion = fusion,
                m_defaultLimit = (if cfg_DefaultLimit cfg = 0 then DefaultRecallLimit else cfg_DefaultLimit cfg)\<rparr>)"

subsection \<open>Writing\<close>

definition jobsFor :: "'s Memory \<Rightarrow> ScopeID \<Rightarrow> NewJob list" where
  "jobsFor m scope =
     (let job = \<lambda>kind. \<lparr>nj_Kind = kind, nj_Scope = scope, nj_Episodes = [], nj_RunAfter = zero_time, nj_MaxAttempts = 0\<rparr>
      in job JobKindEncode # (if m_facts m \<noteq> None then [job JobKindExtract] else []))"

definition new_episode :: "gotime \<Rightarrow> AppendRequest \<Rightarrow> NewEpisode" where
  "new_episode now req =
     \<lparr>ne_Scope = ar_Scope req, ne_Content = ar_Content req, ne_Role = ar_Role req, ne_Actor = ar_Actor req,
      ne_Source = ar_Source req, ne_OccurredAt = (if IsZero (ar_OccurredAt req) then now else ar_OccurredAt req),
      ne_IngestedAt = now, ne_Binding = ar_Binding req\<rparr>"

definition panic_index :: err where "panic_index = Foreign ''index out of range''"

definition Memory_Append :: "'s Memory \<Rightarrow> AppendRequest \<Rightarrow> 's \<Rightarrow> (err + Episode) \<times> 's" where
  "Memory_Append m req s =
     (case AppendRequest_Validate req of Some e \<Rightarrow> (Inl e, s)
      | None \<Rightarrow>
          let (now, s1) = m_clock m s in
          case st_Append (m_store m) \<lparr>ac_Episodes = [new_episode now req], ac_Jobs = jobsFor m (ar_Scope req)\<rparr> s1 of
            Inl e \<Rightarrow> (Inl e, s1)
          | Inr (result, s2) \<Rightarrow>
              (case as_Episodes result of [] \<Rightarrow> (Inl panic_index, s2) | ep # _ \<Rightarrow> (Inr ep, s2)))"

definition batch_check :: "ScopeID \<Rightarrow> AppendRequest \<Rightarrow> err option" where
  "batch_check scope req = first_err
     [AppendRequest_Validate req, reject_if (ar_Scope req \<noteq> scope) ErrInvalidConfig]"

definition AppendBatch :: "'s Memory \<Rightarrow> AppendRequest list \<Rightarrow> 's \<Rightarrow> (err + Episode list) \<times> 's" where
  "AppendBatch m reqs s =
     (if length reqs = 0 then (Inl ErrInvalidConfig, s)
      else if length reqs > MaxAppendBatch then (Inl ErrInvalidConfig, s)
      else let (now, s1) = m_clock m s; scope = ar_Scope (hd reqs) in
           case first_err (map (batch_check scope) reqs) of
             Some e \<Rightarrow> (Inl e, s1)
           | None \<Rightarrow>
               (case st_Append (m_store m) \<lparr>ac_Episodes = map (new_episode now) reqs, ac_Jobs = jobsFor m scope\<rparr> s1 of
                  Inl e \<Rightarrow> (Inl e, s1)
                | Inr (result, s2) \<Rightarrow> (Inr (as_Episodes result), s2)))"

definition Memory_Forget :: "'s Memory \<Rightarrow> ForgetRequest \<Rightarrow> 's \<Rightarrow> err + ForgetResult \<times> 's" where
  "Memory_Forget m req s =
     (case ForgetRequest_Validate req of Some e \<Rightarrow> Inl e | None \<Rightarrow> st_Forget (m_store m) req s)"

subsection \<open>Reading\<close>

record recallPlan =
  rp_episodes :: ChannelQuery
  rp_facts :: FactQuery
  rp_text :: string

definition resolveChannels :: "'s Memory \<Rightarrow> Channel list \<Rightarrow> Channel list" where
  "resolveChannels m requested =
     (if length requested = 0
      then if m_facts m = None then [ChannelSemantic, ChannelLexical]
           else [ChannelSemantic, ChannelLexical, ChannelFact]
      else foldl (\<lambda>out c. if c \<in> set out then out else out @ [c]) [] requested)"

definition runChannel :: "'s Memory \<Rightarrow> Channel \<Rightarrow> recallPlan \<Rightarrow> 's \<Rightarrow> err + Candidate list \<times> Fact list" where
  "runChannel m channel plan s =
     (if channel = ChannelSemantic then
        (case em_EmbedQuery (m_embedder m) (rp_text plan) s of Inl e \<Rightarrow> Inl e
         | Inr vector \<Rightarrow>
             (case st_SearchSemantic (m_store m)
                     (ChannelQuery.extend (rp_episodes plan) \<lparr>sq_Vector = vector, sq_Model = em_Model (m_embedder m)\<rparr>) s of
                Inl e \<Rightarrow> Inl e | Inr candidates \<Rightarrow> Inr (candidates, [])))
      else if channel = ChannelLexical then
        (case st_SearchLexical (m_store m) (ChannelQuery.extend (rp_episodes plan) \<lparr>lq_Text = rp_text plan\<rparr>) s of
           Inl e \<Rightarrow> Inl e | Inr candidates \<Rightarrow> Inr (candidates, []))
      else if channel = ChannelFact then
        (case m_facts m of None \<Rightarrow> Inl ErrInvalidConfig
         | Some fp \<Rightarrow> (case fp_Facts fp (rp_facts plan) s of Inl e \<Rightarrow> Inl e | Inr fs \<Rightarrow> Inr ([], fs)))
      else Inl ErrInvalidChannel)"

definition channel_result :: "Channel \<Rightarrow> int \<Rightarrow> err + Candidate list \<times> Fact list \<Rightarrow> channelResult" where
  "channel_result channel took r =
     (case r of
        Inl e \<Rightarrow> \<lparr>ch_channel = channel, ch_candidates = [], ch_facts = [], ch_elapsed = took, ch_err = Some e\<rparr>
      | Inr (candidates, fs) \<Rightarrow>
          \<lparr>ch_channel = channel, ch_candidates = candidates, ch_facts = fs, ch_elapsed = took, ch_err = None\<rparr>)"

definition runChannels :: "'s Memory \<Rightarrow> (nat \<Rightarrow> 's) \<Rightarrow> (nat \<Rightarrow> int) \<Rightarrow> Channel list \<Rightarrow> recallPlan \<Rightarrow> channelResult list" where
  "runChannels m views elapsed channels plan =
     map (\<lambda>i. channel_result (channels ! i) (elapsed i) (runChannel m (channels ! i) plan (views i))) [0..<length channels]"

definition allFailed :: "channelResult list \<Rightarrow> err option" where
  "allFailed results =
     (if list_ex (\<lambda>r. ch_err r = None) results then None
      else if results = [] then None
      else Some (Join (ErrAllChannelsFailed # map (\<lambda>r. the (ch_err r)) results)))"

definition report_of :: "channelResult \<Rightarrow> ChannelReport" where
  "report_of r = \<lparr>cr_Channel = ch_channel r, cr_Candidates = length (ch_candidates r) + length (ch_facts r),
     cr_Duration = ch_elapsed r, cr_Err = ch_err r\<rparr>"

text \<open>The two loops that spend the budget. The state is what has been kept, its cost, and \<open>Truncated\<close>.\<close>

definition over_budget :: "int \<Rightarrow> int \<Rightarrow> int \<Rightarrow> bool" where
  "over_budget maxTokens spent cost \<longleftrightarrow> 0 < maxTokens \<and> maxTokens < spent + cost"

fun keep_facts :: "(string \<Rightarrow> int) \<Rightarrow> int \<Rightarrow> int \<Rightarrow> Fact list \<Rightarrow> RecalledFact list \<times> int \<times> bool \<Rightarrow> RecalledFact list \<times> int \<times> bool" where
  "keep_facts cnt maxTokens factLimit [] st = st"
| "keep_facts cnt maxTokens factLimit (f # fs) (out, spent, truncated) =
     (if factLimit \<le> int (length out) then (out, spent, True)
      else let cost = cnt (f_Statement f) in
        if over_budget maxTokens spent cost then (out, spent, True)
        else keep_facts cnt maxTokens factLimit fs (out @ [\<lparr>rf_Fact = f, rf_Tokens = cost\<rparr>], spent + cost, truncated))"

fun keep_episodes ::
  "(string \<Rightarrow> int) \<Rightarrow> int \<Rightarrow> int \<Rightarrow> RecalledEpisode list \<Rightarrow> RecalledEpisode list \<times> int \<times> bool \<Rightarrow> RecalledEpisode list \<times> int \<times> bool" where
  "keep_episodes cnt maxTokens limit [] st = st"
| "keep_episodes cnt maxTokens limit (recalled # rs) (out, spent, truncated) =
     (if limit \<le> int (length out) then (out, spent, True)
      else let cost = cnt (ep_Content (re_Episode recalled)) in
        if over_budget maxTokens spent cost then (out, spent, True)
        else keep_episodes cnt maxTokens limit rs (out @ [recalled\<lparr>re_Tokens := cost\<rparr>], spent + cost, truncated))"

definition recall_plan :: "'s Memory \<Rightarrow> RecallRequest \<Rightarrow> gotime \<Rightarrow> int \<Rightarrow> int \<Rightarrow> recallPlan" where
  "recall_plan m req asOf depth factLimit =
     \<lparr>rp_episodes = \<lparr>cq_Scope = rr_Scope req, cq_AsOf = asOf, cq_OccurredFrom = rr_OccurredFrom req,
        cq_OccurredTo = rr_OccurredTo req, cq_Binding = rr_Binding req, cq_Roles = rr_Roles req, cq_Limit = depth\<rparr>,
      rp_facts = \<lparr>fq_Scope = rr_Scope req,
        fq_Extractor = (case m_extractor m of None \<Rightarrow> '''' | Some x \<Rightarrow> ex_Model x),
        fq_AsOf = asOf, fq_At = (if IsZero (rr_OccurredTo req) then asOf else rr_OccurredTo req),
        fq_IncludeClosed = False, fq_Subjects = rr_Subjects req, fq_Predicates = [],
        fq_MinConfidence = rr_MinFactConfidence req, fq_Text = rr_Query req, fq_Limit = factLimit\<rparr>,
      rp_text = rr_Query req\<rparr>"

definition recall_limit :: "'s Memory \<Rightarrow> RecallRequest \<Rightarrow> int" where
  "recall_limit m req = (if rr_Limit req = 0 then m_defaultLimit m else rr_Limit req)"

definition recall_depth :: "'s Memory \<Rightarrow> RecallRequest \<Rightarrow> int" where
  "recall_depth m req =
     max (if rr_CandidatesPerChannel req = 0 then DefaultCandidatesPerChannel else rr_CandidatesPerChannel req) (recall_limit m req)"

definition recall_factLimit :: "RecallRequest \<Rightarrow> int" where
  "recall_factLimit req = (if rr_FactLimit req = 0 then DefaultFactLimit else rr_FactLimit req)"

definition assemble ::
  "(rat \<Rightarrow> rat) \<Rightarrow> 's Memory \<Rightarrow> RecallRequest \<Rightarrow> gotime \<Rightarrow> channelResult list \<Rightarrow> Recollection" where
  "assemble rnd m req asOf results =
     (let (kept, spent, cut) = foldl (\<lambda>st r. keep_facts (m_tokens m) (rr_MaxTokens req) (recall_factLimit req) (ch_facts r) st)
                                  ([], 0, False) results;
          (eps, spent', cut') = keep_episodes (m_tokens m) (rr_MaxTokens req) (recall_limit m req)
                                  (fuse rnd results (m_fusion m)) ([], spent, cut)
      in \<lparr>rc_Scope = rr_Scope req, rc_AsOf = asOf, rc_Facts = kept, rc_Episodes = eps,
          rc_Channels = map report_of results, rc_Tokens = spent', rc_Truncated = cut'\<rparr>)"

definition Recall ::
  "(rat \<Rightarrow> rat) \<Rightarrow> (nat \<Rightarrow> 's) \<Rightarrow> (nat \<Rightarrow> int) \<Rightarrow> err option \<Rightarrow> 's Memory \<Rightarrow> RecallRequest \<Rightarrow> 's \<Rightarrow> (err + Recollection) \<times> 's" where
  "Recall rnd views elapsed ctx_err m req s =
     (case RecallRequest_Validate req of Some e \<Rightarrow> (Inl e, s)
      | None \<Rightarrow>
          let (asOf, s1) = (if IsZero (rr_AsOf req) then m_clock m s else (rr_AsOf req, s));
              plan = recall_plan m req asOf (recall_depth m req) (recall_factLimit req);
              results = runChannels m views elapsed (resolveChannels m (rr_Channels req)) plan
          in (case ctx_err of Some e \<Rightarrow> Inl e
              | None \<Rightarrow> (case allFailed results of Some e \<Rightarrow> Inl e
                        | None \<Rightarrow> Inr (assemble rnd m req asOf results)), s1))"

subsection \<open>The budget\<close>

text \<open>
  Both loops are one loop: \<open>keep\<close> takes elements while neither the limit nor the budget stops it. It
  keeps a prefix; the tokens are the sum of what was kept; and it says it truncated exactly when it
  stopped early.
\<close>

fun keep :: "('a \<Rightarrow> int) \<Rightarrow> ('a \<Rightarrow> 'b) \<Rightarrow> int \<Rightarrow> int \<Rightarrow> 'a list \<Rightarrow> 'b list \<times> int \<times> bool \<Rightarrow> 'b list \<times> int \<times> bool" where
  "keep cost mk mx lm [] st = st"
| "keep cost mk mx lm (x # xs) (out, spent, tr) =
     (if lm \<le> int (length out) \<or> over_budget mx spent (cost x) then (out, spent, True)
      else keep cost mk mx lm xs (out @ [mk x], spent + cost x, tr))"

definition priced :: "(string \<Rightarrow> int) \<Rightarrow> RecalledEpisode \<Rightarrow> RecalledEpisode" where
  "priced cnt r = r\<lparr>re_Tokens := cnt (ep_Content (re_Episode r))\<rparr>"

definition priced_fact :: "(string \<Rightarrow> int) \<Rightarrow> Fact \<Rightarrow> RecalledFact" where
  "priced_fact cnt f = \<lparr>rf_Fact = f, rf_Tokens = cnt (f_Statement f)\<rparr>"

lemma keep_facts_keep: "keep_facts cnt mx lm fs st = keep (\<lambda>f. cnt (f_Statement f)) (priced_fact cnt) mx lm fs st"
  by (induction cnt mx lm fs st rule: keep_facts.induct) (simp_all add: Let_def priced_fact_def)

lemma keep_episodes_keep:
  "keep_episodes cnt mx lm rs st = keep (\<lambda>r. cnt (ep_Content (re_Episode r))) (priced cnt) mx lm rs st"
  by (induction cnt mx lm rs st rule: keep_episodes.induct) (simp_all add: Let_def priced_def)

lemma keep_prefix:
  "\<exists>n \<le> length xs. keep cost mk mx lm xs (out, spent, tr) =
     (out @ map mk (take n xs), spent + sum_list (map cost (take n xs)), tr \<or> n < length xs)"
proof (induction xs arbitrary: out spent)
  case (Cons x xs)
  show ?case
  proof (cases "lm \<le> int (length out) \<or> over_budget mx spent (cost x)")
    case True
    then show ?thesis by (intro exI[of _ 0]) simp
  next
    case False
    obtain n where "n \<le> length xs" "keep cost mk mx lm xs (out @ [mk x], spent + cost x, tr) =
        ((out @ [mk x]) @ map mk (take n xs), spent + cost x + sum_list (map cost (take n xs)), tr \<or> n < length xs)"
      using Cons.IH[of "out @ [mk x]" "spent + cost x"] by blast
    then show ?thesis using False by (intro exI[of _ "Suc n"]) (simp add: add.assoc)
  qed
qed simp

lemma keep_budget:
  "keep cost mk mx lm xs (out, spent, tr) = (out', spent', tr') \<Longrightarrow> 0 < mx \<Longrightarrow> spent \<le> mx \<Longrightarrow> spent' \<le> mx"
proof (induction xs arbitrary: out spent)
  case (Cons x xs)
  then show ?case
    by (cases "lm \<le> int (length out) \<or> over_budget mx spent (cost x)")
       (simp_all add: Cons.IH[of "out @ [mk x]" "spent + cost x"] over_budget_def)
qed simp

lemma keep_limit:
  "keep cost mk mx lm xs (out, spent, tr) = (out', spent', tr') \<Longrightarrow> int (length out) \<le> lm \<Longrightarrow> int (length out') \<le> lm"
proof (induction xs arbitrary: out spent)
  case (Cons x xs)
  then show ?case
    by (cases "lm \<le> int (length out) \<or> over_budget mx spent (cost x)")
       (simp_all add: Cons.IH[of "out @ [mk x]" "spent + cost x"])
qed simp

lemmas keep_bounds = keep_budget keep_limit

text \<open>Over several channels: the facts kept are a subsequence of the facts found, priced.\<close>

lemma keep_fold:
  assumes "foldl (\<lambda>st r. keep cost mk mx lm (g r) st) (out, spent, tr) rs = (out', spent', tr')"
  shows "\<exists>xs. subseq xs (concat (map g rs)) \<and> out' = out @ map mk xs \<and> spent' = spent + sum_list (map cost xs)
      \<and> (\<not> tr' \<longrightarrow> xs = concat (map g rs) \<and> \<not> tr)"
    "0 < mx \<Longrightarrow> spent \<le> mx \<Longrightarrow> spent' \<le> mx" "int (length out) \<le> lm \<Longrightarrow> int (length out') \<le> lm"
proof -
  show "\<exists>xs. subseq xs (concat (map g rs)) \<and> out' = out @ map mk xs \<and> spent' = spent + sum_list (map cost xs)
      \<and> (\<not> tr' \<longrightarrow> xs = concat (map g rs) \<and> \<not> tr)"
    using assms
  proof (induction rs arbitrary: out spent tr)
    case (Cons r rs)
    obtain n where n: "n \<le> length (g r)" and k: "keep cost mk mx lm (g r) (out, spent, tr) =
        (out @ map mk (take n (g r)), spent + sum_list (map cost (take n (g r))), tr \<or> n < length (g r))"
      using keep_prefix by blast
    have rest: "foldl (\<lambda>st r. keep cost mk mx lm (g r) st)
        (out @ map mk (take n (g r)), spent + sum_list (map cost (take n (g r))), tr \<or> n < length (g r)) rs = (out', spent', tr')"
      using Cons.prems k by simp
    obtain xs where xs: "subseq xs (concat (map g rs))" "out' = (out @ map mk (take n (g r))) @ map mk xs"
      "spent' = spent + sum_list (map cost (take n (g r))) + sum_list (map cost xs)"
      "\<not> tr' \<longrightarrow> xs = concat (map g rs) \<and> \<not> (tr \<or> n < length (g r))"
      using Cons.IH[OF rest] by blast
    have "subseq (take n (g r) @ xs) (g r @ concat (map g rs))"
      using xs(1) by (intro list_emb_append_mono[OF prefix_imp_subseq[OF take_is_prefix]])
    then show ?case using xs n by (intro exI[of _ "take n (g r) @ xs"]) (auto simp: add.assoc)
  qed simp
  show "0 < mx \<Longrightarrow> spent \<le> mx \<Longrightarrow> spent' \<le> mx"
    using assms
  proof (induction rs arbitrary: out spent tr)
    case (Cons r rs)
    obtain o1 s1 c1 where k: "keep cost mk mx lm (g r) (out, spent, tr) = (o1, s1, c1)" by (rule prod_cases3)
    with Cons keep_bounds(1)[OF k] show ?case by simp
  qed simp
  show "int (length out) \<le> lm \<Longrightarrow> int (length out') \<le> lm"
    using assms
  proof (induction rs arbitrary: out spent tr)
    case (Cons r rs)
    obtain o1 s1 c1 where k: "keep cost mk mx lm (g r) (out, spent, tr) = (o1, s1, c1)" by (rule prod_cases3)
    with Cons keep_bounds(2)[OF k] show ?case by simp
  qed simp
qed


definition recall_results :: "'s Memory \<Rightarrow> (nat \<Rightarrow> 's) \<Rightarrow> (nat \<Rightarrow> int) \<Rightarrow> RecallRequest \<Rightarrow> gotime \<Rightarrow> channelResult list" where
  "recall_results m views elapsed req asOf =
     runChannels m views elapsed (resolveChannels m (rr_Channels req))
       (recall_plan m req asOf (recall_depth m req) (recall_factLimit req))"

lemma Recall_Inr:
  assumes "Recall rnd views elapsed ctx_err m req s = (Inr out, s')"
  shows "RecallRequest_Validate req = None" "ctx_err = None"
    "out = assemble rnd m req (rc_AsOf out) (recall_results m views elapsed req (rc_AsOf out))"
    "allFailed (recall_results m views elapsed req (rc_AsOf out)) = None"
    "rc_AsOf out = (if IsZero (rr_AsOf req) then fst (m_clock m s) else rr_AsOf req)"
proof -
  show v: "RecallRequest_Validate req = None" and c: "ctx_err = None"
    using assms by (auto simp: Recall_def Let_def split: option.splits prod.splits)
  let ?asOf = "if IsZero (rr_AsOf req) then fst (m_clock m s) else rr_AsOf req"
  have "out = assemble rnd m req ?asOf (recall_results m views elapsed req ?asOf)
      \<and> allFailed (recall_results m views elapsed req ?asOf) = None"
    using assms v c
    by (cases "m_clock m s") (auto simp: Recall_def Let_def recall_results_def split: option.splits if_splits)
  moreover have "rc_AsOf (assemble rnd m req t rs) = t" for t rs by (simp add: assemble_def split: prod.splits)
  ultimately show "rc_AsOf out = ?asOf"
    "out = assemble rnd m req (rc_AsOf out) (recall_results m views elapsed req (rc_AsOf out))"
    "allFailed (recall_results m views elapsed req (rc_AsOf out)) = None" by metis+
qed

lemma assemble_props:
  assumes "0 \<le> recall_limit m req" "0 \<le> recall_factLimit req" and out_def: "out = assemble rnd m req asOf results"
  shows "\<exists>n fs. n \<le> length (fuse rnd results (m_fusion m))
     \<and> rc_Episodes out = map (priced (m_tokens m)) (take n (fuse rnd results (m_fusion m)))
     \<and> rc_Facts out = map (priced_fact (m_tokens m)) fs \<and> subseq fs (concat (map ch_facts results))
     \<and> rc_Tokens out = sum_list (map rf_Tokens (rc_Facts out)) + sum_list (map re_Tokens (rc_Episodes out))
     \<and> (\<not> rc_Truncated out \<longrightarrow> n = length (fuse rnd results (m_fusion m)) \<and> fs = concat (map ch_facts results))"
    "int (length (rc_Episodes out)) \<le> recall_limit m req" "int (length (rc_Facts out)) \<le> recall_factLimit req"
    "0 < rr_MaxTokens req \<Longrightarrow> rc_Tokens out \<le> rr_MaxTokens req"
proof -
  let ?cf = "\<lambda>f. m_tokens m (f_Statement f)" and ?ce = "\<lambda>r. m_tokens m (ep_Content (re_Episode r))"
  let ?fused = "fuse rnd results (m_fusion m)"
  obtain kept spent tr where F: "foldl (\<lambda>st r. keep ?cf (priced_fact (m_tokens m)) (rr_MaxTokens req) (recall_factLimit req) (ch_facts r) st)
      ([], 0, False) results = (kept, spent, tr)" by (rule prod_cases3)
  obtain eps spent' tr' where E: "keep ?ce (priced (m_tokens m)) (rr_MaxTokens req) (recall_limit m req) ?fused ([], spent, tr) = (eps, spent', tr')"
    by (rule prod_cases3)
  have out: "out = \<lparr>rc_Scope = rr_Scope req, rc_AsOf = asOf, rc_Facts = kept, rc_Episodes = eps,
      rc_Channels = map report_of results, rc_Tokens = spent', rc_Truncated = tr'\<rparr>"
    by (simp add: out_def assemble_def keep_facts_keep keep_episodes_keep F E)
  obtain fs where fs: "subseq fs (concat (map ch_facts results))" "kept = map (priced_fact (m_tokens m)) fs"
    "spent = sum_list (map ?cf fs)" "\<not> tr \<longrightarrow> fs = concat (map ch_facts results)"
    using keep_fold(1)[OF F] by auto
  obtain n where n: "n \<le> length ?fused" "eps = map (priced (m_tokens m)) (take n ?fused)"
    "spent' = spent + sum_list (map ?ce (take n ?fused))" "tr' = (tr \<or> n < length ?fused)"
    using keep_prefix[of ?fused ?ce "priced (m_tokens m)" "rr_MaxTokens req" "recall_limit m req" "[]" spent tr] E by auto
  show "\<exists>n fs. n \<le> length ?fused \<and> rc_Episodes out = map (priced (m_tokens m)) (take n ?fused)
     \<and> rc_Facts out = map (priced_fact (m_tokens m)) fs \<and> subseq fs (concat (map ch_facts results))
     \<and> rc_Tokens out = sum_list (map rf_Tokens (rc_Facts out)) + sum_list (map re_Tokens (rc_Episodes out))
     \<and> (\<not> rc_Truncated out \<longrightarrow> n = length ?fused \<and> fs = concat (map ch_facts results))"
    using fs n by (intro exI[of _ n] exI[of _ fs]) (auto simp: out comp_def priced_def priced_fact_def)
  show "int (length (rc_Episodes out)) \<le> recall_limit m req" "int (length (rc_Facts out)) \<le> recall_factLimit req"
    "0 < rr_MaxTokens req \<Longrightarrow> rc_Tokens out \<le> rr_MaxTokens req"
    using keep_limit[OF E] keep_budget[OF E] keep_fold(2,3)[OF F] assms(1,2) by (simp_all add: out)
qed

text \<open>What a constructed memory satisfies, whatever the configuration.\<close>

lemma New_Inr_cases:
  assumes "New clk cfg = Inr m"
  obtains store embedder queue fp fusion where "cfg_Store cfg = Some store" "cfg_Embedder cfg = Some embedder"
    "0 < em_Dimensions embedder" "em_Model embedder \<noteq> ''''" "resolveQueue store (cfg_Queue cfg) = Inr queue"
    "resolveFactStore store (cfg_FactStore cfg) (cfg_Extractor cfg) = Inr fp"
    "resolve (cfg_Fusion cfg) = Inr fusion" "0 \<le> cfg_DefaultLimit cfg"
    "m = \<lparr>m_store = store, m_queue = queue, m_embedder = embedder, m_extractor = cfg_Extractor cfg, m_facts = fp,
       m_clock = (case cfg_Clock cfg of None \<Rightarrow> clk | Some c \<Rightarrow> c),
       m_tokens = (case cfg_TokenCounter cfg of None \<Rightarrow> CountTokens \<lparr>BytesPerToken = 0\<rparr> | Some t \<Rightarrow> t),
       m_fusion = fusion, m_defaultLimit = (if cfg_DefaultLimit cfg = 0 then DefaultRecallLimit else cfg_DefaultLimit cfg)\<rparr>"
proof -
  obtain store embedder where se: "cfg_Store cfg = Some store" "cfg_Embedder cfg = Some embedder"
    using assms by (cases "cfg_Store cfg"; cases "cfg_Embedder cfg") (simp_all add: New_def)
  have dims: "\<not> em_Dimensions embedder \<le> 0" "em_Model embedder \<noteq> ''''"
    using assms by (simp_all add: New_def se split: if_splits)
  obtain queue fp where qf: "resolveQueue store (cfg_Queue cfg) = Inr queue"
    "resolveFactStore store (cfg_FactStore cfg) (cfg_Extractor cfg) = Inr fp"
    using assms dims
    by (cases "resolveQueue store (cfg_Queue cfg)"; cases "resolveFactStore store (cfg_FactStore cfg) (cfg_Extractor cfg)")
       (simp_all add: New_def se)
  obtain fusion where f: "resolve (cfg_Fusion cfg) = Inr fusion"
    using assms dims qf by (cases "resolve (cfg_Fusion cfg)") (simp_all add: New_def se split: if_splits)
  have "\<not> cfg_DefaultLimit cfg < 0" using assms dims qf f by (simp add: New_def se split: if_splits)
  with that[OF se _ _ qf f] show thesis using assms dims qf f by (simp add: New_def se split: if_splits)
qed

lemma New_Inr:
  assumes "New clk cfg = Inr m"
  shows "cfg_Store cfg = Some (m_store m)" "0 < m_defaultLimit m" "m_extractor m = cfg_Extractor cfg"
    "resolveQueue (m_store m) (cfg_Queue cfg) = Inr (m_queue m)"
    "resolveFactStore (m_store m) (cfg_FactStore cfg) (cfg_Extractor cfg) = Inr (m_facts m)"
  by (rule New_Inr_cases[OF assms]; simp add: DefaultRecallLimit_def)+

lemma New_facts:
  assumes "New clk cfg = Inr m"
  shows "m_facts m = None \<longleftrightarrow> m_extractor m = None"
  using New_Inr(3,5)[OF assms] by (auto simp: resolveFactStore_def split: option.splits if_splits dest: sym)

text \<open>
  C21. What a recall returns fits. The episodes are a prefix of the fused ranking and the facts a
  subsequence of what the fact channels found, so nothing is returned that a better candidate was
  passed over for; \<open>Tokens\<close> is the sum of what each one costs and never exceeds \<open>MaxTokens\<close> where one is
  set; the limits are kept; and a recollection that does not say it was truncated left nothing out.
\<close>

theorem Recall_budget:
  assumes m: "New clk cfg = Inr m" and ok: "Recall rnd views elapsed ctx_err m req s = (Inr out, s')"
  shows "\<exists>n fs. let results = recall_results m views elapsed req (rc_AsOf out); ranking = fuse rnd results (m_fusion m) in
       n \<le> length ranking
     \<and> rc_Episodes out = map (priced (m_tokens m)) (take n ranking)
     \<and> rc_Facts out = map (priced_fact (m_tokens m)) fs \<and> subseq fs (concat (map ch_facts results))
     \<and> rc_Tokens out = sum_list (map rf_Tokens (rc_Facts out)) + sum_list (map re_Tokens (rc_Episodes out))
     \<and> (0 < rr_MaxTokens req \<longrightarrow> rc_Tokens out \<le> rr_MaxTokens req)
     \<and> int (length (rc_Episodes out)) \<le> (if rr_Limit req = 0 then m_defaultLimit m else rr_Limit req)
     \<and> int (length (rc_Facts out)) \<le> (if rr_FactLimit req = 0 then DefaultFactLimit else rr_FactLimit req)
     \<and> (\<not> rc_Truncated out \<longrightarrow> n = length ranking \<and> fs = concat (map ch_facts results))"
proof -
  note R = Recall_Inr[OF ok]
  have "0 \<le> rr_Limit req" "0 \<le> rr_FactLimit req" using R(1) by (auto simp: RecallRequest_Validate_def)
  then have lim: "0 \<le> recall_limit m req" "0 \<le> recall_factLimit req"
    using New_Inr(2)[OF m] by (simp_all add: recall_limit_def recall_factLimit_def DefaultFactLimit_def)
  note A = assemble_props[OF lim R(3)]
  show ?thesis using A(1,2,3,4) unfolding Let_def recall_limit_def recall_factLimit_def by blast
qed

lemma resolveChannels_distinct: "distinct (resolveChannels m cs)"
proof -
  have "distinct out \<Longrightarrow> distinct (foldl (\<lambda>out c. if c \<in> set out then out else out @ [c]) out cs)" for out
    by (induction cs arbitrary: out) auto
  then show ?thesis by (simp add: resolveChannels_def)
qed

lemma resolveChannels_set: "cs \<noteq> [] \<Longrightarrow> set (resolveChannels m cs) = set cs"
proof -
  have "set (foldl (\<lambda>out c. if c \<in> set out then out else out @ [c]) out cs) = set out \<union> set cs" for out
    by (induction cs arbitrary: out) auto
  then show "cs \<noteq> [] \<Longrightarrow> set (resolveChannels m cs) = set cs" by (simp add: resolveChannels_def)
qed

lemma resolveChannels_nonempty: "resolveChannels m cs \<noteq> []"
  using resolveChannels_set[of cs m] by (cases "cs = []") (auto simp: resolveChannels_def)

lemma runChannels_simps [simp]:
  "length (runChannels m views elapsed chs plan) = length chs"
  "map ch_channel (runChannels m views elapsed chs plan) = chs"
  "i < length chs \<Longrightarrow> runChannels m views elapsed chs plan ! i =
     channel_result (chs ! i) (elapsed i) (runChannel m (chs ! i) plan (views i))"
  by (auto simp: runChannels_def channel_result_def comp_def split: sum.splits intro!: nth_equalityI)

text \<open>
  C22. One failing channel degrades a recall and does not fail it. A valid recall that is not cancelled
  fails exactly when every channel failed, with an error that is \<open>ErrAllChannelsFailed\<close> and every
  channel's own cause; otherwise it reports on each channel once, in the order resolved, with that
  channel's error, and the channels that failed contribute no episode.
\<close>

theorem Recall_degrades:
  assumes v: "RecallRequest_Validate req = None"
  shows "case Recall rnd views elapsed None m req s of
     (Inl e, _) \<Rightarrow> \<exists>asOf. let results = recall_results m views elapsed req asOf in
       results \<noteq> [] \<and> (\<forall>r \<in> set results. \<exists>cause. ch_err r = Some cause \<and> Is e cause) \<and> Is e ErrAllChannelsFailed
   | (Inr out, _) \<Rightarrow> let results = recall_results m views elapsed req (rc_AsOf out) in
       (\<exists>r \<in> set results. ch_err r = None)
     \<and> map cr_Channel (rc_Channels out) = resolveChannels m (rr_Channels req) \<and> distinct (map cr_Channel (rc_Channels out))
     \<and> map cr_Err (rc_Channels out) = map ch_err results
     \<and> fuse rnd results (m_fusion m) = fuse rnd (filter (\<lambda>r. ch_err r = None) results) (m_fusion m)"
proof (cases "Recall rnd views elapsed None m req s")
  case (Pair r s')
  let ?asOf = "if IsZero (rr_AsOf req) then fst (m_clock m s) else rr_AsOf req"
  let ?results = "recall_results m views elapsed req ?asOf"
  have ne: "recall_results m views elapsed req t \<noteq> []" for t
    using resolveChannels_nonempty by (metis length_0_conv recall_results_def runChannels_simps(1))
  show ?thesis
  proof (cases r)
    case (Inl e)
    then have "allFailed ?results = Some e"
      using Pair v by (cases "m_clock m s") (auto simp: Recall_def Let_def recall_results_def split: option.splits if_splits)
    then have all: "\<forall>r \<in> set ?results. ch_err r \<noteq> None"
      and e: "e = Join (ErrAllChannelsFailed # map (\<lambda>r. the (ch_err r)) ?results)"
      by (auto simp: allFailed_def list_ex_iff split: if_splits)
    have "\<exists>cause. ch_err r = Some cause \<and> Is e cause" if r: "r \<in> set ?results" for r
    proof -
      obtain cause where "ch_err r = Some cause" using all r by auto
      then have "cause \<in> set (ErrAllChannelsFailed # map (\<lambda>r. the (ch_err r)) ?results)" using r by force
      moreover have "Is c c" for c by (cases c) simp_all
      ultimately show ?thesis using \<open>ch_err r = Some cause\<close> by (metis e Is.simps(1))
    qed
    moreover have "Is e ErrAllChannelsFailed" by (simp add: e)
    ultimately show ?thesis using Pair Inl ne[of ?asOf] by (auto simp: Let_def intro!: exI[of _ ?asOf])
  next
    case (Inr out)
    note R = Recall_Inr[OF Pair[unfolded Inr]]
    let ?rs = "recall_results m views elapsed req (rc_AsOf out)"
    have ch: "rc_Channels out = map report_of ?rs" by (subst R(3)) (simp add: assemble_def split: prod.splits)
    have "\<exists>r \<in> set ?rs. ch_err r = None"
      using R(4) ne[of "rc_AsOf out"] by (auto simp: allFailed_def list_ex_iff split: if_splits)
    moreover have "map cr_Channel (rc_Channels out) = resolveChannels m (rr_Channels req)"
      by (simp add: ch comp_def report_of_def recall_results_def)
    moreover have "map cr_Err (rc_Channels out) = map ch_err ?rs" by (simp add: ch comp_def report_of_def)
    ultimately show ?thesis using Pair Inr by (simp add: Let_def resolveChannels_distinct fuse_skips_failed)
  qed
qed


lemma set_mono_subseq: "subseq xs ys \<Longrightarrow> set xs \<subseteq> set ys"
  by (induction rule: list_emb.induct) auto

lemma assemble_members:
  "set (rc_Episodes (assemble rnd m req asOf results)) \<subseteq> priced (m_tokens m) ` set (fuse rnd results (m_fusion m))"
  "set (rc_Facts (assemble rnd m req asOf results)) \<subseteq> priced_fact (m_tokens m) ` (\<Union>r \<in> set results. set (ch_facts r))"
proof -
  let ?F = "foldl (\<lambda>st r. keep (\<lambda>f. m_tokens m (f_Statement f)) (priced_fact (m_tokens m)) (rr_MaxTokens req) (recall_factLimit req) (ch_facts r) st)
      ([], 0, False) results"
  obtain kept spent tr where F: "?F = (kept, spent, tr)" by (rule prod_cases3)
  obtain fs where fs: "subseq fs (concat (map ch_facts results))" "kept = map (priced_fact (m_tokens m)) fs"
    using keep_fold(1)[OF F] by auto
  obtain n where n: "keep (\<lambda>r. m_tokens m (ep_Content (re_Episode r))) (priced (m_tokens m)) (rr_MaxTokens req) (recall_limit m req)
      (fuse rnd results (m_fusion m)) ([], spent, tr) =
      (map (priced (m_tokens m)) (take n (fuse rnd results (m_fusion m))),
       spent + sum_list (map (\<lambda>r. m_tokens m (ep_Content (re_Episode r))) (take n (fuse rnd results (m_fusion m)))),
       tr \<or> n < length (fuse rnd results (m_fusion m)))"
    using keep_prefix[where out = "[]"] by fastforce
  show "set (rc_Episodes (assemble rnd m req asOf results)) \<subseteq> priced (m_tokens m) ` set (fuse rnd results (m_fusion m))"
    by (auto simp: assemble_def keep_facts_keep keep_episodes_keep F n dest: in_set_takeD)
  show "set (rc_Facts (assemble rnd m req asOf results)) \<subseteq> priced_fact (m_tokens m) ` (\<Union>r \<in> set results. set (ch_facts r))"
  proof -
    have "set fs \<subseteq> (\<Union>r \<in> set results. set (ch_facts r))" using set_mono_subseq[OF fs(1)] by simp
    moreover have "rc_Facts (assemble rnd m req asOf results) = map (priced_fact (m_tokens m)) fs"
      by (simp add: assemble_def keep_facts_keep keep_episodes_keep F n fs(2))
    ultimately show ?thesis by auto
  qed
qed

subsection \<open>What recall relies on of its ports\<close>

text \<open>
  The contract a recall needs of a store and a fact store, in the states \<open>I\<close>: a search answers with a
  ranking that satisfies its query, and a fact query with facts that match it. Everything a recall
  returns then satisfies the request.
\<close>

locale recall_ports =
  fixes st :: "'s Store" and fp :: "'s FactStore" and I :: "'s \<Rightarrow> bool"
  assumes semantic: "I s \<Longrightarrow> st_SearchSemantic st sq s = Inr out \<Longrightarrow> channel_answer sq ChannelSemantic out"
    and lexical: "I s \<Longrightarrow> st_SearchLexical st lq s = Inr out \<Longrightarrow> channel_answer lq ChannelLexical out"
    and matching: "I s \<Longrightarrow> fp_Facts fp fq s = Inr fs \<Longrightarrow> f \<in> set fs \<Longrightarrow> fact_matches fq f"

context recall_ports
begin

lemma runChannel_sound:
  assumes m: "m_store m = st" "m_facts m \<in> {None, Some fp}" and s: "I s"
    and ok: "runChannel m channel plan s = Inr (cands, fs)"
  shows "\<forall>c \<in> set cands. in_query (rp_episodes plan) (cd_Episode c)" "\<forall>f \<in> set fs. fact_matches (rp_facts plan) f"
proof -
  have ext: "in_query (ChannelQuery.extend q x) ep = in_query q ep" for q :: ChannelQuery and x :: 'x and ep
    by (simp add: in_query_def ChannelQuery.defs)
  show "\<forall>c \<in> set cands. in_query (rp_episodes plan) (cd_Episode c)"
    using ok semantic[OF s] lexical[OF s] m
    by (fastforce simp: runChannel_def channel_answer_def ext split: if_splits sum.splits option.splits)
  show "\<forall>f \<in> set fs. fact_matches (rp_facts plan) f"
    using ok matching[OF s] m by (auto simp: runChannel_def split: if_splits sum.splits option.splits)
qed

lemma runChannels_sound:
  assumes m: "m_store m = st" "m_facts m \<in> {None, Some fp}" and views: "\<forall>i. I (views i)"
    and r: "r \<in> set (runChannels m views elapsed chs plan)"
  shows "\<forall>c \<in> set (ch_candidates r). in_query (rp_episodes plan) (cd_Episode c)"
    "\<forall>f \<in> set (ch_facts r). fact_matches (rp_facts plan) f"
proof -
  obtain i where r': "r = channel_result (chs ! i) (elapsed i) (runChannel m (chs ! i) plan (views i))"
    using r by (auto simp: runChannels_def)
  have "I (views i)" using views by blast
  note R = runChannel_sound[OF m this, of "chs ! i" plan]
  show "\<forall>c \<in> set (ch_candidates r). in_query (rp_episodes plan) (cd_Episode c)"
    "\<forall>f \<in> set (ch_facts r). fact_matches (rp_facts plan) f"
    unfolding r' using R by (auto simp: channel_result_def split: sum.splits)
qed

lemma Recall_satisfies:
  assumes m: "m_store m = st" "m_facts m \<in> {None, Some fp}" and views: "\<forall>i. I (views i)"
    and ok: "Recall rnd views elapsed ctx_err m req s = (Inr out, s')" and plan_def: "plan = recall_plan m req (rc_AsOf out) (recall_depth m req) (recall_factLimit req)"
  shows "\<forall>r \<in> set (rc_Episodes out). in_query (rp_episodes plan) (re_Episode r)"
    "\<forall>r \<in> set (rc_Facts out). fact_matches (rp_facts plan) (rf_Fact r)"
proof -
  let ?results = "recall_results m views elapsed req (rc_AsOf out)"
  note R = Recall_Inr[OF ok]
  have res: "r \<in> set (runChannels m views elapsed (resolveChannels m (rr_Channels req)) plan)" if "r \<in> set ?results" for r
    using that by (simp add: recall_results_def plan_def)
  note S = runChannels_sound[OF m views res]
  have eps: "set (rc_Episodes out) \<subseteq> priced (m_tokens m) ` set (fuse rnd ?results (m_fusion m))"
    and facts: "set (rc_Facts out) \<subseteq> priced_fact (m_tokens m) ` (\<Union>r \<in> set ?results. set (ch_facts r))"
    using assemble_members[of rnd m req "rc_AsOf out" ?results] R(3) by auto
  show "\<forall>r \<in> set (rc_Episodes out). in_query (rp_episodes plan) (re_Episode r)"
  proof
    fix r assume "r \<in> set (rc_Episodes out)"
    then obtain q where q: "q \<in> set (fuse rnd ?results (m_fusion m))" "re_Episode r = re_Episode q"
      using eps by (auto simp: priced_def)
    then obtain res c where "res \<in> set ?results" "c \<in> set (ch_candidates res)" "re_Episode q = cd_Episode c"
      by (elim fuse_episode)
    then show "in_query (rp_episodes plan) (re_Episode r)" using S(1) q(2) by simp
  qed
  show "\<forall>r \<in> set (rc_Facts out). fact_matches (rp_facts plan) (rf_Fact r)"
    using facts S(2) by (fastforce simp: priced_fact_def)
qed

end

text \<open>The PostgreSQL adapter keeps this contract.\<close>

interpretation pg_recall: recall_ports "pg_store sv" "pg_facts sv" "\<lambda>w. server_ok sv \<and> world_ok w"
proof
  fix w sq out
  assume "server_ok sv \<and> world_ok w" "st_SearchSemantic (pg_store sv) sq w = Inr out"
  then show "channel_answer sq ChannelSemantic out"
    by (auto simp: pg_store_def read_db_def server_ok_def world_ok_def intro: SearchSemantic_answer)
next
  fix w lq out
  assume "server_ok sv \<and> world_ok w" "st_SearchLexical (pg_store sv) lq w = Inr out"
  then show "channel_answer lq ChannelLexical out"
    by (auto simp: pg_store_def read_db_def server_ok_def world_ok_def intro: SearchLexical_answer)
next
  fix w fq fs f
  assume "server_ok sv \<and> world_ok w" "fp_Facts (pg_facts sv) fq w = Inr fs" "f \<in> set fs"
  then show "fact_matches fq f"
    using Facts_sound[of "w_db w" "sv_text_ok sv" "sv_coll sv" "sv_rank sv" fq fs f]
    by (auto simp: pg_facts_def read_db_def world_ok_def windows_ok_def)
qed


subsection \<open>Appending through the adapter\<close>

lemma jobsFor_valid: "validate_append_jobs {} (jobsFor m scope) = None"
  by (simp add: jobsFor_def Let_def JobKind_Valid_def)

lemma validate_new_episode_of:
  assumes "AppendRequest_Validate req = None" "ar_Scope req = scope" "\<not> IsZero now"
  shows "validate_new_episode scope (new_episode now req) = None"
proof -
  have "probe_of (new_episode now req) = req\<lparr>ar_OccurredAt := ar_OccurredAt (probe_of (new_episode now req))\<rparr>"
    by (simp add: probe_of_def new_episode_def)
  then have "AppendRequest_Validate (probe_of (new_episode now req)) = None"
    using assms(1) by (simp add: AppendRequest_Validate_def probe_of_def new_episode_def)
  then show ?thesis using assms(2,3) by (simp add: validate_new_episode_def) (simp add: new_episode_def)
qed

lemma batch_checks:
  "first_err (map (batch_check scope) reqs) = None \<longleftrightarrow>
   (\<forall>req \<in> set reqs. AppendRequest_Validate req = None \<and> ar_Scope req = scope)"
  by (auto simp: batch_check_def)

text \<open>
  C13. A batch of valid requests for one scope becomes that many episodes in one transaction. Through
  the PostgreSQL adapter it succeeds; the episodes come back in the order given with consecutive
  sequence numbers, their content as written and one ingestion time, which is also the event time of
  those that gave none; and exactly one job for the whole batch is queued to encode it, and one to
  extract from it where an extractor is configured.
\<close>

theorem AppendBatch_correct:
  assumes m: "New clk cfg = Inr m" "cfg_Store cfg = Some (pg_store sv)" "cfg_Clock cfg = Some (pg_clock sv)"
    and reqs: "reqs \<noteq> []" "length reqs \<le> MaxAppendBatch"
      "\<forall>req \<in> set reqs. AppendRequest_Validate req = None \<and> ar_Scope req = scope"
    and w: "world_ok w" and now: "now = sv_now sv (w_calls w)" "\<not> IsZero now"
    and adm: "append_admissible (sv_text_ok sv) (sv_mint sv (w_calls w + 1) ''episodes'') (sv_mint sv (w_calls w + 1) ''jobs'')
        \<lparr>ac_Episodes = map (new_episode now) reqs, ac_Jobs = jobsFor m scope\<rparr> (w_db w)"
  shows "\<exists>eps w' rows js. AppendBatch m reqs w = (Inr eps, w') \<and> world_ok w'
    \<and> map ep_Content eps = map ar_Content reqs
    \<and> map ep_Seq eps = map (\<lambda>k. scope_last_seq (w_db w) scope + int k + 1) [0..<length reqs]
    \<and> map ep_OccurredAt eps = map (\<lambda>r. UTC (if IsZero (ar_OccurredAt r) then now else ar_OccurredAt r)) reqs
    \<and> (\<forall>ep \<in> set eps. ep_Scope ep = scope \<and> ep_IngestedAt ep = UTC now)
    \<and> episodes (w_db w') = episodes (w_db w) @ rows \<and> map er_id rows = map ep_ID eps
    \<and> jobs (w_db w') = jobs (w_db w) @ js
    \<and> map jr_kind js = JobKindEncode # (if cfg_Extractor cfg = None then [] else [JobKindExtract])
    \<and> (\<forall>j \<in> set js. jr_state j = JobStatePending \<and> jr_scope j = scope \<and> jr_episodes j = map ep_ID eps)"
proof -
  let ?cmd = "\<lparr>ac_Episodes = map (new_episode now) reqs, ac_Jobs = jobsFor m scope\<rparr>"
  let ?me = "sv_mint sv (w_calls w + 1) ''episodes''" and ?mj = "sv_mint sv (w_calls w + 1) ''jobs''" and ?d = "w_db w"
  let ?rows = "append_rows ?me scope (scope_last_seq ?d scope) (map (new_episode now) reqs)"
  let ?js = "append_job_rows ?mj scope (map er_id ?rows) now (jobsFor m scope)"
  let ?eps = "map2 appended_episode (map (new_episode now) reqs) ?rows"
  let ?d' = "append_db ?me ?mj scope (int (length reqs)) now (map (new_episode now) reqs) (jobsFor m scope) ?d"
  have st: "m_store m = pg_store sv" using New_Inr(1)[OF m(1)] m(2) by simp
  have ck: "m_clock m = pg_clock sv" by (rule New_Inr_cases[OF m(1)]) (simp add: m(3))
  have hd: "ar_Scope (hd reqs) = scope" "ne_Scope (hd (map (new_episode now) reqs)) = scope"
    "ne_IngestedAt (hd (map (new_episode now) reqs)) = now"
    using reqs(1,3) by (simp_all add: hd_map new_episode_def)
  have v: "validateAppend ?cmd = None"
    using reqs(1,3) now(2) hd by (simp add: validateAppend_def jobsFor_valid validate_new_episode_of del: hd_map)
  have inv: "db_inv ?d" using w by (simp add: world_ok_def)
  note A = Append_ok[OF v inv adm, simplified AppendCommand.simps hd length_map]
  have inv': "db_inv ?d'"
    using Append_inv[OF inv _ A] adm by (simp add: append_admissible_def Let_def)
  have jobs: "jobs ?d' = jobs ?d @ ?js" using appendSQL_ok(2)[OF v inv adm, of now] hd by simp
  have "st_Append (pg_store sv) ?cmd (w\<lparr>w_calls := w_calls w + 1\<rparr>) =
      Inr (\<lparr>as_Episodes = ?eps, as_Jobs = map (appended_job scope (map er_id ?rows)) ?js\<rparr>, \<lparr>w_db = ?d', w_calls = w_calls w + 2\<rparr>)"
    using A by (simp add: pg_store_def on_db_def)
  moreover have fe: "first_err (map (batch_check scope) reqs) = None" using reqs(3) by (simp only: batch_checks)
  ultimately have run: "AppendBatch m reqs w = (Inr ?eps, \<lparr>w_db = ?d', w_calls = w_calls w + 2\<rparr>)"
    using reqs(1,2) hd(1) by (simp add: AppendBatch_def ck pg_clock_def now(1)[symmetric] st fe)
  have rows: "map ep_ID ?eps = map er_id ?rows" "map ep_Content ?eps = map ar_Content reqs"
    "map ep_Seq ?eps = map (\<lambda>k. scope_last_seq (w_db w) scope + int k + 1) [0..<length reqs]"
    "map ep_OccurredAt ?eps = map (\<lambda>r. UTC (if IsZero (ar_OccurredAt r) then now else ar_OccurredAt r)) reqs"
    by (rule nth_equalityI; simp add: append_rows_nth appended_episode_def new_episode_row_def new_episode_def)+
  have scopes: "\<forall>ep \<in> set ?eps. ep_Scope ep = scope \<and> ep_IngestedAt ep = UTC now"
    using reqs(3) by (auto simp: in_set_zip appended_episode_def new_episode_def)
  have "map jr_kind ?js = JobKindEncode # (if cfg_Extractor cfg = None then [] else [JobKindExtract])"
    using New_facts[OF m(1)] New_Inr(3)[OF m(1)] by (auto simp: append_job_rows_def append_job_row_def jobsFor_def Let_def upt_rec)
  moreover have "\<forall>j \<in> set ?js. jr_state j = JobStatePending \<and> jr_scope j = scope \<and> jr_episodes j = map er_id ?rows"
    by (auto simp: append_job_rows_def append_job_row_def Let_def)
  ultimately show ?thesis using run inv' jobs rows scopes w
    by (intro exI[of _ ?eps] exI[of _ "\<lparr>w_db = ?d', w_calls = w_calls w + 2\<rparr>"] exI[of _ ?rows] exI[of _ ?js])
       (simp add: world_ok_def windows_ok_def)
qed

text \<open>
  Appending one episode is appending a batch of one: for a valid request \<open>Append\<close> returns the single
  episode of the batch and leaves the same state, over any store that returns an episode per request.
\<close>

lemma Append_is_batch_of_one:
  assumes "AppendRequest_Validate req = None" "AppendBatch m [req] s = (r, s')" "r \<noteq> Inr []"
  shows "Memory_Append m req s = (map_sum (\<lambda>e. e) hd r, s')"
  using assms
  by (auto simp: Memory_Append_def AppendBatch_def batch_check_def limit_defs split: prod.splits sum.splits list.splits)

subsection \<open>A concrete memory\<close>

text \<open>A memory over the adapter and the sample log, with an embedder and no extractor.\<close>

definition sample_server :: server where
  "sample_server =
     \<lparr>sv_text_ok = ValidString, sv_coll = (\<le>), sv_rank = \<lambda>_ _. 1, sv_lex_match = (=), sv_cosd = \<lambda>v w. if v = w then 0 else 1,
      sv_rnd = \<lambda>x. x, sv_scan_encodings = \<lambda>_ rs. rs, sv_scan_episodes = \<lambda>_ rs. rs,
      sv_mint = \<lambda>c _ k. of_nat (1000 * c + k) + 2, sv_locked = \<lambda>_ _. False, sv_now = \<lambda>c. Time (50 + int c) 0\<rparr>"

definition sample_embedder :: "'s Embedder" where
  "sample_embedder = \<lparr>em_EmbedDocuments = \<lambda>texts _. Inr (map (\<lambda>_. [Fin 1, Fin 0]) texts), em_EmbedQuery = \<lambda>_ _. Inr [Fin 1, Fin 0],
     em_Dimensions = 2, em_Model = ''m''\<rparr>"

definition sample_config :: "world Config" where
  "sample_config =
     \<lparr>cfg_Store = Some (pg_store sample_server), cfg_Queue = None, cfg_Embedder = Some sample_embedder, cfg_Extractor = None,
      cfg_FactStore = None, cfg_Clock = Some (pg_clock sample_server), cfg_TokenCounter = Some (\<lambda>_. 3),
      cfg_Fusion = \<lparr>fo_K = 0, fo_Weights = []\<rparr>, cfg_DefaultLimit = 0\<rparr>"

definition sample_world :: world where
  "sample_world = \<lparr>w_db = sample_log, w_calls = 1\<rparr>"

definition sample_recall :: RecallRequest where
  "sample_recall =
     \<lparr>rr_Scope = ''user:1'', rr_Query = ''hello'', rr_AsOf = Time 50 0, rr_OccurredFrom = zero_time, rr_OccurredTo = zero_time,
      rr_Binding = [], rr_Roles = [], rr_Channels = [ChannelLexical], rr_CandidatesPerChannel = 0, rr_Limit = 0, rr_FactLimit = 0,
      rr_MinFactConfidence = Fin 0, rr_Subjects = [], rr_MaxTokens = 10\<rparr>"

lemma sample_server_ok: "server_ok sample_server"
  by (simp add: server_ok_def sample_server_def total_preorder_linorder exact_sound[OF exact_scan_id])

lemma sample_world_ok: "world_ok sample_world"
  using sample_log_inv by (simp add: world_ok_def sample_world_def windows_ok_def) (simp add: sample_log_def empty_db_def)

lemma sample_New: "\<exists>m. New clk sample_config = Inr m"
  by (simp add: New_def sample_config_def sample_embedder_def resolveQueue_def resolveFactStore_def pg_store_def resolve_def Let_def)

lemma sample_recall_valid: "RecallRequest_Validate sample_recall = None"
  by (simp add: RecallRequest_Validate_def sample_recall_def ScopeID_Validate_def limit_defs Channel_Valid_def Binding_Validate_def
      outside_unit_def IsZero_def zero_time_def ascii_simps)

lemma sample_recall_runs:
  assumes m: "New clk sample_config = Inr m"
  shows "\<exists>out w'. Recall (\<lambda>x. x) (\<lambda>_. sample_world) (\<lambda>_. 0) None m sample_recall sample_world = (Inr out, w')"
proof -
  have st: "m_store m = pg_store sample_server" using New_Inr(1)[OF m] by (simp add: sample_config_def)
  have dl: "m_defaultLimit m = 10" by (rule New_Inr_cases[OF m]) (simp add: sample_config_def DefaultRecallLimit_def)
  let ?q = "ChannelQuery.extend \<lparr>cq_Scope = ''user:1'', cq_AsOf = Time 50 0, cq_OccurredFrom = zero_time, cq_OccurredTo = zero_time,
     cq_Binding = [], cq_Roles = [], cq_Limit = 50\<rparr> \<lparr>lq_Text = ''hello''\<rparr>"
  have "validateLexical ?q = None"
    by (simp add: validateLexical_def validateChannelQuery_def ChannelQuery.defs ScopeID_Validate_def limit_defs IsZero_def
      Binding_Validate_def zero_time_def ascii_simps)
  then obtain cands where "SearchLexical ValidString (=) (\<lambda>_ _. 1) (\<lambda>rs. rs) ?q sample_log = Inr cands"
    using SearchLexical_ok[OF sample_log_inv exact_sound[OF exact_scan_id], of ?q ValidString "(=)" "\<lambda>_ _. 1"]
    by (auto simp: ChannelQuery.defs binding_texts_def sample_log_def empty_db_def ascii_simps)
  then have "runChannel m ChannelLexical (recall_plan m sample_recall (Time 50 0) (recall_depth m sample_recall) (recall_factLimit sample_recall)) sample_world = Inr (cands, [])"
    by (simp add: runChannel_def st pg_store_def read_db_def sample_server_def sample_world_def recall_plan_def recall_depth_def
        recall_limit_def dl sample_recall_def DefaultCandidatesPerChannel_def)
  then show ?thesis
    using sample_recall_valid
    by (simp add: Recall_def runChannels_def resolveChannels_def allFailed_def channel_result_def sample_recall_def IsZero_def)
qed

theorem Recall_budget_witness:
  "\<exists>m out w'. New (pg_clock sample_server) sample_config = Inr m
     \<and> Recall (\<lambda>x. x) (\<lambda>_. sample_world) (\<lambda>_. 0) None m sample_recall sample_world = (Inr out, w')
     \<and> rc_Tokens out \<le> 10 \<and> int (length (rc_Episodes out)) \<le> m_defaultLimit m"
proof -
  obtain m where m: "New (pg_clock sample_server) sample_config = Inr m" using sample_New by blast
  obtain out w' where ok: "Recall (\<lambda>x. x) (\<lambda>_. sample_world) (\<lambda>_. 0) None m sample_recall sample_world = (Inr out, w')"
    using sample_recall_runs[OF m] by blast
  have "rr_MaxTokens sample_recall = 10" "rr_Limit sample_recall = 0" by (simp_all add: sample_recall_def)
  then show ?thesis using Recall_budget[OF m ok] m ok by (auto simp: Let_def)
qed

theorem Recall_degrades_witness:
  "\<exists>m. New (pg_clock sample_server) sample_config = Inr m
     \<and> (case Recall (\<lambda>x. x) (\<lambda>_. sample_world) (\<lambda>_. 0) None m sample_recall sample_world of
          (Inl e, _) \<Rightarrow> Is e ErrAllChannelsFailed
        | (Inr out, _) \<Rightarrow> map cr_Channel (rc_Channels out) = resolveChannels m (rr_Channels sample_recall))"
proof -
  obtain m where m: "New (pg_clock sample_server) sample_config = Inr m" using sample_New by blast
  show ?thesis
    using Recall_degrades[OF sample_recall_valid, where rnd = "\<lambda>x. x" and views = "\<lambda>_. sample_world" and elapsed = "\<lambda>_. 0"
        and m = m and s = sample_world] m
    by (auto simp: Let_def split: prod.splits sum.splits)
qed


definition sample_append :: AppendRequest where
  "sample_append = \<lparr>ar_Scope = ''user:1'', ar_Content = ''hi'', ar_Role = ''user'', ar_Actor = '''', ar_Source = ''cli'',
     ar_OccurredAt = zero_time, ar_Binding = []\<rparr>"

lemma sample_append_valid: "AppendRequest_Validate sample_append = None"
  by (simp add: sample_append_def AppendRequest_Validate_def ScopeID_Validate_None Actor_Validate_def Source_Validate_def
      Binding_Validate_None Role_Valid_check limit_defs time_simps ascii_simps)

lemma sample_append_admissible:
  assumes m: "New clk sample_config = Inr m"
  shows "append_admissible (sv_text_ok sample_server) (sv_mint sample_server (w_calls sample_world + 1) ''episodes'')
    (sv_mint sample_server (w_calls sample_world + 1) ''jobs'')
    \<lparr>ac_Episodes = map (new_episode (Time 51 0)) [sample_append], ac_Jobs = jobsFor m ''user:1''\<rparr> (w_db sample_world)"
proof -
  have "jobsFor m ''user:1'' = [\<lparr>nj_Kind = JobKindEncode, nj_Scope = ''user:1'', nj_Episodes = [], nj_RunAfter = zero_time, nj_MaxAttempts = 0\<rparr>]"
    using New_facts[OF m] New_Inr(3)[OF m] by (simp add: jobsFor_def sample_config_def)
  then show ?thesis
    by (simp add: append_admissible_def Let_def sample_server_def sample_world_def sample_append_def new_episode_def sample_log_def
        empty_db_def sample_row_def scope_last_seq_def episode_texts_def fresh_ids_def ascii_simps)
qed

theorem AppendBatch_correct_witness:
  "\<exists>m eps w' js. New (pg_clock sample_server) sample_config = Inr m
     \<and> AppendBatch m [sample_append] sample_world = (Inr eps, w') \<and> world_ok w'
     \<and> map ep_Content eps = [''hi''] \<and> map ep_Seq eps = [scope_last_seq sample_log ''user:1'' + 1]
     \<and> jobs (w_db w') = jobs sample_log @ js \<and> map jr_kind js = [JobKindEncode]"
proof -
  obtain m where m: "New (pg_clock sample_server) sample_config = Inr m" using sample_New by blast
  have c: "cfg_Store sample_config = Some (pg_store sample_server)" "cfg_Clock sample_config = Some (pg_clock sample_server)"
    by (simp_all add: sample_config_def)
  have r: "\<forall>req \<in> set [sample_append]. AppendRequest_Validate req = None \<and> ar_Scope req = ''user:1''"
    using sample_append_valid by (simp add: sample_append_def)
  have n: "Time 51 0 = sv_now sample_server (w_calls sample_world)" "\<not> IsZero (Time 51 0)"
    by (simp_all add: sample_server_def sample_world_def IsZero_def)
  have b: "[sample_append] \<noteq> []" "length [sample_append] \<le> MaxAppendBatch" by (simp_all add: limit_defs)
  have s: "w_db sample_world = sample_log" "ar_Content sample_append = ''hi''" "cfg_Extractor sample_config = None"
    by (simp_all add: sample_world_def sample_append_def sample_config_def)
  show ?thesis
    using AppendBatch_correct[OF m c b r sample_world_ok n sample_append_admissible[OF m]] m s by auto
qed

end
