(* ===== verification/Worker.thy ===== *)
theory Worker
  imports Memory
begin

section \<open>The worker: the consolidation loop\<close>

text \<open>
  \<^verbatim>\<open>worker.go\<close>, over the ports. Nil is \<open>None\<close>; the logger is left out, since it only writes. An operation
  that makes several calls returns its error, \<open>None\<close> for \<^verbatim>\<open>nil\<close>, and the state it leaves. \<open>render job e\<close> is the
  text of the error with the context \<^verbatim>\<open>fmt.Errorf\<close> put around it; \<open>ctx i\<close> is what \<^verbatim>\<open>ctx.Err()\<close> answers at
  the \<open>i\<close>-th test. \<open>Run\<close> takes the number of timer ticks it may see: \<open>None\<close> says it is still running.

  The lemmas show the backoff and the retrieval cue for every input, that every worker operation keeps
  the invariant of its ports, what a finished job has written, and that a batch settles every job it
  leased.
\<close>

subsection \<open>Configuration\<close>

definition DefaultWorkerBatch :: int where "DefaultWorkerBatch = 8"
definition DefaultPollInterval :: int where "DefaultPollInterval = Second"
definition DefaultReclaimInterval :: int where "DefaultReclaimInterval = Minute"
definition DefaultRetryBackoff :: int where "DefaultRetryBackoff = 10 * Second"
definition MaxRetryBackoff :: int where "MaxRetryBackoff = 10 * Minute"
definition maxKnownFactCue :: nat where "maxKnownFactCue = push_bit 10 8"
definition DefaultKnownFactLimit :: int where "DefaultKnownFactLimit = 100"

record 's WorkerConfig =
  wc_Store :: "'s Store option"
  wc_Queue :: "'s Queue option"
  wc_Embedder :: "'s Embedder option"
  wc_Extractor :: "'s Extractor option"
  wc_FactStore :: "'s FactStore option"
  wc_KnownFactLimit :: int
  wc_Clock :: "'s Clock option"
  wc_ID :: WorkerID
  wc_Batch :: int
  wc_LeaseDuration :: int
  wc_PollInterval :: int
  wc_ReclaimInterval :: int

record 's Worker =
  wk_store :: "'s Store"
  wk_queue :: "'s Queue"
  wk_embedder :: "'s Embedder"
  wk_extractor :: "'s Extractor option"
  wk_facts :: "'s FactStore option"
  wk_clock :: "'s Clock"
  wk_id :: WorkerID
  wk_batch :: int
  wk_known :: int
  wk_lease :: int
  wk_poll :: int
  wk_reclaim :: int
  wk_kinds :: "JobKind list"

text \<open>\<open>hostname\<close> is what \<^verbatim>\<open>os.Hostname()\<close> returns and \<open>pid\<close> the process id in decimal.\<close>

definition defaultWorkerID :: "err + string \<Rightarrow> string \<Rightarrow> WorkerID" where
  "defaultWorkerID hostname pid =
     (let host = (case hostname of Inl _ \<Rightarrow> ''unknown'' | Inr h \<Rightarrow> if h = '''' then ''unknown'' else h)
      in host @ ''/'' @ pid)"

definition or_default :: "int \<Rightarrow> int \<Rightarrow> int" where
  "or_default x d = (if x = 0 then d else x)"

definition NewWorker :: "'s Clock \<Rightarrow> WorkerID \<Rightarrow> 's WorkerConfig \<Rightarrow> err + 's Worker" where
  "NewWorker systemClock defaultID cfg =
     (case wc_Store cfg of None \<Rightarrow> Inl ErrInvalidConfig | Some store \<Rightarrow>
      case wc_Embedder cfg of None \<Rightarrow> Inl ErrInvalidConfig | Some embedder \<Rightarrow>
      if em_Dimensions embedder \<le> 0 then Inl ErrInvalidConfig
      else if em_Model embedder = '''' then Inl ErrInvalidConfig
      else case resolveQueue store (wc_Queue cfg) of Inl e \<Rightarrow> Inl e | Inr queue \<Rightarrow>
      case resolveFactStore store (wc_FactStore cfg) (wc_Extractor cfg) of Inl e \<Rightarrow> Inl e | Inr fp \<Rightarrow>
      if (case wc_Extractor cfg of Some x \<Rightarrow> ex_Model x = '''' | None \<Rightarrow> False) then Inl ErrInvalidConfig
      else if wc_Batch cfg < 0 then Inl ErrInvalidConfig
      else if wc_KnownFactLimit cfg < 0 then Inl ErrInvalidConfig
      else if wc_LeaseDuration cfg < 0 then Inl ErrInvalidConfig
      else if wc_PollInterval cfg < 0 then Inl ErrInvalidConfig
      else if wc_ReclaimInterval cfg < 0 then Inl ErrInvalidConfig
      else Inr \<lparr>wk_store = store, wk_queue = queue, wk_embedder = embedder, wk_extractor = wc_Extractor cfg, wk_facts = fp,
                wk_clock = (case wc_Clock cfg of None \<Rightarrow> systemClock | Some c \<Rightarrow> c),
                wk_id = (if wc_ID cfg = '''' then defaultID else wc_ID cfg),
                wk_batch = or_default (wc_Batch cfg) DefaultWorkerBatch,
                wk_known = or_default (wc_KnownFactLimit cfg) DefaultKnownFactLimit,
                wk_lease = or_default (wc_LeaseDuration cfg) DefaultLeaseDuration,
                wk_poll = or_default (wc_PollInterval cfg) DefaultPollInterval,
                wk_reclaim = or_default (wc_ReclaimInterval cfg) DefaultReclaimInterval,
                wk_kinds = JobKindEncode # (if wc_Extractor cfg \<noteq> None then [JobKindExtract] else [])\<rparr>)"

subsection \<open>Backoff and cue\<close>

fun backoff_loop :: "nat \<Rightarrow> int \<Rightarrow> int" where
  "backoff_loop 0 backoff = backoff"
| "backoff_loop (Suc n) backoff =
     (let backoff' = backoff * 2 in if backoff' \<ge> MaxRetryBackoff then MaxRetryBackoff else backoff_loop n backoff')"

definition retryBackoff :: "int \<Rightarrow> int" where
  "retryBackoff attempt = (let attempt' = (if attempt < 1 then 1 else attempt) in backoff_loop (nat (attempt' - 1)) DefaultRetryBackoff)"

fun cue_loop :: "string \<Rightarrow> Episode list \<Rightarrow> string" where
  "cue_loop b [] = b"
| "cue_loop b (ep # eps) =
     (if maxKnownFactCue \<le> length b then b
      else cue_loop ((if 0 < length b then b @ '' '' else b) @ ep_Content ep) eps)"

function trim_invalid :: "string \<Rightarrow> string" where
  "trim_invalid cue = (if 0 < length cue \<and> \<not> ValidString cue then trim_invalid (take (length cue - 1) cue) else cue)"
  by pat_completeness auto
termination by (relation "measure length") auto

declare trim_invalid.simps [simp del]

definition knownFactCue :: "Episode list \<Rightarrow> string" where
  "knownFactCue eps =
     (let cue = cue_loop '''' eps in
      if maxKnownFactCue < length cue then trim_invalid (take maxKnownFactCue cue) else cue)"

subsection \<open>Jobs\<close>

fun put_encodings :: "'s Worker \<Rightarrow> gotime \<Rightarrow> (Episode \<times> Vector) list \<Rightarrow> 's \<Rightarrow> err option \<times> 's" where
  "put_encodings w encodedAt [] s = (None, s)"
| "put_encodings w encodedAt ((episode, vector) # rest) s =
     (case st_PutEncoding (wk_store w)
             \<lparr>en_Episode = ep_ID episode, en_Model = em_Model (wk_embedder w), en_Vector = vector, en_Surprise = Fin 0,
              en_EncodedAt = encodedAt\<rparr> s of
        Inl e \<Rightarrow> (Some e, s)
      | Inr (_, s') \<Rightarrow> put_encodings w encodedAt rest s')"

definition read_episodes :: "'s Worker \<Rightarrow> Job \<Rightarrow> 's \<Rightarrow> err + Episode list" where
  "read_episodes w job s = traverse (\<lambda>i. st_Episode (wk_store w) (j_Scope job) i s) (j_Episodes job)"

definition encode :: "'s Worker \<Rightarrow> Job \<Rightarrow> 's \<Rightarrow> err option \<times> 's" where
  "encode w job s =
     (case read_episodes w job s of Inl e \<Rightarrow> (Some e, s) | Inr eps \<Rightarrow>
      case em_EmbedDocuments (wk_embedder w) (map ep_Content eps) s of Inl e \<Rightarrow> (Some e, s) | Inr vectors \<Rightarrow>
      if length vectors \<noteq> length eps then (Some ErrInvalidConfig, s)
      else let (encodedAt, s1) = wk_clock w s in put_encodings w encodedAt (zip eps vectors) s1)"

definition known_query :: "'s Worker \<Rightarrow> 's Extractor \<Rightarrow> Job \<Rightarrow> Episode list \<Rightarrow> FactQuery" where
  "known_query w extractor job eps =
     \<lparr>fq_Scope = j_Scope job, fq_Extractor = ex_Model extractor, fq_AsOf = ep_IngestedAt (last eps),
      fq_At = ep_OccurredAt (last eps), fq_IncludeClosed = False, fq_Subjects = [], fq_Predicates = [],
      fq_MinConfidence = Fin 0, fq_Text = knownFactCue eps, fq_Limit = wk_known w\<rparr>"

definition extract_job :: "'s Worker \<Rightarrow> 's Extractor \<Rightarrow> 's FactStore \<Rightarrow> Job \<Rightarrow> 's \<Rightarrow> err option \<times> 's" where
  "extract_job w extractor fp job s =
     (if length (j_Episodes job) = 0 then (Some ErrInvalidConfig, s)
      else case read_episodes w job s of Inl e \<Rightarrow> (Some e, s) | Inr unsorted \<Rightarrow>
      let eps = sort_by (le_key ep_Seq) unsorted in
      case fp_Facts fp (known_query w extractor job eps) s of Inl e \<Rightarrow> (Some e, s) | Inr known \<Rightarrow>
      let (now, s1) = wk_clock w s in
      case ex_Extract extractor \<lparr>xr_Scope = j_Scope job, xr_Episodes = eps, xr_Known = known, xr_Now = now\<rparr> s1 of
        Inl e \<Rightarrow> (Some e, s1) | Inr result \<Rightarrow>
      let (ts, s2) = wk_clock w s1 in
      case fp_ApplyExtraction fp
             \<lparr>xc_Scope = j_Scope job, xc_Extractor = ex_Model extractor, xc_Episodes = j_Episodes job,
              xc_Assert = xs_Assert result, xc_Retract = xs_Retract result, xc_At = ts\<rparr> s2 of
        Inl e \<Rightarrow> (Some e, s2) | Inr (_, s3) \<Rightarrow> (None, s3))"

text \<open>\<^verbatim>\<open>extract\<close> without a fact store is a nil dereference; \<open>NewWorker\<close> gives one wherever there is an extractor.\<close>

definition panic_nil :: err where "panic_nil = Foreign ''nil pointer dereference''"

definition runJob :: "'s Worker \<Rightarrow> Job \<Rightarrow> 's \<Rightarrow> err option \<times> 's" where
  "runJob w job s =
     (if j_Kind job = JobKindEncode then encode w job s
      else if j_Kind job = JobKindExtract then
        (case wk_extractor w of None \<Rightarrow> (Some ErrInvalidConfig, s)
         | Some x \<Rightarrow> (case wk_facts w of None \<Rightarrow> (Some panic_nil, s) | Some fp \<Rightarrow> extract_job w x fp job s))
      else (Some ErrInvalidJobKind, s))"

definition reportFailure :: "(Job \<Rightarrow> err \<Rightarrow> string) \<Rightarrow> 's Worker \<Rightarrow> Job \<Rightarrow> err \<Rightarrow> 's \<Rightarrow> 's" where
  "reportFailure render w job cause s =
     (let (now, s1) = wk_clock w s in
      case q_Fail (wk_queue w) (j_ID job) (wk_id w) (Some (render job cause)) now
             (time_Add now (retryBackoff (j_Attempts job))) s1 of
        Inl _ \<Rightarrow> s1 | Inr (_, s2) \<Rightarrow> s2)"

subsection \<open>Batches and the loop\<close>

text \<open>One job of a batch: whether it counts as done, and the state after it.\<close>

definition drain_job :: "(Job \<Rightarrow> err \<Rightarrow> string) \<Rightarrow> 's Worker \<Rightarrow> Job \<Rightarrow> 's \<Rightarrow> bool \<times> 's" where
  "drain_job render w job s =
     (case runJob w job s of
        (Some e, s1) \<Rightarrow> (False, reportFailure render w job e s1)
      | (None, s1) \<Rightarrow>
          let (now, s2) = wk_clock w s1 in
          case q_Succeed (wk_queue w) (j_ID job) (wk_id w) now s2 of Inl _ \<Rightarrow> (False, s2) | Inr (_, s3) \<Rightarrow> (True, s3))"

fun drain_jobs ::
  "(Job \<Rightarrow> err \<Rightarrow> string) \<Rightarrow> (nat \<Rightarrow> err option) \<Rightarrow> 's Worker \<Rightarrow> nat \<Rightarrow> Job list \<Rightarrow> nat \<Rightarrow> 's \<Rightarrow> (nat \<times> err option) \<times> 's" where
  "drain_jobs render ctx w i [] n s = ((n, None), s)"
| "drain_jobs render ctx w i (job # rest) n s =
     (case ctx i of Some e \<Rightarrow> ((n, Some e), s)
      | None \<Rightarrow> let (ok, s') = drain_job render w job s in
          drain_jobs render ctx w (i + 1) rest (if ok then n + 1 else n) s')"

definition lease_request :: "'s Worker \<Rightarrow> gotime \<Rightarrow> LeaseRequest" where
  "lease_request w now =
     \<lparr>lr_Kinds = wk_kinds w, lr_Worker = wk_id w, lr_Limit = wk_batch w, lr_Duration = wk_lease w, lr_Now = now\<rparr>"

definition DrainOnce ::
  "(Job \<Rightarrow> err \<Rightarrow> string) \<Rightarrow> (nat \<Rightarrow> err option) \<Rightarrow> 's Worker \<Rightarrow> 's \<Rightarrow> (nat \<times> err option) \<times> 's" where
  "DrainOnce render ctx w s =
     (let (now, s1) = wk_clock w s in
      case q_Lease (wk_queue w) (lease_request w now) s1 of
        Inl e \<Rightarrow> ((0, Some e), s1)
      | Inr (js, s2) \<Rightarrow> drain_jobs render ctx w 0 js 0 s2)"

text \<open>\<^verbatim>\<open>Time.Sub\<close> saturates at the ends of \<^verbatim>\<open>time.Duration\<close>.\<close>

definition time_Sub :: "gotime \<Rightarrow> gotime \<Rightarrow> int" where
  "time_Sub t u = max (- (2 ^ 63)) (min (2 ^ 63 - 1) (instant t - instant u))"

text \<open>One tick of \<open>Run\<close>: the wait before the next one, the time of the last reclaim, and the state.\<close>

definition run_tick ::
  "(Job \<Rightarrow> err \<Rightarrow> string) \<Rightarrow> (nat \<Rightarrow> err option) \<Rightarrow> 's Worker \<Rightarrow> gotime \<times> 's \<Rightarrow> int \<times> gotime \<times> 's" where
  "run_tick render ctx w = (\<lambda>(lastReclaim, s).
     let (now, s1) = wk_clock w s;
         (lastReclaim', s2) =
           (if time_Sub now lastReclaim \<ge> wk_reclaim w
            then (now, case q_Reclaim (wk_queue w) now s1 of Inl _ \<Rightarrow> s1 | Inr (_, s') \<Rightarrow> s')
            else (lastReclaim, s1));
         ((n, _), s3) = DrainOnce render ctx w s2
     in (if n > 0 then 0 else wk_poll w, lastReclaim', s3))"

fun run_loop ::
  "(Job \<Rightarrow> err \<Rightarrow> string) \<Rightarrow> (nat \<Rightarrow> err option) \<Rightarrow> (nat \<Rightarrow> nat \<Rightarrow> err option) \<Rightarrow> 's Worker \<Rightarrow> nat \<Rightarrow> nat \<Rightarrow> gotime \<times> 's \<Rightarrow> (err option) \<times> 's" where
  "run_loop render done ctx w k 0 st = (None, snd st)"
| "run_loop render done ctx w k (Suc fuel) st =
     (case done k of Some e \<Rightarrow> (Some e, snd st)
      | None \<Rightarrow> run_loop render done ctx w (k + 1) fuel (snd (run_tick render (ctx k) w st)))"

definition Run ::
  "(Job \<Rightarrow> err \<Rightarrow> string) \<Rightarrow> (nat \<Rightarrow> err option) \<Rightarrow> (nat \<Rightarrow> nat \<Rightarrow> err option) \<Rightarrow> 's Worker \<Rightarrow> nat \<Rightarrow> 's \<Rightarrow> (err option) \<times> 's" where
  "Run render done ctx w ticks s = run_loop render done ctx w 0 ticks (zero_time, s)"

subsection \<open>Backoff and cue, for every input\<close>

lemma backoff_loop_eq:
  assumes "0 < b" "b \<le> MaxRetryBackoff"
  shows "backoff_loop n b = min MaxRetryBackoff (b * 2 ^ n)"
  using assms
proof (induction n arbitrary: b)
  case (Suc n)
  show ?case
  proof (cases "MaxRetryBackoff \<le> b * 2")
    case True
    have "b * 2 * 1 \<le> b * 2 * 2 ^ n" using Suc.prems by (intro mult_left_mono) simp_all
    then have "MaxRetryBackoff \<le> b * 2 ^ Suc n" using True by simp
    with True show ?thesis by simp
  next
    case False
    with Suc show ?thesis by (simp add: mult.assoc)
  qed
qed simp

text \<open>
  The wait before the next attempt doubles with each attempt from ten seconds and stays at ten
  minutes once it gets there; it is never shorter than the first wait and never shrinks as attempts
  grow, whatever attempt count a queue reports.
\<close>

theorem retryBackoff_correct:
  "retryBackoff attempt = min (10 * Minute) (10 * Second * 2 ^ nat (attempt - 1))
   \<and> 10 * Second \<le> retryBackoff attempt \<and> retryBackoff attempt \<le> 10 * Minute
   \<and> retryBackoff attempt \<le> retryBackoff (attempt + 1)"
proof -
  have eq: "retryBackoff a = min (10 * Minute) (10 * Second * 2 ^ nat (a - 1))" for a
    by (simp add: retryBackoff_def Let_def backoff_loop_eq DefaultRetryBackoff_def MaxRetryBackoff_def Second_def Minute_def)
  have "min (10 * Minute) (10 * Second * 2 ^ nat (attempt - 1)) \<le> min (10 * Minute) (10 * Second * 2 ^ nat (attempt + 1 - 1))"
    by (intro min.mono mult_left_mono power_increasing) (simp_all add: Second_def)
  moreover have "10 * Second * 1 \<le> 10 * Second * 2 ^ nat (attempt - 1)"
    by (intro mult_left_mono) (simp_all add: Second_def)
  ultimately show ?thesis unfolding eq by (simp add: Second_def Minute_def)
qed

text \<open>The whole text, with no cap.\<close>

definition joined :: "string \<Rightarrow> Episode list \<Rightarrow> string" where
  "joined b eps = foldl (\<lambda>b ep. (if 0 < length b then b @ '' '' else b) @ ep_Content ep) b eps"

lemma joined_simps [simp]:
  "joined b [] = b" "joined b (ep # eps) = joined ((if 0 < length b then b @ '' '' else b) @ ep_Content ep) eps"
  by (simp_all add: joined_def)

lemma joined_prefix: "prefix b (joined b eps)"
proof (induction eps arbitrary: b)
  case (Cons ep eps)
  have "prefix b ((if 0 < length b then b @ '' '' else b) @ ep_Content ep)" by simp
  from prefix_order.trans[OF this Cons.IH] show ?case by (simp only: joined_simps)
qed simp

lemma joined_valid: "ValidString b \<Longrightarrow> \<forall>ep \<in> set eps. ValidString (ep_Content ep) \<Longrightarrow> ValidString (joined b eps)"
proof (induction eps arbitrary: b)
  case (Cons ep eps)
  then show ?case by (simp add: ValidString_append ascii_simps)
qed simp

lemma cue_loop_joined:
  "prefix (cue_loop b eps) (joined b eps) \<and> (cue_loop b eps = joined b eps \<or> maxKnownFactCue \<le> length (cue_loop b eps))
   \<and> (ValidString b \<longrightarrow> (\<forall>ep \<in> set eps. ValidString (ep_Content ep)) \<longrightarrow> ValidString (cue_loop b eps))"
proof (induction b eps rule: cue_loop.induct)
  case (2 b ep eps)
  show ?case
  proof (cases "maxKnownFactCue \<le> length b")
    case True
    then show ?thesis using joined_prefix[of b "ep # eps"] by simp
  next
    case False
    have "ValidString b \<Longrightarrow> ValidString (ep_Content ep) \<Longrightarrow> ValidString ((if 0 < length b then b @ '' '' else b) @ ep_Content ep)"
      by (simp add: ValidString_append ascii_simps)
    with 2 False show ?thesis by simp
  qed
qed simp

lemma trim_invalid_correct:
  "prefix (trim_invalid s) s \<and> ValidString (trim_invalid s)
   \<and> (k \<le> length s \<longrightarrow> ValidString (take k s) \<longrightarrow> k \<le> length (trim_invalid s))"
proof (induction s rule: trim_invalid.induct)
  case (1 s)
  show ?case
  proof (cases "0 < length s \<and> \<not> ValidString s")
    case True
    have t: "trim_invalid s = trim_invalid (take (length s - 1) s)" using True by (subst trim_invalid.simps) simp
    have "prefix (trim_invalid (take (length s - 1) s)) s" using 1 True take_is_prefix prefix_order.trans by blast
    moreover have "k \<le> length (trim_invalid (take (length s - 1) s))" if k: "k \<le> length s" "ValidString (take k s)"
    proof -
      have "k \<noteq> length s" using True k by auto
      then have "k \<le> length s - 1" using k(1) by simp
      then show ?thesis using 1 True k by (simp add: min_absorb1 min_absorb2)
    qed
    ultimately show ?thesis using 1 True by (simp add: t)
  next
    case False
    then have "trim_invalid s = s" using trim_invalid.simps[of s] by (simp only: if_False)
    with False show ?thesis by (cases s) auto
  qed
qed

lemma valid_prefix_trim:
  assumes "ValidString s" "n \<le> length s"
  shows "\<exists>k \<le> 3. k \<le> n \<and> ValidString (take (n - k) s)"
  using utf8_valid_prefix_trim[of "bytes_of s" n] assms by (simp add: ValidString_def bytes_of_def take_map)

text \<open>
  The cue the known facts are ranked against is text the database accepts: for episodes whose
  contents are valid UTF-8 it is valid UTF-8, at most 8192 bytes, a prefix of the contents joined by
  spaces; it is all of them when they fit, and otherwise at most three bytes, the rest of a character
  cut in two, short of the cap.
\<close>

theorem knownFactCue_correct:
  assumes valid: "\<forall>ep \<in> set eps. ValidString (ep_Content ep)"
  shows "ValidString (knownFactCue eps) \<and> length (knownFactCue eps) \<le> 8192 \<and> prefix (knownFactCue eps) (joined '''' eps)
    \<and> (length (joined '''' eps) \<le> 8192 \<longrightarrow> knownFactCue eps = joined '''' eps)
    \<and> (8192 < length (joined '''' eps) \<longrightarrow> 8192 - 3 \<le> length (knownFactCue eps))"
proof -
  let ?cue = "cue_loop '''' eps"
  have mx: "maxKnownFactCue = 8192" by (simp add: maxKnownFactCue_def push_bit_eq_mult)
  have cue: "prefix ?cue (joined '''' eps)" "?cue = joined '''' eps \<or> 8192 \<le> length ?cue" "ValidString ?cue"
    using cue_loop_joined[of "''''" eps] valid by (simp_all add: mx)
  show ?thesis
  proof (cases "8192 < length ?cue")
    case True
    have k: "knownFactCue eps = trim_invalid (take 8192 ?cue)" using True by (simp add: knownFactCue_def mx)
    note T = trim_invalid_correct[of "take 8192 ?cue"]
    obtain j where j: "j \<le> 3" "ValidString (take (8192 - j) ?cue)"
      using valid_prefix_trim[OF cue(3), of 8192] True by auto
    have "8192 - j \<le> length (knownFactCue eps)" using T[of "8192 - j"] j True by (simp add: k min_def)
    moreover have "prefix (knownFactCue eps) (take 8192 ?cue)" using T by (simp add: k)
    moreover from this have "prefix (knownFactCue eps) (joined '''' eps)" "length (knownFactCue eps) \<le> 8192"
      using cue(1) take_is_prefix[of 8192 ?cue] prefix_length_le[of "knownFactCue eps" "take 8192 ?cue"] prefix_order.trans
      by (blast, simp)
    moreover have "8192 < length (joined '''' eps)" using True prefix_length_le[OF cue(1)] by simp
    ultimately show ?thesis using T j(1) by (simp add: k)
  next
    case False
    then have k: "knownFactCue eps = ?cue" by (simp add: knownFactCue_def mx)
    show ?thesis
    proof (cases "?cue = joined '''' eps")
      case False
      then have len: "length ?cue = 8192" using cue(2) \<open>\<not> 8192 < length ?cue\<close> by simp
      moreover have "8192 < length (joined '''' eps)"
        using cue(1) False len by (auto simp: prefix_def)
      ultimately show ?thesis using cue by (simp add: k)
    qed (use cue False in \<open>simp add: k\<close>)
  qed
qed

subsection \<open>What the worker relies on of its ports\<close>

text \<open>
  The contract, as preservation: if every port call a job makes keeps \<open>I\<close>, so does the job
  (\<open>job_ports\<close>); if the queue's calls do too, so does the whole loop (\<open>worker_ports\<close>). Both are used
  with several \<open>I\<close>.
\<close>

locale job_ports =
  fixes st :: "'s Store" and fp :: "'s FactStore" and ck :: "'s Clock" and I :: "'s \<Rightarrow> bool"
  assumes clock: "I s \<Longrightarrow> I (snd (ck s))"
    and put: "I s \<Longrightarrow> st_PutEncoding st enc s = Inr (u, s') \<Longrightarrow> I s'"
    and apply_extraction: "I s \<Longrightarrow> fp_ApplyExtraction fp cmd s = Inr (fs, s') \<Longrightarrow> I s'"

context job_ports
begin

lemma clock_pair: "I s \<Longrightarrow> ck s = (t, s') \<Longrightarrow> I s'"
  using clock[of s] by simp

lemma put_encodings_keeps: "wk_store w = st \<Longrightarrow> I s \<Longrightarrow> put_encodings w ts xs s = (r, s') \<Longrightarrow> I s'"
proof (induction xs arbitrary: s)
  case (Cons x xs)
  then show ?case by (cases x) (auto split: sum.splits dest: put)
qed simp

lemma encode_keeps:
  assumes "wk_store w = st" "wk_clock w = ck" "I s" "encode w job s = (r, s')"
  shows "I s'"
  using assms clock_pair[OF assms(3)] put_encodings_keeps[OF assms(1)]
  by (auto simp: encode_def split: sum.splits if_splits prod.splits)

lemma extract_keeps:
  assumes ck: "wk_clock w = ck" and s: "I s" and ok: "extract_job w x fp job s = (r, s')"
  shows "I s'"
proof -
  obtain t1 s1 where t1: "ck s = (t1, s1)" by (cases "ck s")
  obtain t2 s2 where t2: "ck s1 = (t2, s2)" by (cases "ck s1")
  have "I s1" "I s2" using clock_pair[OF s t1] clock_pair[OF _ t2] by auto
  then show ?thesis
    using ok s by (auto simp: extract_job_def Let_def ck t1 t2 split: if_splits sum.splits dest: apply_extraction)
qed

lemma runJob_keeps:
  assumes "wk_store w = st" "wk_clock w = ck" "wk_facts w \<in> {None, Some fp}" "I s" "runJob w job s = (r, s')"
  shows "I s'"
  using assms encode_keeps[OF assms(1,2,4)] extract_keeps[OF assms(2,4)]
  by (auto simp: runJob_def split: if_splits option.splits)

end

locale worker_ports = job_ports +
  fixes q :: "'s Queue"
  assumes lease: "I s \<Longrightarrow> q_Lease q req s = Inr (js, s') \<Longrightarrow> I s'"
    and succeed: "I s \<Longrightarrow> q_Succeed q i worker t s = Inr (u, s') \<Longrightarrow> I s'"
    and failed: "I s \<Longrightarrow> q_Fail q i worker cause t retryAt s = Inr (u, s') \<Longrightarrow> I s'"
    and reclaim: "I s \<Longrightarrow> q_Reclaim q t s = Inr (n, s') \<Longrightarrow> I s'"

text \<open>A worker assembled on these ports.\<close>

definition worker_on :: "'s Store \<Rightarrow> 's Queue \<Rightarrow> 's FactStore \<Rightarrow> 's Clock \<Rightarrow> 's Worker \<Rightarrow> bool" where
  "worker_on st q fp ck w \<longleftrightarrow> wk_store w = st \<and> wk_queue w = q \<and> wk_clock w = ck \<and> wk_facts w \<in> {None, Some fp}"

context worker_ports
begin

lemma reportFailure_keeps:
  assumes "worker_on st q fp ck w" "I s"
  shows "I (reportFailure render w job e s)"
  using assms clock_pair[OF assms(2)]
  by (auto simp: reportFailure_def worker_on_def split: prod.splits sum.splits dest: failed)

lemma drain_job_keeps:
  assumes w: "worker_on st q fp ck w" and s: "I s" and ok: "drain_job render w job s = (b, s')"
  shows "I s'"
proof -
  obtain r s1 where r: "runJob w job s = (r, s1)" by (cases "runJob w job s")
  have s1: "I s1" using runJob_keeps[OF _ _ _ s r] w by (simp add: worker_on_def)
  show ?thesis
  proof (cases r)
    case None
    then show ?thesis using ok r w clock_pair[OF s1]
      by (auto simp: drain_job_def worker_on_def split: prod.splits sum.splits dest: succeed)
  next
    case (Some e)
    then show ?thesis using ok r reportFailure_keeps[OF w s1] by (auto simp: drain_job_def)
  qed
qed

lemma drain_jobs_keeps:
  "worker_on st q fp ck w \<Longrightarrow> I s \<Longrightarrow> drain_jobs render ctx w i js n s = (r, s') \<Longrightarrow> I s'"
proof (induction js arbitrary: i n s)
  case (Cons job js)
  obtain b s1 where b: "drain_job render w job s = (b, s1)" by (cases "drain_job render w job s")
  have "I s1" by (rule drain_job_keeps[OF Cons.prems(1,2) b])
  then show ?case using Cons.prems Cons.IH[OF Cons.prems(1)] b by (auto split: option.splits)
qed simp

lemma DrainOnce_keeps:
  assumes w: "worker_on st q fp ck w" and s: "I s" and ok: "DrainOnce render ctx w s = (r, s')"
  shows "I s'"
proof -
  obtain t s1 where t: "ck s = (t, s1)" by (cases "ck s")
  have s1: "I s1" by (rule clock_pair[OF s t])
  show ?thesis
  proof (cases "q_Lease q (lease_request w t) s1")
    case (Inl e)
    then show ?thesis using ok w s1 t by (auto simp: DrainOnce_def worker_on_def)
  next
    case (Inr p)
    obtain js s2 where p: "p = (js, s2)" by (cases p)
    have "I s2" using lease[OF s1] Inr p by simp
    from drain_jobs_keeps[OF w this] show ?thesis using ok w t Inr p by (auto simp: DrainOnce_def worker_on_def)
  qed
qed

lemma run_tick_keeps:
  assumes w: "worker_on st q fp ck w" and s: "I (snd p)"
  shows "I (snd (snd (run_tick render ctx w p)))"
proof -
  obtain t s1 where t: "ck (snd p) = (t, s1)" by (cases "ck (snd p)")
  have s1: "I s1" by (rule clock_pair[OF s t])
  let ?c = "time_Sub t (fst p) \<ge> wk_reclaim w"
  let ?s2 = "if ?c then (case q_Reclaim q t s1 of Inl _ \<Rightarrow> s1 | Inr (_, s') \<Rightarrow> s') else s1"
  have s2: "I ?s2" using s1 reclaim[OF s1] by (auto split: sum.splits)
  obtain n e s3 where d: "DrainOnce render ctx w ?s2 = ((n, e), s3)" by (metis prod.collapse)
  have "snd (snd (run_tick render ctx w p)) = s3"
    using t d w by (cases p) (auto simp: run_tick_def worker_on_def Let_def split: if_splits)
  then show ?thesis using DrainOnce_keeps[OF w s2 d] by simp
qed

lemma run_loop_keeps:
  "worker_on st q fp ck w \<Longrightarrow> I (snd p) \<Longrightarrow> I (snd (run_loop render stop ctx w k fuel p))"
proof (induction fuel arbitrary: k p)
  case (Suc fuel)
  then show ?case using run_tick_keeps[OF Suc.prems] by (auto split: option.splits)
qed simp

lemma Run_keeps: "worker_on st q fp ck w \<Longrightarrow> I s \<Longrightarrow> I (snd (Run render stop ctx w ticks s))"
  using run_loop_keeps[of w "(zero_time, s)"] by (simp add: Run_def)

end

subsection \<open>The worker on the PostgreSQL adapter\<close>

definition same_log :: "db \<Rightarrow> db \<Rightarrow> bool" where
  "same_log d0 d \<longleftrightarrow> db_ready d = db_ready d0 \<and> db_dims d = db_dims d0 \<and> scopes d = scopes d0 \<and> episodes d = episodes d0"

definition job_moves :: "job_row \<Rightarrow> job_row \<Rightarrow> bool" where
  "job_moves r s \<longleftrightarrow> (\<exists>n. job_run r n s)"

definition worker_inv :: "db \<Rightarrow> world \<Rightarrow> bool" where
  "worker_inv d0 w \<longleftrightarrow> world_ok w \<and> same_log d0 (w_db w) \<and> list_all2 job_moves (jobs d0) (jobs (w_db w))"

definition job_frame :: "db \<Rightarrow> world \<Rightarrow> bool" where
  "job_frame d0 w \<longleftrightarrow> world_ok w \<and> same_log d0 (w_db w) \<and> jobs (w_db w) = jobs d0"

lemma job_moves_update:
  assumes "list_all2 job_moves rs ss"
    and "\<And>s. s \<in> set ss \<Longrightarrow> p s \<Longrightarrow> job_step s (f s) \<and> jr_state s \<in> {JobStatePending, JobStateRunning}"
  shows "list_all2 job_moves rs (update_where p f ss)"
proof -
  have "job_moves r (if p s then f s else s)" if "job_moves r s" "s \<in> set ss" for r s
    using that assms(2)[of s] job_run.claimed job_run.moved unfolding job_moves_def by fastforce
  then show ?thesis
    using assms(1) by (auto simp: update_where_def list_all2_conv_all_nth)
qed

lemma PutEncoding_frame:
  assumes "PutEncoding text_ok enc d = Inr (u, d')"
  shows "same_log d d'" "jobs d' = jobs d" "facts d' = facts d" "extractions d' = extractions d"
  by (rule PutEncoding_Inr[OF assms]; simp add: same_log_def)+

lemma ApplyExtraction_frame:
  assumes "db_inv d" "ApplyExtraction text_ok coll mint cmd d = Inr (fs, d')"
  shows "same_log d d'" "jobs d' = jobs d" "encodings d' = encodings d"
  by (rule ApplyExtraction_Inr[OF assms(2)]; drule mark_ok(4)[OF assms(1)]; simp add: same_log_def)+

lemma put_world:
  assumes "world_ok w" "st_PutEncoding (pg_store sv) enc w = Inr (u, w')"
  shows "world_ok w'" "same_log (w_db w) (w_db w')" "jobs (w_db w') = jobs (w_db w)"
proof -
  have P: "PutEncoding (sv_text_ok sv) enc (w_db w) = Inr (u, w_db w')"
    using assms(2) on_db_Inr(1) by (fastforce simp: pg_store_def)
  show "world_ok w'" "same_log (w_db w) (w_db w')" "jobs (w_db w') = jobs (w_db w)"
    using assms(1) PutEncoding_frame[OF P] PutEncoding_inv[OF _ P] by (simp_all add: world_ok_def windows_ok_def)
qed

lemma apply_world:
  assumes "world_ok w" "fp_ApplyExtraction (pg_facts sv) cmd w = Inr (fs, w')"
  shows "world_ok w'" "same_log (w_db w) (w_db w')" "jobs (w_db w') = jobs (w_db w)"
proof -
  have A: "ApplyExtraction (sv_text_ok sv) (sv_coll sv) (sv_mint sv (w_calls w) ''facts'') cmd (w_db w) = Inr (fs, w_db w')"
    using assms(2) on_db_Inr(1) by (fastforce simp: pg_facts_def)
  show "world_ok w'" "same_log (w_db w) (w_db w')" "jobs (w_db w') = jobs (w_db w)"
    using assms(1) ApplyExtraction_frame[OF _ A] ApplyExtraction_inv[OF _ A] ApplyExtraction_windows[OF _ _ A]
    by (simp_all add: world_ok_def)
qed

lemma same_log_trans: "same_log a b \<Longrightarrow> same_log b c \<Longrightarrow> same_log a c"
  by (simp add: same_log_def)

interpretation pg_jobs: job_ports "pg_store sv" "pg_facts sv" "pg_clock sv" "job_frame d0"
proof
  show "job_frame d0 (snd (pg_clock sv w))" if "job_frame d0 w" for w
    using that by (simp add: job_frame_def pg_clock_def world_ok_def)
  show "job_frame d0 w'" if "job_frame d0 w" "st_PutEncoding (pg_store sv) enc w = Inr (u, w')" for w w' enc u
    using that put_world[OF _ that(2)] same_log_trans by (auto simp: job_frame_def)
  show "job_frame d0 w'" if "job_frame d0 w" "fp_ApplyExtraction (pg_facts sv) cmd w = Inr (fs, w')" for w w' cmd fs
    using that apply_world[OF _ that(2)] same_log_trans by (auto simp: job_frame_def)
qed

text \<open>A queue call replaces the jobs table, and moves each row it touches by a step of the job's life.\<close>

lemma queue_world:
  assumes w: "worker_inv d0 w" and w': "w_db w' = (w_db w)\<lparr>jobs := update_where p f (jobs (w_db w))\<rparr>"
    and inv: "db_inv (w_db w')"
    and steps: "\<And>s. s \<in> set (jobs (w_db w)) \<Longrightarrow> p s \<Longrightarrow> job_step s (f s) \<and> jr_state s \<in> {JobStatePending, JobStateRunning}"
  shows "worker_inv d0 w'"
  using w inv job_moves_update[OF _ steps] by (auto simp: worker_inv_def world_ok_def windows_ok_def same_log_def w')

interpretation pg_worker: worker_ports "pg_store sv" "pg_facts sv" "pg_clock sv" "worker_inv d0" "pg_queue sv"
proof
  show "worker_inv d0 (snd (pg_clock sv w))" if "worker_inv d0 w" for w
    using that by (simp add: worker_inv_def pg_clock_def world_ok_def)
  show "worker_inv d0 w'" if "worker_inv d0 w" "st_PutEncoding (pg_store sv) enc w = Inr (u, w')" for w w' enc u
    using that put_world[OF _ that(2)] same_log_trans by (auto simp: worker_inv_def)
  show "worker_inv d0 w'" if "worker_inv d0 w" "fp_ApplyExtraction (pg_facts sv) cmd w = Inr (fs, w')" for w w' cmd fs
    using that apply_world[OF _ that(2)] same_log_trans by (auto simp: worker_inv_def)
next
  fix w w' req js
  assume w: "worker_inv d0 w" and "q_Lease (pg_queue sv) req w = Inr (js, w')"
  then have L: "Lease (sv_text_ok sv) (sv_locked sv (w_calls w)) req (w_db w) = Inr (js, w_db w')"
    using on_db_Inr(1) by (fastforce simp: pg_queue_def)
  have inv: "db_inv (w_db w)" using w by (simp add: worker_inv_def world_ok_def)
  show "worker_inv d0 w'"
    by (rule queue_world[OF w Lease_Inr[OF L] Lease_inv[OF inv L]]) (use Lease_steps[OF inv] in auto)
next
  fix w w' i worker t u
  assume w: "worker_inv d0 w" and "q_Succeed (pg_queue sv) i worker t w = Inr (u, w')"
  then have S: "Succeed (sv_text_ok sv) i worker t (w_db w) = Inr (u, w_db w')"
    using on_db_Inr(1) by (fastforce simp: pg_queue_def)
  have inv: "db_inv (w_db w)" using w by (simp add: worker_inv_def world_ok_def)
  show "worker_inv d0 w'"
    by (rule queue_world[OF w Succeed_Inr(1)[OF S] Succeed_inv[OF inv S]]) (auto simp: held_by_def intro: job_step.finish)
next
  fix w w' i worker cause t retryAt u
  assume w: "worker_inv d0 w" and "q_Fail (pg_queue sv) i worker cause t retryAt w = Inr (u, w')"
  then have F: "Fail (sv_text_ok sv) i worker cause t retryAt (w_db w) = Inr (u, w_db w')"
    using on_db_Inr(1) by (fastforce simp: pg_queue_def)
  have inv: "db_inv (w_db w)" using w by (simp add: worker_inv_def world_ok_def)
  show "worker_inv d0 w'"
    by (rule queue_world[OF w Fail_Inr(1)[OF F] Fail_inv[OF inv F]]) (auto simp: held_by_def intro: job_step.give_back)
next
  fix w w' t n
  assume w: "worker_inv d0 w" and "q_Reclaim (pg_queue sv) t w = Inr (n, w')"
  then have R: "Reclaim t (w_db w) = Inr (n, w_db w')" using on_db_Inr(1) by (fastforce simp: pg_queue_def)
  have inv: "db_inv (w_db w)" using w by (simp add: worker_inv_def world_ok_def)
  show "worker_inv d0 w'"
    by (rule queue_world[OF w Reclaim_Inr(1)[OF R] Reclaim_inv[OF inv R]]) (auto simp: expired_def intro: job_step.expire)
qed

text \<open>The worker that \<open>NewWorker\<close> assembles on the adapter.\<close>

definition worker_config :: "server \<Rightarrow> world WorkerConfig \<Rightarrow> bool" where
  "worker_config sv cfg \<longleftrightarrow> wc_Store cfg = Some (pg_store sv) \<and> wc_Queue cfg = None \<and> wc_FactStore cfg = None
     \<and> wc_Clock cfg = Some (pg_clock sv)"

lemma NewWorker_Inr_cases:
  assumes "NewWorker clk dflt cfg = Inr w"
  obtains store embedder queue fp where "wc_Store cfg = Some store" "wc_Embedder cfg = Some embedder"
    "resolveQueue store (wc_Queue cfg) = Inr queue"
    "resolveFactStore store (wc_FactStore cfg) (wc_Extractor cfg) = Inr fp"
    "0 \<le> wc_Batch cfg" "0 \<le> wc_KnownFactLimit cfg" "0 \<le> wc_LeaseDuration cfg"
    "w = \<lparr>wk_store = store, wk_queue = queue, wk_embedder = embedder, wk_extractor = wc_Extractor cfg, wk_facts = fp,
                wk_clock = (case wc_Clock cfg of None \<Rightarrow> clk | Some c \<Rightarrow> c),
                wk_id = (if wc_ID cfg = '''' then dflt else wc_ID cfg),
                wk_batch = or_default (wc_Batch cfg) DefaultWorkerBatch,
                wk_known = or_default (wc_KnownFactLimit cfg) DefaultKnownFactLimit,
                wk_lease = or_default (wc_LeaseDuration cfg) DefaultLeaseDuration,
                wk_poll = or_default (wc_PollInterval cfg) DefaultPollInterval,
                wk_reclaim = or_default (wc_ReclaimInterval cfg) DefaultReclaimInterval,
                wk_kinds = JobKindEncode # (if wc_Extractor cfg \<noteq> None then [JobKindExtract] else [])\<rparr>"
proof -
  obtain store embedder where se: "wc_Store cfg = Some store" "wc_Embedder cfg = Some embedder"
    using assms by (cases "wc_Store cfg"; cases "wc_Embedder cfg") (simp_all add: NewWorker_def)
  have dims: "\<not> em_Dimensions embedder \<le> 0" "em_Model embedder \<noteq> ''''"
    using assms by (simp_all add: NewWorker_def se split: if_splits)
  obtain queue fp where qf: "resolveQueue store (wc_Queue cfg) = Inr queue"
    "resolveFactStore store (wc_FactStore cfg) (wc_Extractor cfg) = Inr fp"
    using assms dims
    by (cases "resolveQueue store (wc_Queue cfg)"; cases "resolveFactStore store (wc_FactStore cfg) (wc_Extractor cfg)")
       (simp_all add: NewWorker_def se)
  show thesis using that[OF se qf] assms dims qf by (simp add: NewWorker_def se split: if_splits)
qed

lemma NewWorker_Inr:
  assumes "NewWorker clk dflt cfg = Inr w"
  shows "wc_Store cfg = Some (wk_store w)" "resolveQueue (wk_store w) (wc_Queue cfg) = Inr (wk_queue w)"
    "resolveFactStore (wk_store w) (wc_FactStore cfg) (wc_Extractor cfg) = Inr (wk_facts w)"
    "wk_clock w = (case wc_Clock cfg of None \<Rightarrow> clk | Some c \<Rightarrow> c)" "0 < wk_batch w" "0 < wk_lease w" "0 < wk_known w"
    "wk_kinds w = JobKindEncode # (if wk_extractor w \<noteq> None then [JobKindExtract] else [])"
    "wk_id w = (if wc_ID cfg = '''' then dflt else wc_ID cfg)"
  by (rule NewWorker_Inr_cases[OF assms]; simp add: or_default_def DefaultWorkerBatch_def DefaultLeaseDuration_def
      DefaultKnownFactLimit_def Minute_def Second_def)+

lemma worker_config_on:
  assumes "NewWorker clk dflt cfg = Inr w" "worker_config sv cfg"
  shows "worker_on (pg_store sv) (pg_queue sv) (pg_facts sv) (pg_clock sv) w"
proof -
  note N = NewWorker_Inr[OF assms(1)]
  have st: "wk_store w = pg_store sv" using N(1) assms(2) by (simp add: worker_config_def)
  have ports: "st_asQueue (pg_store sv) = Some (pg_queue sv)" "st_asFactStore (pg_store sv) = Some (pg_facts sv)"
    by (simp_all add: pg_store_def)
  have "wk_queue w = pg_queue sv" using N(2) assms(2) by (simp add: worker_config_def resolveQueue_def st ports)
  moreover have "wk_facts w \<in> {None, Some (pg_facts sv)}"
    using N(3) assms(2) by (cases "wc_Extractor cfg") (simp_all add: worker_config_def resolveFactStore_def st ports)
  ultimately show ?thesis using N(4) assms(2) by (simp add: worker_on_def st worker_config_def)
qed

text \<open>
  C14. However long a worker runs on the PostgreSQL adapter, whatever its embedder and extractor
  answer and whenever it is cancelled, the database stays consistent, the episode log is as it was,
  and every job has moved only along its life cycle, never revived: claimed while attempts remained,
  finished, handed back or expired, so no job has been attempted more than its \<open>MaxAttempts\<close>.
\<close>

theorem Run_keeps_invariants:
  assumes "NewWorker clk dflt cfg = Inr w" "worker_config sv cfg" "world_ok s"
    and "Run render stop ctx w ticks s = (r, s')"
  shows "world_ok s' \<and> episodes (w_db s') = episodes (w_db s) \<and> scopes (w_db s') = scopes (w_db s)
    \<and> list_all2 (\<lambda>a b. \<exists>n. job_run a n b) (jobs (w_db s)) (jobs (w_db s'))
    \<and> (\<forall>b \<in> set (jobs (w_db s')). jr_attempts b \<le> jr_max_attempts b)"
proof -
  have "job_moves a a" for a using job_run.start by (auto simp: job_moves_def)
  then have "worker_inv (w_db s) s" using assms(3) by (simp add: worker_inv_def same_log_def list_all2_refl)
  from pg_worker.Run_keeps[OF worker_config_on[OF assms(1,2)] this, of render stop ctx ticks]
  have w: "worker_inv (w_db s) s'" using assms(4) by simp
  then have "db_inv (w_db s')" by (simp add: worker_inv_def world_ok_def)
  then have "\<forall>b \<in> set (jobs (w_db s')). jr_attempts b \<le> jr_max_attempts b"
    by (auto simp: db_inv_def jobs_ok_def job_check_iff)
  then show ?thesis using w by (simp add: worker_inv_def same_log_def job_moves_def[abs_def])
qed

subsection \<open>A batch settles what it leased\<close>

text \<open>
  What settling needs: a worker with a name the server accepts, error texts it accepts once cut, and
  a clock past the zero time.
\<close>

definition worker_env :: "server \<Rightarrow> (Job \<Rightarrow> err \<Rightarrow> string) \<Rightarrow> world Worker \<Rightarrow> bool" where
  "worker_env sv render w \<longleftrightarrow> wk_id w \<noteq> '''' \<and> sv_text_ok sv (wk_id w) \<and> (\<forall>c. 0 < instant (sv_now sv c))
     \<and> (\<forall>job e. pred_option (sv_text_ok sv) (truncateError (Some (render job e))))"

definition settled :: "job_row \<Rightarrow> bool" where
  "settled r \<longleftrightarrow> jr_state r \<in> {JobStateDone, JobStatePending, JobStateDead} \<and> jr_leased_by r = None \<and> jr_leased_until r = None"

definition settles :: "JobID set \<Rightarrow> db \<Rightarrow> db \<Rightarrow> bool" where
  "settles ids d d' \<longleftrightarrow> list_all2 (\<lambda>a b. jr_id b = jr_id a \<and> (if jr_id a \<in> ids then settled b else b = a)) (jobs d) (jobs d')"

lemma settled_rows: "settled (succeed_row t r)" "settled (fail_row t u m r)"
  by (auto simp: settled_def row_defs)

lemma retryBackoff_pos: "0 < retryBackoff a"
  by (simp add: retryBackoff_def Let_def backoff_loop_eq DefaultRetryBackoff_def MaxRetryBackoff_def Second_def Minute_def)

lemma drain_job_settles:
  assumes w: "worker_on (pg_store sv) (pg_queue sv) (pg_facts sv) (pg_clock sv) w" and env: "worker_env sv render w"
    and s: "world_ok s" "db_ready (w_db s)" and held: "\<exists>r \<in> set (jobs (w_db s)). held_by (j_ID job) (wk_id w) r" "j_ID job \<noteq> 0"
  shows "\<exists>b s' f. drain_job render w job s = (b, s') \<and> world_ok s' \<and> same_log (w_db s) (w_db s')
    \<and> jobs (w_db s') = update_where (held_by (j_ID job) (wk_id w)) f (jobs (w_db s))
    \<and> (\<forall>r. settled (f r) \<and> jr_id (f r) = jr_id r \<and> (jr_state (f r) = JobStateDone \<longleftrightarrow> b))"
proof -
  obtain r s1 where r: "runJob w job s = (r, s1)" by (cases "runJob w job s")
  have "job_frame (w_db s) s" using s by (simp add: job_frame_def same_log_def)
  from pg_jobs.runJob_keeps[OF _ _ _ this r] have s1: "job_frame (w_db s) s1" using w by (auto simp: worker_on_def)
  let ?t = "sv_now sv (w_calls s1)" and ?s2 = "s1\<lparr>w_calls := w_calls s1 + 1\<rparr>"
  have ck: "wk_clock w s1 = (?t, ?s2)" using w by (simp add: worker_on_def pg_clock_def)
  have d1: "jobs (w_db s1) = jobs (w_db s)" "db_ready (w_db s1)" "db_inv (w_db s1)"
    using s1 s by (auto simp: job_frame_def same_log_def world_ok_def)
  have v: "validateJobUpdate (j_ID job) (wk_id w) ?t = None"
    using env held(2) by (simp add: validateJobUpdate_def worker_env_def id_IsZero_def IsZero_def) (metis order_less_irrefl)
  have tok: "sv_text_ok sv (wk_id w)" using env by (simp add: worker_env_def)
  have q: "wk_queue w = pg_queue sv" using w by (simp add: worker_on_def)
  have wok: "world_ok \<lparr>w_db = (w_db s1)\<lparr>jobs := js\<rparr>, w_calls = c\<rparr>" if "db_inv ((w_db s1)\<lparr>jobs := js\<rparr>)" for js c
    using s1 that by (simp add: job_frame_def world_ok_def windows_ok_def)
  have same: "same_log (w_db s) ((w_db s1)\<lparr>jobs := js\<rparr>)" for js using s1 by (simp add: job_frame_def same_log_def)
  show ?thesis
  proof (cases r)
    case None
    let ?f = "succeed_row (instant ?t)"
    let ?s' = "\<lparr>w_db = (w_db s1)\<lparr>jobs := update_where (held_by (j_ID job) (wk_id w)) ?f (jobs (w_db s1))\<rparr>, w_calls = w_calls s1 + 2\<rparr>"
    have S: "Succeed (sv_text_ok sv) (j_ID job) (wk_id w) ?t (w_db s1) =
        Inr ((), (w_db s1)\<lparr>jobs := update_where (held_by (j_ID job) (wk_id w)) ?f (jobs (w_db s1))\<rparr>)"
      using v tok d1 held(1) by (simp add: Succeed_def)
    then have "drain_job render w job s = (True, ?s')"
      using r None ck by (simp add: drain_job_def q pg_queue_def on_db_def)
    with wok[OF Succeed_inv[OF d1(3) S]] same settled_rows(1) show ?thesis
      by (intro exI[of _ True] exI[of _ ?s'] exI[of _ ?f]) (simp add: d1(1) row_defs)
  next
    case (Some e)
    let ?u = "time_Add ?t (retryBackoff (j_Attempts job))"
    let ?f = "fail_row (instant ?t) (instant ?u) (truncateError (Some (render job e)))"
    let ?s' = "\<lparr>w_db = (w_db s1)\<lparr>jobs := update_where (held_by (j_ID job) (wk_id w)) ?f (jobs (w_db s1))\<rparr>, w_calls = w_calls s1 + 2\<rparr>"
    have "0 < retryBackoff (j_Attempts job)" by (rule retryBackoff_pos)
    then have u: "\<not> IsZero ?u" using env by (auto simp: worker_env_def IsZero_def time_Add_def) (metis add_pos_pos order_less_irrefl)
    have F: "Fail (sv_text_ok sv) (j_ID job) (wk_id w) (Some (render job e)) ?t ?u (w_db s1) =
        Inr ((), (w_db s1)\<lparr>jobs := update_where (held_by (j_ID job) (wk_id w)) ?f (jobs (w_db s1))\<rparr>)"
      using v u tok d1 held(1) env by (simp add: Fail_def worker_env_def pred_option_def)
    then have "drain_job render w job s = (False, ?s')"
      using r Some ck by (simp add: drain_job_def reportFailure_def q pg_queue_def on_db_def)
    with wok[OF Fail_inv[OF d1(3) F]] same settled_rows(2) show ?thesis
      by (intro exI[of _ False] exI[of _ ?s'] exI[of _ ?f]) (simp add: d1(1) row_defs)
  qed
qed

lemma count_insert:
  assumes "i \<notin> ids"
  shows "length (filter (\<lambda>b. jr_id b \<in> insert i ids \<and> P b) js) =
    length (filter (\<lambda>b. jr_id b = i \<and> P b) js) + length (filter (\<lambda>b. jr_id b \<in> ids \<and> P b) js)"
  using assms by (induction js) auto

lemma count_one:
  assumes "distinct (map jr_id js)" "b \<in> set js" "jr_id b = i"
  shows "length (filter (\<lambda>b. jr_id b = i \<and> P b) js) = (if P b then 1 else 0)"
proof -
  have "\<And>x. x \<in> set js \<Longrightarrow> jr_id x = i \<Longrightarrow> x = b" using assms by (auto simp: distinct_map dest: inj_onD)
  then have "filter (\<lambda>b. jr_id b = i \<and> P b) js = filter (\<lambda>x. x = b \<and> P b) js" using assms(3) by (intro filter_cong) auto
  moreover have "distinct js" using assms(1) by (simp add: distinct_map)
  moreover have "{x. x = b \<and> x \<in> set js} = {b}" using assms(2) by auto
  ultimately show ?thesis by (auto simp: distinct_length_filter Int_def)
qed

lemma lease_ids:
  assumes "db_inv d"
  shows "jr_id ` set (filter (\<lambda>r. jr_id r \<in> jr_id ` set (lease_candidates locked req (jobs d))) (jobs d)) =
    jr_id ` set (lease_candidates locked req (jobs d))"
  using assms lease_chosen(1)[of d locked req] by (simp add: db_inv_def jobs_ok_def)

definition done_of :: "JobID set \<Rightarrow> job_row list \<Rightarrow> nat" where
  "done_of ids js = length (filter (\<lambda>b. jr_id b \<in> ids \<and> jr_state b = JobStateDone) js)"

lemma settles_row:
  assumes "settles ids d d'" "a \<in> set (jobs d)"
  obtains b where "b \<in> set (jobs d')" "jr_id b = jr_id a" "jr_id a \<notin> ids \<longrightarrow> b = a"
  using assms by (auto simp: settles_def list_all2_conv_all_nth in_set_conv_nth) (metis nth_mem)

lemma drain_jobs_settle:
  assumes w: "worker_on (pg_store sv) (pg_queue sv) (pg_facts sv) (pg_clock sv) w" and env: "worker_env sv render w"
    and ctx: "\<forall>i. ctx i = None"
  shows "world_ok s \<Longrightarrow> db_ready (w_db s) \<Longrightarrow> distinct (map j_ID js)
    \<Longrightarrow> \<forall>j \<in> set js. j_ID j \<noteq> 0 \<and> (\<exists>r \<in> set (jobs (w_db s)). held_by (j_ID j) (wk_id w) r)
    \<Longrightarrow> \<exists>s'. drain_jobs render ctx w i js n s = ((n + done_of (j_ID ` set js) (jobs (w_db s')), None), s')
      \<and> world_ok s' \<and> same_log (w_db s) (w_db s') \<and> settles (j_ID ` set js) (w_db s) (w_db s')"
proof (induction js arbitrary: i n s)
  case Nil
  then show ?case by (simp add: done_of_def settles_def same_log_def list_all2_refl)
next
  case (Cons job js)
  have head: "\<exists>r \<in> set (jobs (w_db s)). held_by (j_ID job) (wk_id w) r" "j_ID job \<noteq> 0" using Cons.prems(4) by simp_all
  obtain b s1 f where J: "drain_job render w job s = (b, s1)" "world_ok s1" "same_log (w_db s) (w_db s1)"
    and up: "jobs (w_db s1) = update_where (held_by (j_ID job) (wk_id w)) f (jobs (w_db s))"
    and f: "\<forall>r. settled (f r) \<and> jr_id (f r) = jr_id r \<and> (jr_state (f r) = JobStateDone \<longleftrightarrow> b)"
    using drain_job_settles[OF w env Cons.prems(1,2) head] by blast
  have new: "j_ID job \<notin> j_ID ` set js" using Cons.prems(3) by auto
  have held: "\<exists>r \<in> set (jobs (w_db s1)). held_by (j_ID j) (wk_id w) r" if j: "j \<in> set js" for j
  proof -
    obtain r where r: "r \<in> set (jobs (w_db s))" "held_by (j_ID j) (wk_id w) r"
      using Cons.prems(4) j by (meson list.set_intros(2))
    moreover have "\<not> held_by (j_ID job) (wk_id w) r" using r j new by (metis held_by_def image_eqI)
    ultimately show ?thesis unfolding up using update_where_mem[of r _ "held_by (j_ID job) (wk_id w)" f] by auto
  qed
  have "db_ready (w_db s1)" using J(3) Cons.prems(2) by (simp add: same_log_def)
  then obtain s' where D: "drain_jobs render ctx w (i + 1) js (if b then n + 1 else n) s1 =
      (((if b then n + 1 else n) + done_of (j_ID ` set js) (jobs (w_db s')), None), s')"
    and s': "world_ok s'" "same_log (w_db s1) (w_db s')" "settles (j_ID ` set js) (w_db s1) (w_db s')"
    using Cons.IH[OF J(2), of "i + 1" "if b then n + 1 else n"] Cons.prems(3,4) held by auto
  obtain r where r: "r \<in> set (jobs (w_db s))" "held_by (j_ID job) (wk_id w) r" using head(1) by blast
  then have id: "jr_id r = j_ID job" by (simp add: held_by_def)
  have inj: "distinct (map jr_id (jobs (w_db s')))" "distinct (map jr_id (jobs (w_db s)))"
    using s'(1) Cons.prems(1) by (auto simp: world_ok_def db_inv_def jobs_ok_def)
  have "f r \<in> set (jobs (w_db s1))" unfolding up using update_where_mem[OF r(1), of "held_by (j_ID job) (wk_id w)" f] r(2) by simp
  moreover have "jr_id (f r) \<notin> j_ID ` set js" using f id new by simp
  ultimately have "f r \<in> set (jobs (w_db s'))" using settles_row[OF s'(3)] by metis
  then have one: "length (filter (\<lambda>x. jr_id x = j_ID job \<and> jr_state x = JobStateDone) (jobs (w_db s'))) = (if b then 1 else 0)"
    using count_one[OF inj(1), of "f r" "j_ID job" "\<lambda>x. jr_state x = JobStateDone"] f id by simp
  have "settles (j_ID ` set (job # js)) (w_db s) (w_db s')"
    unfolding settles_def
  proof (rule list_all2_all_nthI)
    show "length (jobs (w_db s)) = length (jobs (w_db s'))"
      using s'(3) by (auto simp: settles_def up dest: list_all2_lengthD)
    fix k assume k: "k < length (jobs (w_db s))"
    let ?a = "jobs (w_db s) ! k" and ?m = "jobs (w_db s1) ! k" and ?b = "jobs (w_db s') ! k"
    have m: "?m = (if held_by (j_ID job) (wk_id w) ?a then f ?a else ?a)" using k by (simp add: up update_where_def)
    have b: "jr_id ?b = jr_id ?m" "if jr_id ?m \<in> j_ID ` set js then settled ?b else ?b = ?m"
      using s'(3) k by (auto simp: settles_def up list_all2_conv_all_nth)
    have "?a = r" if "jr_id ?a = j_ID job"
      using that id r(1) inj(2) k by (auto simp: distinct_map inj_on_def)
    then have "jr_id ?a = j_ID job \<longleftrightarrow> held_by (j_ID job) (wk_id w) ?a" using r(2) by (auto simp: held_by_def)
    then show "jr_id ?b = jr_id ?a \<and> (if jr_id ?a \<in> j_ID ` set (job # js) then settled ?b else ?b = ?a)"
      using m b f new by (auto split: if_splits)
  qed
  moreover have "done_of (j_ID ` set (job # js)) (jobs (w_db s')) = (if b then 1 else 0) + done_of (j_ID ` set js) (jobs (w_db s'))"
    unfolding done_of_def list.set image_insert count_insert[OF new] one ..
  moreover have "ctx i = None" using ctx by blast
  ultimately show ?case using D s'(1) same_log_trans[OF J(3) s'(2)]
    by (intro exI[of _ s']) (cases b; simp add: J(1))
qed


subsection \<open>What a finished job has done\<close>

lemma PutEncoding_keys:
  assumes "PutEncoding text_ok enc d = Inr (u, d')"
  shows "\<exists>r \<in> set (encodings d'). enc_key r = (en_Episode enc, en_Model enc) \<and> nr_vec r = en_Vector enc"
    "enc_key r \<noteq> (en_Episode enc, en_Model enc) \<Longrightarrow> r \<in> set (encodings d') \<longleftrightarrow> r \<in> set (encodings d)"
proof -
  obtain e where e: "er_id e = en_Episode enc" "d' = d\<lparr>encodings := upsert_encoding (encoding_row_of enc e) (encodings d)\<rparr>"
    by (rule PutEncoding_Inr[OF assms])
  let ?r = "encoding_row_of enc e"
  have k: "enc_key ?r = (en_Episode enc, en_Model enc)" "nr_vec ?r = en_Vector enc" by (simp_all add: encoding_row_of_def e(1))
  show "\<exists>r \<in> set (encodings d'). enc_key r = (en_Episode enc, en_Model enc) \<and> nr_vec r = en_Vector enc"
  proof (cases "enc_key ?r \<in> enc_key ` set (encodings d)")
    case True
    then obtain x where x: "x \<in> set (encodings d)" "enc_key x = enc_key ?r" by auto
    let ?x = "x\<lparr>nr_vec := nr_vec ?r, nr_surprise := nr_surprise ?r, nr_encoded_at := nr_encoded_at ?r\<rparr>"
    have "?x \<in> set (encodings d')" using True x by (auto simp: e(2) upsert_encoding_def set_update_where)
    then show ?thesis using x k by (intro bexI[of _ ?x]) simp_all
  next
    case False
    then have "?r \<in> set (encodings d')" by (simp add: e(2) upsert_encoding_def)
    then show ?thesis using k by blast
  qed
  show "enc_key r \<noteq> (en_Episode enc, en_Model enc) \<Longrightarrow> r \<in> set (encodings d') \<longleftrightarrow> r \<in> set (encodings d)"
    unfolding k(1)[symmetric] by (auto simp: e(2) upsert_encoding_def set_update_where)
qed

lemma put_encodings_writes:
  assumes st: "wk_store w = pg_store sv"
  shows "put_encodings w ts xs s = (None, s') \<Longrightarrow> distinct (map (ep_ID \<circ> fst) xs) \<Longrightarrow>
    (\<forall>(ep, v) \<in> set xs. \<exists>r \<in> set (encodings (w_db s')). enc_key r = (ep_ID ep, em_Model (wk_embedder w)) \<and> nr_vec r = v)
    \<and> (\<forall>r. (nr_model r = em_Model (wk_embedder w) \<longrightarrow> nr_episode r \<notin> (ep_ID \<circ> fst) ` set xs) \<longrightarrow>
         (r \<in> set (encodings (w_db s')) \<longleftrightarrow> r \<in> set (encodings (w_db s))))"
proof (induction xs arbitrary: s)
  case (Cons x xs)
  obtain ep v where x: "x = (ep, v)" by (cases x)
  let ?m = "em_Model (wk_embedder w)"
  let ?enc = "\<lparr>en_Episode = ep_ID ep, en_Model = ?m, en_Vector = v, en_Surprise = Fin 0, en_EncodedAt = ts\<rparr>"
  obtain s1 where p: "st_PutEncoding (pg_store sv) ?enc s = Inr ((), s1)" and rest: "put_encodings w ts xs s1 = (None, s')"
    using Cons.prems(1) by (auto simp: x st split: sum.splits)
  have P: "PutEncoding (sv_text_ok sv) ?enc (w_db s) = Inr ((), w_db s1)"
    using p on_db_Inr(1) by (fastforce simp: pg_store_def)
  note IH = Cons.IH[OF rest] and K = PutEncoding_keys[OF P, simplified]
  have new: "ep_ID ep \<notin> (ep_ID \<circ> fst) ` set xs" and d: "distinct (map (ep_ID \<circ> fst) xs)" using Cons.prems(2) by (simp_all add: x comp_def)
  obtain r where r: "r \<in> set (encodings (w_db s1))" "nr_episode r = ep_ID ep" "nr_model r = ?m" "nr_vec r = v" using K(1) by blast
  then have "r \<in> set (encodings (w_db s'))" using IH[OF d] new by auto
  then have one: "\<exists>r \<in> set (encodings (w_db s')). enc_key r = (ep_ID ep, ?m) \<and> nr_vec r = v" using r by auto
  show ?case
  proof (intro conjI allI impI)
    show "\<forall>(ep, v) \<in> set (x # xs). \<exists>r \<in> set (encodings (w_db s')). enc_key r = (ep_ID ep, ?m) \<and> nr_vec r = v"
      using IH[OF d] one by (simp add: x)
    fix r :: encoding_row assume "nr_model r = ?m \<longrightarrow> nr_episode r \<notin> (ep_ID \<circ> fst) ` set (x # xs)"
    then have "nr_model r = ?m \<longrightarrow> nr_episode r \<noteq> ep_ID ep \<and> nr_episode r \<notin> (ep_ID \<circ> fst) ` set xs" by (auto simp: x)
    then show "r \<in> set (encodings (w_db s')) \<longleftrightarrow> r \<in> set (encodings (w_db s))"
      using IH[OF d] K(2)[of r] by auto
  qed
qed simp

lemma traverse_ids:
  assumes "traverse f xs = Inr ys" "\<And>x y. x \<in> set xs \<Longrightarrow> f x = Inr y \<Longrightarrow> g y = x"
  shows "map g ys = xs"
  using assms
proof (induction xs arbitrary: ys)
  case (Cons x xs)
  then obtain a as where "f x = Inr a" "traverse f xs = Inr as" "ys = a # as" by (auto split: sum.splits)
  with Cons show ?case by simp
qed simp

lemma read_episodes_ids:
  assumes "wk_store w = pg_store sv" "read_episodes w job s = Inr eps"
  shows "map ep_ID eps = j_Episodes job"
  using assms(2) unfolding read_episodes_def
  by (rule traverse_ids)
     (auto simp: assms(1) pg_store_def read_db_def Episode_def scanEpisode_def find_Some_iff split: option.splits if_splits)

text \<open>
  C19. An encode job that reports success has encoded: the embedder was asked once, for the contents of
  exactly the job's episodes in order, and answered with one vector for each; every one of them now
  has an encoding by the worker's model holding its own vector; no other encoding was touched, and
  nothing but encodings was written.
\<close>

theorem encode_correct:
  assumes w: "wk_store w = pg_store sv" "wk_clock w = pg_clock sv" and s: "world_ok s"
    and ok: "encode w job s = (None, s')" and dist: "distinct (j_Episodes job)"
  shows "\<exists>eps vectors. read_episodes w job s = Inr eps \<and> map ep_ID eps = j_Episodes job
    \<and> em_EmbedDocuments (wk_embedder w) (map ep_Content eps) s = Inr vectors \<and> length vectors = length eps
    \<and> (\<forall>k < length eps. \<exists>r \<in> set (encodings (w_db s')). nr_episode r = j_Episodes job ! k
          \<and> nr_model r = em_Model (wk_embedder w) \<and> nr_vec r = vectors ! k)
    \<and> (\<forall>r. nr_model r \<noteq> em_Model (wk_embedder w) \<or> nr_episode r \<notin> set (j_Episodes job) \<longrightarrow>
          (r \<in> set (encodings (w_db s')) \<longleftrightarrow> r \<in> set (encodings (w_db s))))
    \<and> job_frame (w_db s) s'"
proof -
  obtain eps where eps: "read_episodes w job s = Inr eps" using ok by (auto simp: encode_def split: sum.splits)
  obtain vectors where v: "em_EmbedDocuments (wk_embedder w) (map ep_Content eps) s = Inr vectors" "length vectors = length eps"
    using ok by (auto simp: encode_def eps split: sum.splits if_splits)
  let ?s1 = "s\<lparr>w_calls := w_calls s + 1\<rparr>" and ?m = "em_Model (wk_embedder w)"
  have put: "put_encodings w (sv_now sv (w_calls s)) (zip eps vectors) ?s1 = (None, s')"
    using ok by (simp add: encode_def eps v w(2) pg_clock_def)
  have ids: "map ep_ID eps = j_Episodes job" by (rule read_episodes_ids[OF w(1) eps])
  have keys: "map (ep_ID \<circ> fst) (zip eps vectors) = j_Episodes job"
    using v(2) ids by (simp add: map_map[symmetric] del: map_map)
  then have d: "distinct (map (ep_ID \<circ> fst) (zip eps vectors))" using dist by (simp only:)
  note W = put_encodings_writes[OF w(1) put d]
  have "\<exists>r \<in> set (encodings (w_db s')). nr_episode r = j_Episodes job ! k \<and> nr_model r = ?m \<and> nr_vec r = vectors ! k"
    if k: "k < length eps" for k
  proof -
    have "(eps ! k, vectors ! k) \<in> set (zip eps vectors)" using k v(2) by (auto simp: in_set_zip)
    moreover have "ep_ID (eps ! k) = j_Episodes job ! k" using k ids by (metis nth_map)
    ultimately show ?thesis using W by fastforce
  qed
  moreover have "r \<in> set (encodings (w_db s')) \<longleftrightarrow> r \<in> set (encodings (w_db s))"
    if r: "nr_model r \<noteq> ?m \<or> nr_episode r \<notin> set (j_Episodes job)" for r :: encoding_row
  proof -
    have "(ep_ID \<circ> fst) ` set (zip eps vectors) = set (j_Episodes job)" using keys by (metis set_map)
    then show ?thesis using W r by simp
  qed
  moreover have "job_frame (w_db s) s'"
    using pg_jobs.encode_keeps[OF w _ ok, of "w_db s"] s by (simp add: job_frame_def same_log_def)
  ultimately show ?thesis using eps ids v by blast
qed

text \<open>What a successful \<open>extract\<close> did last: it applied one extraction of the job's episodes.\<close>

lemma extract_applied:
  assumes ck: "wk_clock w = pg_clock sv" and ok: "extract_job w x (pg_facts sv) job s = (None, s')"
  obtains cmd mint out where "xc_Scope cmd = j_Scope job" "xc_Extractor cmd = ex_Model x" "xc_Episodes cmd = j_Episodes job"
    "ApplyExtraction (sv_text_ok sv) (sv_coll sv) mint cmd (w_db s) = Inr (out, w_db s')"
proof -
  let ?t = "sv_now sv (w_calls s)" and ?t' = "sv_now sv (w_calls s + 1)"
  let ?s2 = "s\<lparr>w_calls := w_calls s + 2\<rparr>"
  have ck2: "wk_clock w s = (?t, s\<lparr>w_calls := w_calls s + 1\<rparr>)"
    "wk_clock w (s\<lparr>w_calls := w_calls s + 1\<rparr>) = (?t', ?s2)" by (simp_all add: ck pg_clock_def)
  note ck3 = ck2[simplified]
  obtain result :: ExtractResult and out where ap: "fp_ApplyExtraction (pg_facts sv)
      \<lparr>xc_Scope = j_Scope job, xc_Extractor = ex_Model x, xc_Episodes = j_Episodes job,
       xc_Assert = xs_Assert result, xc_Retract = xs_Retract result, xc_At = ?t'\<rparr> ?s2 = Inr (out, s')"
    using ok by (clarsimp simp: extract_job_def Let_def ck3 split: if_splits sum.splits)
  then have "ApplyExtraction (sv_text_ok sv) (sv_coll sv) (sv_mint sv (w_calls s + 2) ''facts'')
      \<lparr>xc_Scope = j_Scope job, xc_Extractor = ex_Model x, xc_Episodes = j_Episodes job,
       xc_Assert = xs_Assert result, xc_Retract = xs_Retract result, xc_At = ?t'\<rparr> (w_db s) = Inr (out, w_db s')"
    using on_db_Inr(1) by (fastforce simp: pg_facts_def)
  then show thesis by (rule that[rotated -1]) simp_all
qed

lemma extract_failed_writes_nothing:
  assumes ck: "wk_clock w = pg_clock sv" and "extract_job w x (pg_facts sv) job s = (Some e, s')"
  shows "w_db s' = w_db s"
  using assms(2) by (auto simp: extract_job_def Let_def ck pg_clock_def split: if_splits sum.splits)

text \<open>
  C18. An extract job may be delivered more than once. After one delivery succeeded, every later delivery
  of the same job to a worker with the same extractor model, whatever that model answers this time
  and whether or not the attempt fails, leaves every table of the database exactly as the first
  left it, and the facts it would report are the first delivery's.
\<close>

theorem extract_at_least_once:
  assumes w: "wk_clock w = pg_clock sv" "wk_clock w2 = pg_clock sv" "ex_Model x2 = ex_Model x" and s: "world_ok s"
    and first: "extract_job w x (pg_facts sv) job s = (None, s1)"
    and again: "w_db s1' = w_db s1" "extract_job w2 x2 (pg_facts sv) job s1' = (r, s2)"
  shows "w_db s2 = w_db s1"
proof (cases r)
  case (Some e)
  then show ?thesis using extract_failed_writes_nothing[OF w(2)] again by simp
next
  case None
  obtain cmd mint out where c: "xc_Scope cmd = j_Scope job" "xc_Extractor cmd = ex_Model x" "xc_Episodes cmd = j_Episodes job"
    and A: "ApplyExtraction (sv_text_ok sv) (sv_coll sv) mint cmd (w_db s) = Inr (out, w_db s1)"
    by (rule extract_applied[OF w(1) first])
  obtain cmd2 mint2 out2 where c2: "xc_Scope cmd2 = j_Scope job" "xc_Extractor cmd2 = ex_Model x2" "xc_Episodes cmd2 = j_Episodes job"
    and A2: "ApplyExtraction (sv_text_ok sv) (sv_coll sv) mint2 cmd2 (w_db s1) = Inr (out2, w_db s2)"
    using extract_applied[OF w(2)] again None by metis
  obtain as2 where v: "ExtractCommand_Validate cmd2 = None" "dedupeAssertions (xc_Assert cmd2) = Inr as2"
    by (rule ApplyExtraction_Inr[OF A2])
  have "db_inv (w_db s)" using s by (simp add: world_ok_def)
  from ApplyExtraction_again[OF this A v, of mint2] show ?thesis using c c2 w(3) A2 by simp
qed

subsection \<open>A concrete worker\<close>

definition sample_extractor :: "'s Extractor" where
  "sample_extractor = \<lparr>ex_Extract = \<lambda>_ _. Inr \<lparr>xs_Assert = [sample_assertion], xs_Retract = []\<rparr>, ex_Model = ''x''\<rparr>"

definition sample_worker_config :: "world WorkerConfig" where
  "sample_worker_config =
     \<lparr>wc_Store = Some (pg_store sample_server), wc_Queue = None, wc_Embedder = Some sample_embedder, wc_Extractor = Some sample_extractor,
      wc_FactStore = None, wc_KnownFactLimit = 0, wc_Clock = Some (pg_clock sample_server), wc_ID = ''w1'', wc_Batch = 0,
      wc_LeaseDuration = 0, wc_PollInterval = 0, wc_ReclaimInterval = 0\<rparr>"

definition sample_worker :: "world Worker" where
  "sample_worker = projr (NewWorker (pg_clock sample_server) ''host/1'' sample_worker_config)"

lemma sample_worker:
  "NewWorker (pg_clock sample_server) ''host/1'' sample_worker_config = Inr sample_worker"
  "worker_config sample_server sample_worker_config"
proof -
  have ports: "st_asQueue (pg_store sample_server) = Some (pg_queue sample_server)"
    "st_asFactStore (pg_store sample_server) = Some (pg_facts sample_server)" by (simp_all add: pg_store_def)
  have "\<exists>w. NewWorker (pg_clock sample_server) ''host/1'' sample_worker_config = Inr w"
    by (simp add: NewWorker_def sample_worker_config_def sample_embedder_def sample_extractor_def resolveQueue_def resolveFactStore_def ports)
  then show "NewWorker (pg_clock sample_server) ''host/1'' sample_worker_config = Inr sample_worker" by (auto simp: sample_worker_def)
  show "worker_config sample_server sample_worker_config" by (simp add: worker_config_def sample_worker_config_def)
qed

definition sample_queued :: world where
  "sample_queued = \<lparr>w_db = sample_log\<lparr>jobs := [\<lparr>jr_id = 8, jr_kind = ''encode'', jr_scope = ''user:1'', jr_episodes = [1], jr_state = ''pending'',
     jr_attempts = 0, jr_max_attempts = 5, jr_run_after = 7, jr_leased_until = None, jr_leased_by = None, jr_last_error = None,
     jr_created_at = 7, jr_updated_at = 7\<rparr>]\<rparr>, w_calls = 1\<rparr>"

lemma sample_queued_ok: "world_ok sample_queued"
  using sample_world_ok sample_log_inv
  by (simp add: world_ok_def sample_world_def sample_queued_def windows_ok_def)
     (intro db_inv_jobs, assumption, simp add: jobs_ok_def job_check_def sample_log_def empty_db_def)

theorem Run_keeps_invariants_witness:
  "world_ok (snd (Run (\<lambda>_ _. ''failed'') (\<lambda>_. None) (\<lambda>_ _. None) sample_worker 3 sample_queued))
    \<and> episodes (w_db (snd (Run (\<lambda>_ _. ''failed'') (\<lambda>_. None) (\<lambda>_ _. None) sample_worker 3 sample_queued))) = episodes sample_log"
proof -
  obtain r s' where R: "Run (\<lambda>_ _. ''failed'') (\<lambda>_. None) (\<lambda>_ _. None) sample_worker 3 sample_queued = (r, s')"
    by (cases "Run (\<lambda>_ _. ''failed'') (\<lambda>_. None) (\<lambda>_ _. None) sample_worker 3 sample_queued")
  show ?thesis using Run_keeps_invariants[OF sample_worker sample_queued_ok R] R by (simp add: sample_queued_def)
qed


theorem knownFactCue_correct_witness:
  "ValidString (knownFactCue [episode_of sample_row]) \<and> length (knownFactCue [episode_of sample_row]) \<le> 8192
    \<and> knownFactCue [episode_of sample_row] = joined '''' [episode_of sample_row]"
proof -
  have "\<forall>ep \<in> set [episode_of sample_row]. ValidString (ep_Content ep)" "length (joined '''' [episode_of sample_row]) \<le> 8192"
    by (simp_all add: episode_of_def sample_row_def ascii_simps)
  then show ?thesis using knownFactCue_correct[of "[episode_of sample_row]"] by blast
qed

definition sample_encode_job :: Job where
  "sample_encode_job = \<lparr>j_ID = 8, j_Kind = ''encode'', j_Scope = ''user:1'', j_Episodes = [1], j_State = ''running'', j_Attempts = 1,
     j_MaxAttempts = 5, j_RunAfter = Time 7 0, j_LeasedUntil = Time 99 0, j_LeasedBy = ''w1'', j_LastError = '''',
     j_CreatedAt = Time 7 0, j_UpdatedAt = Time 7 0\<rparr>"

lemma NewWorker_more:
  assumes "NewWorker clk dflt cfg = Inr w"
  shows "wc_Embedder cfg = Some (wk_embedder w)" "wk_extractor w = wc_Extractor cfg"
    "wk_known w = or_default (wc_KnownFactLimit cfg) DefaultKnownFactLimit"
  by (rule NewWorker_Inr_cases[OF assms]; simp)+

lemma sample_worker_ports:
  "wk_store sample_worker = pg_store sample_server" "wk_clock sample_worker = pg_clock sample_server"
  using worker_config_on[OF sample_worker] by (simp_all add: worker_on_def)

lemma sample_worker_embedder: "wk_embedder sample_worker = sample_embedder" "wk_known sample_worker = 100"
  using NewWorker_more[OF sample_worker(1)] by (simp_all add: sample_worker_config_def or_default_def DefaultKnownFactLimit_def)

lemma sample_read: "w_db w = sample_log \<Longrightarrow> st_Episode (pg_store sample_server) ''user:1'' 1 w = Inr (episode_of sample_row)"
  by (simp add: pg_store_def read_db_def Episode_def ScopeID_Validate_def limit_defs id_IsZero_def sample_log_def
      empty_db_def sample_row_def scanEpisode_def episode_of_def Role_Valid_check ascii_simps)

theorem encode_correct_witness:
  "\<exists>s'. encode sample_worker sample_encode_job sample_world = (None, s')
    \<and> (\<exists>r \<in> set (encodings (w_db s')). nr_episode r = 1 \<and> nr_vec r = [Fin 1, Fin 0])"
proof -
  have "w_db sample_world = sample_log" by (simp add: sample_world_def)
  then have r: "read_episodes sample_worker sample_encode_job sample_world = Inr [episode_of sample_row]"
    by (simp add: read_episodes_def sample_worker_ports sample_encode_job_def sample_read)
  have e: "em_EmbedDocuments (wk_embedder sample_worker) (map ep_Content [episode_of sample_row]) sample_world = Inr [[Fin 1, Fin 0]]"
    by (simp add: sample_worker_embedder sample_embedder_def)
  let ?enc = "\<lparr>en_Episode = 1, en_Model = ''m'', en_Vector = [Fin 1, Fin 0], en_Surprise = Fin 0, en_EncodedAt = Time 51 0\<rparr>"
  have "\<exists>d'. PutEncoding ValidString ?enc sample_log = Inr ((), d')"
    by (subst PutEncoding_at[OF sample_log_inv, where e = sample_row])
       (simp_all add: validateEncoding_def sample_log_def empty_db_def id_IsZero_def IsZero_def outside_unit_def is_finite_def
        sample_row_def ascii_simps)
  then obtain d' where P: "PutEncoding ValidString ?enc sample_log = Inr ((), d')" by blast
  have "wk_clock sample_worker sample_world = (Time 51 0, \<lparr>w_db = sample_log, w_calls = 2\<rparr>)"
    by (simp add: sample_worker_ports pg_clock_def sample_world_def sample_server_def)
  then have "encode sample_worker sample_encode_job sample_world =
      put_encodings sample_worker (Time 51 0) [(episode_of sample_row, [Fin 1, Fin 0])] \<lparr>w_db = sample_log, w_calls = 2\<rparr>"
    using e by (simp add: encode_def r)
  moreover have "st_PutEncoding (pg_store sample_server) ?enc \<lparr>w_db = sample_log, w_calls = 2\<rparr> = Inr ((), \<lparr>w_db = d', w_calls = 3\<rparr>)"
    using P by (simp add: pg_store_def on_db_def sample_server_def)
  moreover have "ep_ID (episode_of sample_row) = 1" "em_Model (wk_embedder sample_worker) = ''m''"
    by (simp_all add: episode_of_def sample_row_def sample_worker_embedder sample_embedder_def)
  ultimately obtain s' where ok: "encode sample_worker sample_encode_job sample_world = (None, s')"
    by (simp add: sample_worker_ports)
  show ?thesis using encode_correct[OF sample_worker_ports(1,2) sample_world_ok ok] ok r e
    by (auto simp: sample_encode_job_def)
qed

definition sample_server9 :: server where
  "sample_server9 = sample_server\<lparr>sv_mint := \<lambda>_ _ k. 3 + of_nat k, sv_now := \<lambda>_. Time 9 0\<rparr>"

definition sample_worker9 :: "world Worker" where
  "sample_worker9 = sample_worker\<lparr>wk_store := pg_store sample_server9, wk_clock := pg_clock sample_server9\<rparr>"

lemma sample_known:
  "fp_Facts (pg_facts sample_server9) (known_query sample_worker9 sample_extractor sample_encode_job [episode_of sample_row]) sample_world = Inr []"
proof -
  let ?eps = "[episode_of sample_row]"
  have "cue_loop '''' ?eps = ''hello''" by (simp add: maxKnownFactCue_def push_bit_eq_mult episode_of_def sample_row_def)
  then have cue: "knownFactCue ?eps = ''hello''" by (simp add: knownFactCue_def maxKnownFactCue_def push_bit_eq_mult)
  have "ep_IngestedAt (episode_of sample_row) = Time 7 0" "ep_OccurredAt (episode_of sample_row) = Time 5 0"
    by (simp_all add: episode_of_def sample_row_def)
  then have q: "known_query sample_worker9 sample_extractor sample_encode_job ?eps =
      \<lparr>fq_Scope = ''user:1'', fq_Extractor = ''x'', fq_AsOf = Time 7 0, fq_At = Time 5 0, fq_IncludeClosed = False, fq_Subjects = [],
       fq_Predicates = [], fq_MinConfidence = Fin 0, fq_Text = ''hello'', fq_Limit = 100\<rparr>"
    using sample_worker_embedder(2)
    by (simp add: known_query_def cue sample_worker9_def sample_extractor_def sample_encode_job_def)
  show ?thesis
    by (simp add: q pg_facts_def read_db_def Facts_def FactQuery_Validate_def ScopeID_Validate_def limit_defs outside_unit_def IsZero_def
        sample_world_def sample_log_def empty_db_def sample_server9_def sample_server_def ascii_simps)
qed

lemma sample_extract_first:
  "\<exists>s1. extract_job sample_worker9 sample_extractor (pg_facts sample_server9) sample_encode_job sample_world = (None, s1)"
proof -
  have "st_Episode (pg_store sample_server9) = st_Episode (pg_store sample_server)" by (simp add: pg_store_def)
  moreover have "w_db sample_world = sample_log" by (simp add: sample_world_def)
  ultimately have r: "read_episodes sample_worker9 sample_encode_job sample_world = Inr [episode_of sample_row]"
    by (simp add: read_episodes_def sample_worker9_def sample_encode_job_def sample_read)
  have ck: "wk_clock sample_worker9 w = (Time 9 0, w\<lparr>w_calls := w_calls w + 1\<rparr>)" for w
    by (simp add: sample_worker9_def pg_clock_def sample_server9_def)
  have x: "ex_Extract sample_extractor q w = Inr \<lparr>xs_Assert = [sample_assertion], xs_Retract = []\<rparr>"
    "ex_Model sample_extractor = ''x''" for q w by (simp_all add: sample_extractor_def)
  have "fp_ApplyExtraction (pg_facts sample_server9) sample_extract (sample_world\<lparr>w_calls := 3\<rparr>) =
      Inr ([scanFact sample_fact], \<lparr>w_db = sample_facts, w_calls = 4\<rparr>)"
    using sample_extract_run by (simp add: pg_facts_def on_db_def sample_world_def sample_server9_def sample_server_def)
  moreover have "sample_world\<lparr>w_calls := Suc (Suc (w_calls sample_world))\<rparr> = sample_world\<lparr>w_calls := 3\<rparr>" by (simp add: sample_world_def)
  moreover have "j_Episodes sample_encode_job = [1]" "j_Scope sample_encode_job = ''user:1''" by (simp_all add: sample_encode_job_def)
  ultimately show ?thesis
    by (simp add: extract_job_def r sample_known ck x sort_by_def Let_def sample_extract_def)
qed

theorem extract_at_least_once_witness:
  "\<exists>s1. extract_job sample_worker9 sample_extractor (pg_facts sample_server9) sample_encode_job sample_world = (None, s1)
    \<and> w_db (snd (extract_job sample_worker9 sample_extractor (pg_facts sample_server9) sample_encode_job s1)) = w_db s1"
proof -
  let ?run = "extract_job sample_worker9 sample_extractor (pg_facts sample_server9) sample_encode_job"
  obtain s1 where one: "?run sample_world = (None, s1)" using sample_extract_first by blast
  obtain r s2 where two: "?run s1 = (r, s2)" by (cases "?run s1")
  have ck: "wk_clock sample_worker9 = pg_clock sample_server9" by (simp add: sample_worker9_def)
  show ?thesis using extract_at_least_once[OF ck ck refl sample_world_ok one refl two] one two by simp
qed

end
