(* ===== verification/Ops.thy ===== *)
theory Ops
  imports Worker
begin

section \<open>Operating a deployment\<close>

text \<open>
  \<^verbatim>\<open>ops/*.go\<close> and \<^verbatim>\<open>postgres/scope.go\<close>: the catalogue of scopes, the queue as an operator reads it, and
  \<open>Backfill\<close>, which enqueues the work the log implies and the queue does not hold. \<^verbatim>\<open>ops.Store\<close> and
  \<^verbatim>\<open>ops.FactStore\<close> are records of their methods; a nil interface is \<open>None\<close>.

  The loops of \<open>Backfill\<close> end because a port keeps its word (a page is never longer than its limit, the
  catalogue is finite), not by themselves, so both take fuel: \<open>None\<close> is a loop still running. The lemmas
  show how much fuel is enough on the PostgreSQL adapter, that a backfill that says it is done has a
  job outstanding for every pending episode it was asked about, and that a backfill of one scope never
  looks at another, which is what makes the cursor of a walk over all scopes lose the rest of the walk.
\<close>

subsection \<open>The catalogue\<close>

definition DefaultScopesLimit :: int where "DefaultScopesLimit = 100"

record Scope =
  sp_ID :: ScopeID
  sp_LastSeq :: int
  sp_CreatedAt :: gotime

record ScopeQuery =
  sq_Prefix :: ScopeID
  sq_After :: ScopeID
  sq_Limit :: int

definition ScopeQuery_Validate :: "ScopeQuery \<Rightarrow> err option" where
  "ScopeQuery_Validate q = first_err
     [if sq_Prefix q \<noteq> '''' then ScopeID_Validate (sq_Prefix q) else None,
      if sq_After q \<noteq> '''' then ScopeID_Validate (sq_After q) else None,
      reject_if (sq_Limit q < 0) ErrInvalidConfig]"

definition scanScope :: "scope_row \<Rightarrow> Scope" where
  "scanScope r = \<lparr>sp_ID = sc_id r, sp_LastSeq = sc_last_seq r, sp_CreatedAt = UTC (Time (sc_created_at r) 0)\<rparr>"

text \<open>\<open>coll\<close> is the collation of the id column: \<^verbatim>\<open>id > $1\<close> is the negation of \<open>coll id $1\<close>.\<close>

definition Scopes ::
  "(string \<Rightarrow> bool) \<Rightarrow> (string \<Rightarrow> string \<Rightarrow> bool) \<Rightarrow> ScopeQuery \<Rightarrow> db \<Rightarrow> err + Scope list" where
  "Scopes text_ok coll q d =
     (case ScopeQuery_Validate q of Some e \<Rightarrow> Inl e
      | None \<Rightarrow>
          let limit = (if sq_Limit q = 0 then DefaultScopesLimit else sq_Limit q);
              rows = filter (\<lambda>r. (sq_After q \<noteq> '''' \<longrightarrow> \<not> coll (sc_id r) (sq_After q)) \<and>
                (sq_Prefix q \<noteq> '''' \<longrightarrow> prefix (sq_Prefix q) (sc_id r))) (scopes d)
          in if \<not> db_ready d then Inl ErrSchemaNotReady
             else if \<not> (text_ok (sq_After q) \<and> text_ok (sq_Prefix q)) then Inl (PgErr pg_invalid_text)
             else Inr (map scanScope (take (nat limit) (sort_by (\<lambda>x y. coll (sc_id x) (sc_id y)) rows))))"

subsection \<open>The ports of this package\<close>

record 's OpsStore =
  os_Scopes :: "ScopeQuery \<Rightarrow> 's \<Rightarrow> err + Scope list"
  os_Episode :: "ScopeID \<Rightarrow> EpisodeID \<Rightarrow> 's \<Rightarrow> err + Episode"
  os_PendingEncodings :: "PendingEncodingsQuery \<Rightarrow> 's \<Rightarrow> err + EpisodeID list"
  os_Enqueue :: "NewJob \<Rightarrow> gotime \<Rightarrow> 's \<Rightarrow> err + Job \<times> 's"
  os_Jobs :: "JobQuery \<Rightarrow> 's \<Rightarrow> err + Job list"
  os_Stats :: "ScopeID \<Rightarrow> 's \<Rightarrow> err + JobCount list"
  os_Retry :: "JobID \<Rightarrow> gotime \<Rightarrow> 's \<Rightarrow> err + Job \<times> 's"
  os_Purge :: "PurgeRequest \<Rightarrow> 's \<Rightarrow> err + nat \<times> 's"
  os_PendingExtractions :: "(PendingExtractionsQuery \<Rightarrow> 's \<Rightarrow> err + EpisodeID list) option"

type_synonym 's OpsFactStore = "PendingExtractionsQuery \<Rightarrow> 's \<Rightarrow> err + EpisodeID list"

record 's OpsConfig =
  oc_Store :: "'s OpsStore option"
  oc_FactStore :: "'s OpsFactStore option"
  oc_Embedder :: "'s Embedder option"
  oc_Extractor :: "'s Extractor option"
  oc_Clock :: "'s Clock option"

record 's Ops =
  o_store :: "'s OpsStore"
  o_facts :: "'s OpsFactStore option"
  o_embedder :: "'s Embedder option"
  o_extractor :: "'s Extractor option"
  o_clock :: "'s Clock"
  o_kinds :: "JobKind list"

definition Ops_New :: "'s Clock \<Rightarrow> 's OpsConfig \<Rightarrow> err + 's Ops" where
  "Ops_New systemClock cfg =
     (case oc_Store cfg of None \<Rightarrow> Inl ErrInvalidConfig | Some store \<Rightarrow>
      let fp = (case oc_FactStore cfg of Some f \<Rightarrow> Some f | None \<Rightarrow> os_PendingExtractions store) in
      if (case oc_Embedder cfg of Some x \<Rightarrow> em_Model x = '''' | None \<Rightarrow> False) then Inl ErrInvalidConfig
      else if (case oc_Extractor cfg of Some x \<Rightarrow> ex_Model x = '''' | None \<Rightarrow> False) then Inl ErrInvalidConfig
      else if oc_Extractor cfg \<noteq> None \<and> fp = None then Inl ErrInvalidConfig
      else Inr \<lparr>o_store = store, o_facts = fp, o_embedder = oc_Embedder cfg, o_extractor = oc_Extractor cfg,
                o_clock = (case oc_Clock cfg of None \<Rightarrow> systemClock | Some c \<Rightarrow> c),
                o_kinds = (if oc_Embedder cfg \<noteq> None then [JobKindEncode] else [])
                  @ (if oc_Extractor cfg \<noteq> None then [JobKindExtract] else [])\<rparr>)"

definition Ops_Scopes :: "'s Ops \<Rightarrow> ScopeQuery \<Rightarrow> 's \<Rightarrow> err + Scope list" where
  "Ops_Scopes ops q = os_Scopes (o_store ops) q"

definition Ops_Jobs :: "'s Ops \<Rightarrow> JobQuery \<Rightarrow> 's \<Rightarrow> err + Job list" where
  "Ops_Jobs ops q = os_Jobs (o_store ops) q"

definition Ops_Stats :: "'s Ops \<Rightarrow> ScopeID \<Rightarrow> 's \<Rightarrow> err + JobCount list" where
  "Ops_Stats ops scope = os_Stats (o_store ops) scope"

definition Ops_Retry :: "'s Ops \<Rightarrow> JobID \<Rightarrow> 's \<Rightarrow> (err + Job) \<times> 's" where
  "Ops_Retry ops i s =
     (let (now, s1) = o_clock ops s in
      case os_Retry (o_store ops) i now s1 of Inl e \<Rightarrow> (Inl e, s1) | Inr (j, s2) \<Rightarrow> (Inr j, s2))"

definition Ops_Purge :: "'s Ops \<Rightarrow> PurgeRequest \<Rightarrow> 's \<Rightarrow> err + nat \<times> 's" where
  "Ops_Purge ops req = os_Purge (o_store ops) req"

subsection \<open>Backfill\<close>

definition DefaultBackfillBatch :: int where "DefaultBackfillBatch = 16"
definition DefaultBackfillLimit :: int where "DefaultBackfillLimit = 1000"
definition backfillScopePage :: int where "backfillScopePage = 100"

record BackfillRequest =
  bf_Scope :: ScopeID
  bf_Kinds :: "JobKind list"
  bf_AfterSeq :: int
  bf_BatchSize :: int
  bf_Limit :: int
  bf_RunAfter :: gotime

record BackfillCount =
  bn_Episodes :: nat
  bn_Jobs :: nat
  bn_Collapsed :: nat

record BackfillResult =
  br_Encode :: BackfillCount
  br_Extract :: BackfillCount
  br_NextScope :: ScopeID
  br_NextSeq :: int
  br_Done :: bool

record backfillCursor =
  bc_kind :: JobKind
  bc_seq :: int
  bc_remaining :: int
  bc_exhausted :: bool

definition BackfillRequest_Validate :: "BackfillRequest \<Rightarrow> err option" where
  "BackfillRequest_Validate r = first_err
     ([if bf_Scope r \<noteq> '''' then ScopeID_Validate (bf_Scope r) else None]
      @ map (\<lambda>k. reject_if (\<not> JobKind_Valid k) ErrInvalidJobKind) (bf_Kinds r)
      @ [reject_if (bf_AfterSeq r < 0) ErrInvalidConfig,
         reject_if (bf_AfterSeq r > 0 \<and> bf_Scope r = '''') ErrInvalidConfig,
         reject_if (bf_BatchSize r < 0) ErrInvalidConfig,
         reject_if (bf_Limit r < 0) ErrInvalidConfig])"

fun backfill_kinds_loop :: "JobKind list \<Rightarrow> JobKind list \<Rightarrow> JobKind list \<Rightarrow> err + JobKind list" where
  "backfill_kinds_loop handled [] out = Inr out"
| "backfill_kinds_loop handled (kind # rest) out =
     (if kind \<notin> set handled then Inl ErrInvalidConfig
      else backfill_kinds_loop handled rest (if kind \<in> set out then out else out @ [kind]))"

definition backfillKinds :: "'s Ops \<Rightarrow> JobKind list \<Rightarrow> err + JobKind list" where
  "backfillKinds ops requested =
     (if length requested = 0 then Inr (o_kinds ops) else backfill_kinds_loop (o_kinds ops) requested [])"

definition spentBudget :: "backfillCursor list \<Rightarrow> bool" where
  "spentBudget cursors \<longleftrightarrow> list_ex (\<lambda>c. bc_remaining c = 0) cursors"

definition resumeSeq :: "backfillCursor list \<Rightarrow> int" where
  "resumeSeq cursors =
     (let next' = foldl (\<lambda>next c. if bc_exhausted c then next else if next < 0 \<or> bc_seq c < next then bc_seq c else next) (- 1) cursors
      in if next' < 0 then 0 else next')"

definition count_for :: "JobKind \<Rightarrow> (BackfillCount \<Rightarrow> BackfillCount) \<Rightarrow> BackfillResult \<Rightarrow> BackfillResult" where
  "count_for kind f out =
     (if kind = JobKindExtract then out\<lparr>br_Extract := f (br_Extract out)\<rparr> else out\<lparr>br_Encode := f (br_Encode out)\<rparr>)"

definition pending :: "'s Ops \<Rightarrow> JobKind \<Rightarrow> ScopeID \<Rightarrow> int \<Rightarrow> int \<Rightarrow> 's \<Rightarrow> err + EpisodeID list" where
  "pending ops kind scope afterSeq limit s =
     (if kind = JobKindEncode then
        (case o_embedder ops of None \<Rightarrow> Inl panic_nil
         | Some x \<Rightarrow> os_PendingEncodings (o_store ops) \<lparr>pe_Scope = scope, pe_Model = em_Model x, pe_AfterSeq = afterSeq, pe_Limit = limit\<rparr> s)
      else if kind = JobKindExtract then
        (case (o_extractor ops, o_facts ops) of
           (Some x, Some fp) \<Rightarrow> fp \<lparr>px_Scope = scope, px_Extractor = ex_Model x, px_AfterSeq = afterSeq, px_Limit = limit\<rparr> s
         | _ \<Rightarrow> Inl panic_nil)
      else Inl ErrInvalidJobKind)"

text \<open>The slices \<^verbatim>\<open>ids[start:min(start+batch, len(ids))]\<close>; \<open>batch\<close> is positive.\<close>

fun batches :: "nat \<Rightarrow> 'a list \<Rightarrow> 'a list list" where
  "batches n xs = (if xs = [] \<or> n = 0 then [] else take n xs # batches n (drop n xs))"

declare batches.simps [simp del]

fun enqueue_each ::
  "'s Ops \<Rightarrow> JobKind \<Rightarrow> ScopeID \<Rightarrow> gotime \<Rightarrow> gotime \<Rightarrow> EpisodeID list list \<Rightarrow> nat \<Rightarrow> nat \<Rightarrow> 's \<Rightarrow> (nat \<times> nat \<times> err option) \<times> 's" where
  "enqueue_each ops kind scope now runAfter [] n collapsed s = ((n, collapsed, None), s)"
| "enqueue_each ops kind scope now runAfter (ids # rest) n collapsed s =
     (case os_Enqueue (o_store ops)
             \<lparr>nj_Kind = kind, nj_Scope = scope, nj_Episodes = ids, nj_RunAfter = runAfter, nj_MaxAttempts = 0\<rparr> now s of
        Inl e \<Rightarrow> ((n, collapsed, Some e), s)
      | Inr (job, s') \<Rightarrow>
          enqueue_each ops kind scope now runAfter rest (n + 1) (if Before (j_CreatedAt job) now then collapsed + 1 else collapsed) s')"

definition enqueueBatches ::
  "'s Ops \<Rightarrow> JobKind \<Rightarrow> ScopeID \<Rightarrow> EpisodeID list \<Rightarrow> int \<Rightarrow> gotime \<Rightarrow> gotime \<Rightarrow> 's \<Rightarrow> (nat \<times> nat \<times> err option) \<times> 's" where
  "enqueueBatches ops kind scope ids batch now runAfter s = enqueue_each ops kind scope now runAfter (batches (nat batch) ids) 0 0 s"

text \<open>One visit of a cursor that still has work and budget: its page, its jobs, its new place.\<close>

definition advance ::
  "'s Ops \<Rightarrow> ScopeID \<Rightarrow> int \<Rightarrow> gotime \<Rightarrow> gotime \<Rightarrow> backfillCursor \<Rightarrow> BackfillResult \<Rightarrow> 's \<Rightarrow>
   (err + bool \<times> backfillCursor) \<times> BackfillResult \<times> 's" where
  "advance ops scope batch now runAfter c out s =
     (case pending ops (bc_kind c) scope (bc_seq c) (bc_remaining c) s of Inl e \<Rightarrow> (Inl e, out, s) | Inr ids \<Rightarrow>
      if length ids = 0 then (Inr (False, c\<lparr>bc_exhausted := True\<rparr>), out, s)
      else let ((n, collapsed, err), s1) = enqueueBatches ops (bc_kind c) scope ids batch now runAfter s;
               out1 = count_for (bc_kind c) (\<lambda>k. \<lparr>bn_Episodes = bn_Episodes k + length ids, bn_Jobs = bn_Jobs k + n,
                                                bn_Collapsed = bn_Collapsed k + collapsed\<rparr>) out
           in case err of Some e \<Rightarrow> (Inl e, out1, s1) | None \<Rightarrow>
              (case os_Episode (o_store ops) scope (last ids) s1 of Inl e \<Rightarrow> (Inl e, out1, s1) | Inr ep \<Rightarrow>
               (Inr (True, c\<lparr>bc_seq := ep_Seq ep, bc_remaining := bc_remaining c - int (length ids)\<rparr>), out1, s1)))"

fun backfill_pass ::
  "'s Ops \<Rightarrow> ScopeID \<Rightarrow> int \<Rightarrow> gotime \<Rightarrow> gotime \<Rightarrow> backfillCursor list \<Rightarrow> BackfillResult \<Rightarrow> 's \<Rightarrow>
   (err + bool \<times> backfillCursor list) \<times> BackfillResult \<times> 's" where
  "backfill_pass ops scope batch now runAfter [] out s = (Inr (False, []), out, s)"
| "backfill_pass ops scope batch now runAfter (c # cs) out s =
     (if bc_exhausted c \<or> bc_remaining c = 0 then
        (case backfill_pass ops scope batch now runAfter cs out s of
           (Inl e, r) \<Rightarrow> (Inl e, r) | (Inr (p, cs'), r) \<Rightarrow> (Inr (p, c # cs'), r))
      else case advance ops scope batch now runAfter c out s of
        (Inl e, r) \<Rightarrow> (Inl e, r)
      | (Inr (p, c'), out1, s1) \<Rightarrow>
          (case backfill_pass ops scope batch now runAfter cs out1 s1 of
             (Inl e, r) \<Rightarrow> (Inl e, r) | (Inr (p', cs'), r) \<Rightarrow> (Inr (p \<or> p', c' # cs'), r)))"

fun backfillScope ::
  "nat \<Rightarrow> 's Ops \<Rightarrow> ScopeID \<Rightarrow> int \<Rightarrow> gotime \<Rightarrow> gotime \<Rightarrow> backfillCursor list \<Rightarrow> BackfillResult \<Rightarrow> 's \<Rightarrow>
   ((err + backfillCursor list) \<times> BackfillResult \<times> 's) option" where
  "backfillScope 0 ops scope batch now runAfter cs out s = None"
| "backfillScope (Suc fuel) ops scope batch now runAfter cs out s =
     (case backfill_pass ops scope batch now runAfter cs out s of
        (Inl e, r) \<Rightarrow> Some (Inl e, r)
      | (Inr (progressed, cs'), out1, s1) \<Rightarrow>
          if \<not> progressed \<or> spentBudget cs' then Some (Inr cs', out1, s1)
          else backfillScope fuel ops scope batch now runAfter cs' out1 s1)"

definition seed_cursors :: "BackfillRequest \<Rightarrow> ScopeID \<Rightarrow> backfillCursor list \<Rightarrow> backfillCursor list" where
  "seed_cursors req scope cs =
     map (\<lambda>c. c\<lparr>bc_seq := (if scope = bf_Scope req then bf_AfterSeq req else 0), bc_exhausted := False\<rparr>) cs"

text \<open>The scopes of one page. \<open>Inr None\<close>: the walk stopped, on a spent budget. \<open>Inr (Some cs)\<close>: it goes on.\<close>

fun backfill_scopes ::
  "nat \<Rightarrow> 's Ops \<Rightarrow> BackfillRequest \<Rightarrow> int \<Rightarrow> gotime \<Rightarrow> ScopeID list \<Rightarrow> backfillCursor list \<Rightarrow> BackfillResult \<Rightarrow> 's \<Rightarrow>
   ((err + backfillCursor list option) \<times> BackfillResult \<times> 's) option" where
  "backfill_scopes fuel ops req batch now [] cs out s = Some (Inr (Some cs), out, s)"
| "backfill_scopes fuel ops req batch now (scope # rest) cs out s =
     (case backfillScope fuel ops scope batch now (bf_RunAfter req) (seed_cursors req scope cs) out s of
        None \<Rightarrow> None
      | Some (Inl e, r) \<Rightarrow> Some (Inl e, r)
      | Some (Inr cs', out1, s1) \<Rightarrow>
          if spentBudget cs' then Some (Inr None, out1\<lparr>br_NextScope := scope, br_NextSeq := resumeSeq cs'\<rparr>, s1)
          else backfill_scopes fuel ops req batch now rest cs' out1 s1)"

fun backfill_walk ::
  "nat \<Rightarrow> nat \<Rightarrow> 's Ops \<Rightarrow> BackfillRequest \<Rightarrow> int \<Rightarrow> gotime \<Rightarrow> ScopeID \<Rightarrow> backfillCursor list \<Rightarrow> BackfillResult \<Rightarrow> 's \<Rightarrow>
   (err option \<times> BackfillResult \<times> 's) option" where
  "backfill_walk 0 fuel ops req batch now after cs out s = None"
| "backfill_walk (Suc pages) fuel ops req batch now after cs out s =
     (if bf_Scope req \<noteq> '''' then
        (case backfill_scopes fuel ops req batch now [bf_Scope req] cs out s of None \<Rightarrow> None
         | Some (Inl e, r) \<Rightarrow> Some (Some e, r)
         | Some (Inr None, r) \<Rightarrow> Some (None, r)
         | Some (Inr (Some _), out1, s1) \<Rightarrow> Some (None, out1\<lparr>br_Done := True\<rparr>, s1))
      else
        (case os_Scopes (o_store ops) \<lparr>sq_Prefix = '''', sq_After = after, sq_Limit = backfillScopePage\<rparr> s of
           Inl e \<Rightarrow> Some (Some e, out, s)
         | Inr listed \<Rightarrow>
             if length listed = 0 then Some (None, out\<lparr>br_Done := True\<rparr>, s)
             else case backfill_scopes fuel ops req batch now (map sp_ID listed) cs out s of None \<Rightarrow> None
               | Some (Inl e, r) \<Rightarrow> Some (Some e, r)
               | Some (Inr None, r) \<Rightarrow> Some (None, r)
               | Some (Inr (Some cs'), out1, s1) \<Rightarrow>
                   backfill_walk pages fuel ops req batch now (sp_ID (last listed)) cs' out1 s1))"

definition no_count :: BackfillCount where "no_count = \<lparr>bn_Episodes = 0, bn_Jobs = 0, bn_Collapsed = 0\<rparr>"

definition no_result :: BackfillResult where
  "no_result = \<lparr>br_Encode = no_count, br_Extract = no_count, br_NextScope = '''', br_NextSeq = 0, br_Done = False\<rparr>"

definition Backfill ::
  "nat \<Rightarrow> nat \<Rightarrow> 's Ops \<Rightarrow> BackfillRequest \<Rightarrow> 's \<Rightarrow> (err option \<times> BackfillResult \<times> 's) option" where
  "Backfill pages fuel ops req s =
     (case BackfillRequest_Validate req of Some e \<Rightarrow> Some (Some e, no_result, s) | None \<Rightarrow>
      case backfillKinds ops (bf_Kinds req) of Inl e \<Rightarrow> Some (Some e, no_result, s) | Inr kinds \<Rightarrow>
      let batch = or_default (bf_BatchSize req) DefaultBackfillBatch;
          limit = or_default (bf_Limit req) DefaultBackfillLimit;
          (now, s1) = o_clock ops s;
          cursors = map (\<lambda>kind. \<lparr>bc_kind = kind, bc_seq = 0, bc_remaining = limit, bc_exhausted = False\<rparr>) kinds
      in backfill_walk pages fuel ops req batch now '''' cursors no_result s1)"

subsection \<open>On the PostgreSQL adapter\<close>

definition pg_ops :: "server \<Rightarrow> world OpsStore" where
  "pg_ops sv =
     \<lparr>os_Scopes = \<lambda>q. read_db (\<lambda>_. Scopes (sv_text_ok sv) (sv_coll sv) q),
      os_Episode = \<lambda>scope i. read_db (\<lambda>_. Episode scope i),
      os_PendingEncodings = \<lambda>q. read_db (\<lambda>_. PendingEncodings (sv_coll sv) q),
      os_Enqueue = \<lambda>job now. on_db (\<lambda>c. Enqueue (sv_text_ok sv) (sv_mint sv c ''jobs'' 0) job now),
      os_Jobs = \<lambda>q. read_db (\<lambda>_. Jobs q),
      os_Stats = \<lambda>scope. read_db (\<lambda>_. Stats scope),
      os_Retry = \<lambda>i now. on_db (\<lambda>_. Retry i now),
      os_Purge = \<lambda>req. on_db (\<lambda>_. Purge req),
      os_PendingExtractions = Some (\<lambda>q. read_db (\<lambda>_. PendingExtractions (sv_coll sv) q))\<rparr>"

subsection \<open>What a backfill relies on of its ports\<close>

text \<open>
  The contract, for the states \<open>I\<close>. \<open>lacks s kind scope i q\<close>: episode \<open>i\<close>, at position \<open>q\<close> of \<open>scope\<close>, has work of this
  kind still to do; \<open>owed s kind scope i\<close>: an outstanding job names it. A page of pending work starts with the
  first position after the cursor and leaves no gap; enqueueing makes work owed and forgets nothing;
  the catalogue is listed in one order, of which \<open>passed a x\<close> says that \<open>x\<close> is no later than \<open>a\<close>.
\<close>

locale backfill_ports =
  fixes ops :: "'s Ops" and I :: "'s \<Rightarrow> bool" and later :: "'s \<Rightarrow> 's \<Rightarrow> bool"
    and lacks :: "'s \<Rightarrow> JobKind \<Rightarrow> ScopeID \<Rightarrow> EpisodeID \<Rightarrow> int \<Rightarrow> bool"
    and owed :: "'s \<Rightarrow> JobKind \<Rightarrow> ScopeID \<Rightarrow> EpisodeID \<Rightarrow> bool"
    and catalogue :: "'s \<Rightarrow> ScopeID set" and passed :: "ScopeID \<Rightarrow> ScopeID \<Rightarrow> bool"
  assumes later_refl: "later s s"
    and later_trans: "later s t \<Longrightarrow> later t u \<Longrightarrow> later s u"
    and later_lacks: "later s t \<Longrightarrow> lacks t k sc i q = lacks s k sc i q"
    and later_owed: "later s t \<Longrightarrow> owed s k sc i \<Longrightarrow> owed t k sc i"
    and later_catalogue: "later s t \<Longrightarrow> catalogue t = catalogue s"
    and page: "I s \<Longrightarrow> k \<in> set (o_kinds ops) \<Longrightarrow> sc \<noteq> '''' \<Longrightarrow> 0 < m \<Longrightarrow> pending ops k sc after m s = Inr ids \<Longrightarrow>
      int (length ids) \<le> m \<and> (ids = [] \<longrightarrow> (\<forall>i q. lacks s k sc i q \<longrightarrow> q \<le> after)) \<and>
      (\<forall>t ep. ids \<noteq> [] \<longrightarrow> later s t \<longrightarrow> os_Episode (o_store ops) sc (last ids) t = Inr ep \<longrightarrow>
         after < ep_Seq ep \<and> (\<forall>i q. lacks s k sc i q \<longrightarrow> after < q \<longrightarrow> q \<le> ep_Seq ep \<longrightarrow> i \<in> set ids))"
    and enqueue: "I s \<Longrightarrow> os_Enqueue (o_store ops) job now s = Inr (j, t) \<Longrightarrow>
      I t \<and> later s t \<and> (\<forall>i \<in> set (nj_Episodes job). owed t (nj_Kind job) (nj_Scope job) i)"
    and tick: "I s \<Longrightarrow> I (snd (o_clock ops s)) \<and> later s (snd (o_clock ops s))"
    and listing: "I s \<Longrightarrow> 0 < n \<Longrightarrow> os_Scopes (o_store ops) \<lparr>sq_Prefix = '''', sq_After = a, sq_Limit = n\<rparr> s = Inr sps \<Longrightarrow>
      sp_ID ` set sps \<subseteq> catalogue s \<and> '''' \<notin> sp_ID ` set sps \<and>
      (sps = [] \<longrightarrow> (\<forall>x \<in> catalogue s. passed a x)) \<and>
      (sps \<noteq> [] \<longrightarrow> \<not> passed a (sp_ID (last sps)) \<and>
         (\<forall>x \<in> catalogue s. passed (sp_ID (last sps)) x \<longleftrightarrow> passed a x \<or> x \<in> sp_ID ` set sps))"
    and none_passed: "\<not> passed '''' x"
    and finite_catalogue: "finite (catalogue s)"

text \<open>Where a cursor stands: work up to it is owed, and all of it once the cursor is exhausted.\<close>

definition cursor_at ::
  "(JobKind \<Rightarrow> ScopeID \<Rightarrow> EpisodeID \<Rightarrow> int \<Rightarrow> bool) \<Rightarrow> (JobKind \<Rightarrow> ScopeID \<Rightarrow> EpisodeID \<Rightarrow> bool) \<Rightarrow> ScopeID \<Rightarrow> int \<Rightarrow> backfillCursor \<Rightarrow> bool" where
  "cursor_at lacking owing sc lo c \<longleftrightarrow> 0 \<le> bc_remaining c \<and>
     (\<forall>i q. lacking (bc_kind c) sc i q \<longrightarrow> lo < q \<longrightarrow> bc_exhausted c \<or> q \<le> bc_seq c \<longrightarrow> owing (bc_kind c) sc i)"

context backfill_ports
begin

abbreviation cursor_ok :: "ScopeID \<Rightarrow> int \<Rightarrow> 's \<Rightarrow> backfillCursor \<Rightarrow> bool" where
  "cursor_ok sc lo s c \<equiv> bc_kind c \<in> set (o_kinds ops) \<and> cursor_at (lacks s) (owed s) sc lo c"

lemma batches_set: "0 < n \<Longrightarrow> (\<Union>c \<in> set (batches n xs). set c) = set xs"
proof (induction n xs rule: batches.induct)
  case (1 n xs)
  have "set (take n xs) \<union> set (drop n xs) = set xs" by (metis append_take_drop_id set_append)
  then show ?case using 1 by (subst batches.simps) (auto simp: batches.simps[of n "[]"])
qed

lemma enqueue_each_owed:
  "I s \<Longrightarrow> enqueue_each ops k sc now runAfter chunks n m s = ((n', m', err), t) \<Longrightarrow>
   I t \<and> later s t \<and> (err = None \<longrightarrow> (\<forall>c \<in> set chunks. \<forall>i \<in> set c. owed t k sc i))"
proof (induction chunks arbitrary: n m s)
  case Nil
  then show ?case by (simp add: later_refl)
next
  case (Cons c chunks)
  let ?job = "\<lparr>nj_Kind = k, nj_Scope = sc, nj_Episodes = c, nj_RunAfter = runAfter, nj_MaxAttempts = 0\<rparr>"
  show ?case
  proof (cases "os_Enqueue (o_store ops) ?job now s")
    case (Inl e)
    then show ?thesis using Cons.prems by (auto simp: later_refl)
  next
    case (Inr p)
    obtain j s1 where p: "p = (j, s1)" by (cases p)
    have E: "I s1 \<and> later s s1 \<and> (\<forall>i \<in> set c. owed s1 k sc i)" using enqueue[OF Cons.prems(1)] Inr p by fastforce
    have R: "I t \<and> later s1 t \<and> (err = None \<longrightarrow> (\<forall>c \<in> set chunks. \<forall>i \<in> set c. owed t k sc i))"
    proof (rule Cons.IH)
      show "I s1" using E by simp
      show "enqueue_each ops k sc now runAfter chunks (n + 1) (if Before (j_CreatedAt j) now then m + 1 else m) s1 = ((n', m', err), t)"
        using Cons.prems(2) Inr p by simp
    qed
    then show ?thesis using E later_trans later_owed by (metis set_ConsD)
  qed
qed

lemma cursor_ok_later: "cursor_ok sc lo s c \<Longrightarrow> later s t \<Longrightarrow> cursor_ok sc lo t c"
  unfolding cursor_at_def using later_lacks later_owed by metis

lemma advance_ok:
  assumes s: "I s" and c: "cursor_ok sc lo s c" "bc_remaining c \<noteq> 0" and sc: "sc \<noteq> ''''" and b: "0 < batch"
    and run: "advance ops sc batch now runAfter c out s = (r, out', t)"
  shows "I t \<and> later s t" "r = Inr (p, c') \<Longrightarrow> cursor_ok sc lo t c' \<and> bc_kind c' = bc_kind c
    \<and> (if p then bc_remaining c' < bc_remaining c else bc_exhausted c' \<and> bc_remaining c' = bc_remaining c)"
proof -
  have k: "bc_kind c \<in> set (o_kinds ops)" "0 < bc_remaining c" using c by (auto simp: cursor_at_def)
  consider e where "pending ops (bc_kind c) sc (bc_seq c) (bc_remaining c) s = Inl e"
    | ids where "pending ops (bc_kind c) sc (bc_seq c) (bc_remaining c) s = Inr ids" by (metis sum.exhaust)
  then have "(I t \<and> later s t) \<and> (r = Inr (p, c') \<longrightarrow> cursor_ok sc lo t c' \<and> bc_kind c' = bc_kind c
    \<and> (if p then bc_remaining c' < bc_remaining c else bc_exhausted c' \<and> bc_remaining c' = bc_remaining c))"
  proof cases
    case 1
    then show ?thesis using run s by (auto simp: advance_def later_refl)
  next
    case 2
    note P = page[OF s k(1) sc k(2) 2]
    show ?thesis
    proof (cases "ids = []")
      case True
      have run': "r = Inr (False, c\<lparr>bc_exhausted := True\<rparr>)" "t = s" using run 2 True by (auto simp: advance_def)
      have "cursor_ok sc lo s (c\<lparr>bc_exhausted := True\<rparr>)" using c(1) P True by (force simp: cursor_at_def)
      then show ?thesis using run' s by (auto simp: later_refl)
    next
      case False
      obtain n m err s1 where E: "enqueueBatches ops (bc_kind c) sc ids batch now runAfter s = ((n, m, err), s1)" by (metis prod.collapse)
      have O: "I s1" "later s s1" "err = None \<longrightarrow> (\<forall>i \<in> set ids. owed s1 (bc_kind c) sc i)"
        using enqueue_each_owed[OF s E[unfolded enqueueBatches_def]] batches_set[of "nat batch" ids] b by auto
      show ?thesis
      proof (cases "err = None \<and> (\<exists>ep. os_Episode (o_store ops) sc (last ids) s1 = Inr ep)")
        case True
        then obtain ep where ep: "err = None" "os_Episode (o_store ops) sc (last ids) s1 = Inr ep" by blast
        let ?c = "c\<lparr>bc_seq := ep_Seq ep, bc_remaining := bc_remaining c - int (length ids)\<rparr>"
        have run': "r = Inr (True, ?c)" "t = s1" using run 2 False E ep by (auto simp: advance_def Let_def)
        have gap: "\<forall>i q. lacks s (bc_kind c) sc i q \<longrightarrow> bc_seq c < q \<longrightarrow> q \<le> ep_Seq ep \<longrightarrow> i \<in> set ids" using P False O(2) ep(2) by blast
        have "owed s1 (bc_kind c) sc i" if "lacks s1 (bc_kind c) sc i q" "lo < q" "bc_exhausted c \<or> q \<le> ep_Seq ep" for i q
        proof (cases "bc_exhausted c \<or> q \<le> bc_seq c")
          case True
          then show ?thesis using that c(1) O(2) later_lacks[OF O(2)] later_owed[OF O(2)] by (auto simp: cursor_at_def)
        next
          case False
          then show ?thesis using that gap O(3) ep(1) later_lacks[OF O(2)] by (meson not_le)
        qed
        then have "cursor_ok sc lo s1 ?c" using k P by (auto simp: cursor_at_def)
        then show ?thesis using run' O(1,2) False by auto
      next
        case False
        then show ?thesis using run 2 \<open>ids \<noteq> []\<close> E O(1,2)
          by (cases err) (auto simp: advance_def Let_def split: sum.splits)
      qed
    qed
  qed
  then show "I t \<and> later s t" "r = Inr (p, c') \<Longrightarrow> cursor_ok sc lo t c' \<and> bc_kind c' = bc_kind c
    \<and> (if p then bc_remaining c' < bc_remaining c else bc_exhausted c' \<and> bc_remaining c' = bc_remaining c)" by auto
qed

end

definition budget_left :: "backfillCursor list \<Rightarrow> nat" where
  "budget_left cs = sum_list (map (\<lambda>c. nat (bc_remaining c)) cs)"

context backfill_ports
begin

abbreviation cursors_ok :: "ScopeID \<Rightarrow> int \<Rightarrow> 's \<Rightarrow> backfillCursor list \<Rightarrow> bool" where
  "cursors_ok sc lo s cs \<equiv> \<forall>c \<in> set cs. cursor_ok sc lo s c"

lemma cursors_ok_later: "cursors_ok sc lo s cs \<Longrightarrow> later s t \<Longrightarrow> cursors_ok sc lo t cs"
  using cursor_ok_later by blast

lemma pass_ok:
  assumes sc: "sc \<noteq> ''''" and b: "0 < batch"
  shows "I s \<Longrightarrow> cursors_ok sc lo s cs \<Longrightarrow> backfill_pass ops sc batch now runAfter cs out s = (r, out', t) \<Longrightarrow>
    (I t \<and> later s t) \<and> (\<forall>p cs'. r = Inr (p, cs') \<longrightarrow> cursors_ok sc lo t cs' \<and> map bc_kind cs' = map bc_kind cs
      \<and> budget_left cs' \<le> budget_left cs
      \<and> (if p then budget_left cs' < budget_left cs else \<forall>c \<in> set cs'. bc_exhausted c \<or> bc_remaining c = 0))"
proof (induction cs arbitrary: out s r out' t)
  case Nil
  then show ?case by (auto simp: later_refl)
next
  case (Cons c cs)
  show ?case
  proof (cases "bc_exhausted c \<or> bc_remaining c = 0")
    case True
    obtain r1 out1 t1 where R: "backfill_pass ops sc batch now runAfter cs out s = (r1, out1, t1)" by (metis prod.collapse)
    have t: "t1 = t" and r: "r = (case r1 of Inl e \<Rightarrow> Inl e | Inr (p, cs') \<Rightarrow> Inr (p, c # cs'))"
      using Cons.prems(3) True R by (auto split: sum.splits)
    have cs: "cursors_ok sc lo s cs" "cursor_ok sc lo s c" using Cons.prems(2) by simp_all
    note IH = Cons.IH[OF Cons.prems(1) cs(1) R, unfolded t]
    show ?thesis
    proof (cases r1)
      case (Inl e)
      then show ?thesis using r IH by simp
    next
      case (Inr q)
      obtain p cs' where q: "q = (p, cs')" by (cases q)
      have I2: "cursors_ok sc lo t cs'" "map bc_kind cs' = map bc_kind cs" "budget_left cs' \<le> budget_left cs"
        "if p then budget_left cs' < budget_left cs else \<forall>c \<in> set cs'. bc_exhausted c \<or> bc_remaining c = 0"
        using IH Inr q by auto
      have "cursor_ok sc lo t c" using cursor_ok_later[OF cs(2)] IH by blast
      then have "cursors_ok sc lo t (c # cs')" using I2(1) by simp
      moreover have "r = Inr (p, c # cs')" using r Inr q by simp
      moreover have "budget_left (c # cs') = nat (bc_remaining c) + budget_left cs'"
        "budget_left (c # cs) = nat (bc_remaining c) + budget_left cs" by (simp_all add: budget_left_def)
      ultimately show ?thesis using IH I2(2-4) True by simp
    qed
  next
    case False
    obtain r1 out1 s1 where A: "advance ops sc batch now runAfter c out s = (r1, out1, s1)" by (metis prod.collapse)
    have c: "cursor_ok sc lo s c" "bc_remaining c \<noteq> 0" using Cons.prems(2) False by auto
    note V = advance_ok[OF Cons.prems(1) c sc b A]
    show ?thesis
    proof (cases r1)
      case (Inl e)
      then show ?thesis using Cons.prems(3) False A V(1) by auto
    next
      case (Inr pc)
      obtain p c' where pc: "pc = (p, c')" by (cases pc)
      have V2: "cursor_ok sc lo s1 c'" "bc_kind c' = bc_kind c"
        "if p then bc_remaining c' < bc_remaining c else bc_exhausted c' \<and> bc_remaining c' = bc_remaining c"
        using V(2)[of p c'] Inr pc by auto
      obtain r2 out2 t2 where R: "backfill_pass ops sc batch now runAfter cs out1 s1 = (r2, out2, t2)" by (metis prod.collapse)
      have t: "t2 = t" and r: "r = (case r2 of Inl e \<Rightarrow> Inl e | Inr (p', cs') \<Rightarrow> Inr (p \<or> p', c' # cs'))"
        using Cons.prems(3) False A R Inr pc by (auto split: sum.splits)
      have "cursors_ok sc lo s cs" "later s s1" using Cons.prems(2) V(1) by simp_all
      then have "cursors_ok sc lo s1 cs" by (rule cursors_ok_later)
      then have IH: "(I t \<and> later s1 t) \<and> (\<forall>p cs'. r2 = Inr (p, cs') \<longrightarrow> cursors_ok sc lo t cs' \<and> map bc_kind cs' = map bc_kind cs
          \<and> budget_left cs' \<le> budget_left cs
          \<and> (if p then budget_left cs' < budget_left cs else \<forall>c \<in> set cs'. bc_exhausted c \<or> bc_remaining c = 0))"
        using Cons.IH[OF _ _ R] V(1) t by blast
      have lt: "later s t" using IH V(1) later_trans by blast
      show ?thesis
      proof (cases r2)
        case (Inl e)
        then show ?thesis using r IH lt by auto
      next
        case (Inr q)
        obtain p' cs' where q: "q = (p', cs')" by (cases q)
        have ok: "cursors_ok sc lo t (c' # cs')" using IH Inr q cursor_ok_later[OF V2(1)] by auto
        have left: "nat (bc_remaining c') \<le> nat (bc_remaining c)" "p \<Longrightarrow> nat (bc_remaining c') < nat (bc_remaining c)"
          using V2(1,3) by (auto simp: cursor_at_def split: if_splits)
        have bud: "budget_left cs' \<le> budget_left cs" "p' \<Longrightarrow> budget_left cs' < budget_left cs" using IH Inr q by auto
        have "budget_left (c' # cs') \<le> budget_left (c # cs)" "p \<or> p' \<Longrightarrow> budget_left (c' # cs') < budget_left (c # cs)"
          using left bud by (auto simp: budget_left_def)
        moreover have "\<not> (p \<or> p') \<Longrightarrow> \<forall>c \<in> set (c' # cs'). bc_exhausted c \<or> bc_remaining c = 0" using V2(3) IH Inr q by auto
        ultimately show ?thesis using r Inr q IH lt ok V2(2) by auto
      qed
    qed
  qed
qed

lemma backfillScope_ok:
  assumes sc: "sc \<noteq> ''''" and b: "0 < batch"
  shows "I s \<Longrightarrow> cursors_ok sc lo s cs \<Longrightarrow> budget_left cs < fuel \<Longrightarrow>
    \<exists>r out' t. backfillScope fuel ops sc batch now runAfter cs out s = Some (r, out', t) \<and> I t \<and> later s t
      \<and> (\<forall>cs'. r = Inr cs' \<longrightarrow> cursors_ok sc lo t cs' \<and> map bc_kind cs' = map bc_kind cs \<and> budget_left cs' \<le> budget_left cs
          \<and> (spentBudget cs' \<or> (\<forall>c \<in> set cs'. bc_exhausted c)))"
proof (induction fuel arbitrary: cs out s)
  case (Suc fuel)
  obtain r out1 s1 where P: "backfill_pass ops sc batch now runAfter cs out s = (r, out1, s1)" by (metis prod.collapse)
  note V = pass_ok[OF sc b Suc.prems(1,2) P]
  show ?case
  proof (cases r)
    case (Inl e)
    then show ?thesis using P V by auto
  next
    case (Inr q)
    obtain p cs1 where q: "q = (p, cs1)" by (cases q)
    have V2: "cursors_ok sc lo s1 cs1" "map bc_kind cs1 = map bc_kind cs" "budget_left cs1 \<le> budget_left cs"
      "if p then budget_left cs1 < budget_left cs else \<forall>c \<in> set cs1. bc_exhausted c \<or> bc_remaining c = 0"
      using V Inr q by auto
    show ?thesis
    proof (cases "\<not> p \<or> spentBudget cs1")
      case True
      then have "spentBudget cs1 \<or> (\<forall>c \<in> set cs1. bc_exhausted c)" using V2(4) by (auto simp: spentBudget_def list_ex_iff)
      moreover have "backfillScope (Suc fuel) ops sc batch now runAfter cs out s = Some (Inr cs1, out1, s1)"
        using P Inr q True by auto
      ultimately show ?thesis using V V2(1-3) by auto
    next
      case False
      have "budget_left cs1 < fuel" using V2(4) False Suc.prems(3) by simp
      then obtain r2 out2 t where R: "backfillScope fuel ops sc batch now runAfter cs1 out1 s1 = Some (r2, out2, t)" "I t" "later s1 t"
        "\<forall>cs'. r2 = Inr cs' \<longrightarrow> cursors_ok sc lo t cs' \<and> map bc_kind cs' = map bc_kind cs1 \<and> budget_left cs' \<le> budget_left cs1
          \<and> (spentBudget cs' \<or> (\<forall>c \<in> set cs'. bc_exhausted c))"
        using Suc.IH[of s1 cs1 out1] V V2(1) by blast
      moreover have "later s t" using V R(3) later_trans by blast
      moreover have "backfillScope (Suc fuel) ops sc batch now runAfter cs out s = Some (r2, out2, t)" using P Inr q False R(1) by auto
      ultimately show ?thesis using V2(2,3) by (intro exI[of _ r2] exI[of _ out2] exI[of _ t]) auto
    qed
  qed
qed simp

end

definition seed :: "BackfillRequest \<Rightarrow> ScopeID \<Rightarrow> int" where
  "seed req sc = (if sc = bf_Scope req then bf_AfterSeq req else 0)"

text \<open>Only the walk itself says it is done.\<close>

lemma advance_done: "advance ops sc batch now runAfter c out s = (r, out', t) \<Longrightarrow> br_Done out' = br_Done out"
  by (auto simp: advance_def count_for_def Let_def split: sum.splits if_splits prod.splits option.splits)

lemma pass_done: "backfill_pass ops sc batch now runAfter cs out s = (r, out', t) \<Longrightarrow> br_Done out' = br_Done out"
proof (induction cs arbitrary: out s r out' t)
  case (Cons c cs)
  obtain r1 out1 s1 where A: "advance ops sc batch now runAfter c out s = (r1, out1, s1)" by (metis prod.collapse)
  obtain r2 out2 s2 where B: "backfill_pass ops sc batch now runAfter cs out1 s1 = (r2, out2, s2)" by (metis prod.collapse)
  obtain r3 out3 s3 where C: "backfill_pass ops sc batch now runAfter cs out s = (r3, out3, s3)" by (metis prod.collapse)
  show ?case using Cons.prems advance_done[OF A] Cons.IH[OF B] Cons.IH[OF C] A B C
    by (auto split: if_splits sum.splits)
qed simp

lemma scope_done: "backfillScope fuel ops sc batch now runAfter cs out s = Some (r, out', t) \<Longrightarrow> br_Done out' = br_Done out"
proof (induction fuel arbitrary: cs out s)
  case (Suc fuel)
  obtain r1 out1 s1 where A: "backfill_pass ops sc batch now runAfter cs out s = (r1, out1, s1)" by (metis prod.collapse)
  show ?case using Suc.prems Suc.IH pass_done[OF A] A by (auto split: sum.splits if_splits)
qed simp

context backfill_ports
begin

abbreviation ready_cursors :: "backfillCursor list \<Rightarrow> bool" where
  "ready_cursors cs \<equiv> \<forall>c \<in> set cs. bc_kind c \<in> set (o_kinds ops) \<and> 0 \<le> bc_remaining c"

abbreviation covers :: "BackfillRequest \<Rightarrow> JobKind set \<Rightarrow> 's \<Rightarrow> ScopeID \<Rightarrow> bool" where
  "covers req ks s sc \<equiv> \<forall>k \<in> ks. \<forall>i q. lacks s k sc i q \<longrightarrow> seed req sc < q \<longrightarrow> owed s k sc i"

lemma covers_later: "later s t \<Longrightarrow> covers req ks s sc \<Longrightarrow> covers req ks t sc"
  using later_lacks later_owed by metis

lemma seed_cursors_ok: "ready_cursors cs \<Longrightarrow> cursors_ok sc (seed req sc) s (seed_cursors req sc cs)"
  by (auto simp: seed_cursors_def cursor_at_def seed_def)

lemma seed_cursors_simps [simp]:
  "map bc_kind (seed_cursors req sc cs) = map bc_kind cs" "budget_left (seed_cursors req sc cs) = budget_left cs"
  by (simp_all add: seed_cursors_def budget_left_def comp_def)

lemma backfill_scopes_ok:
  assumes b: "0 < batch"
  shows "I s \<Longrightarrow> '''' \<notin> set scs \<Longrightarrow> ready_cursors cs \<Longrightarrow> budget_left cs < fuel \<Longrightarrow>
    \<exists>r out' t. backfill_scopes fuel ops req batch now scs cs out s = Some (r, out', t) \<and> I t \<and> later s t \<and> br_Done out' = br_Done out
      \<and> (\<forall>cs'. r = Inr (Some cs') \<longrightarrow> ready_cursors cs' \<and> map bc_kind cs' = map bc_kind cs \<and> budget_left cs' \<le> budget_left cs
          \<and> (\<forall>sc \<in> set scs. covers req (bc_kind ` set cs) t sc))"
proof (induction scs arbitrary: cs out s)
  case Nil
  then show ?case by (simp add: later_refl)
next
  case (Cons sc scs)
  have sc: "sc \<noteq> ''''" using Cons.prems(2) by auto
  have "cursors_ok sc (seed req sc) s (seed_cursors req sc cs)" by (rule seed_cursors_ok[OF Cons.prems(3)])
  then obtain r1 out1 s1 where S: "backfillScope fuel ops sc batch now (bf_RunAfter req) (seed_cursors req sc cs) out s = Some (r1, out1, s1)"
    "I s1" "later s s1"
    and V: "\<forall>cs'. r1 = Inr cs' \<longrightarrow> cursors_ok sc (seed req sc) s1 cs' \<and> map bc_kind cs' = map bc_kind cs \<and> budget_left cs' \<le> budget_left cs
      \<and> (spentBudget cs' \<or> (\<forall>c \<in> set cs'. bc_exhausted c))"
    using backfillScope_ok[OF sc b Cons.prems(1), where lo = "seed req sc" and cs = "seed_cursors req sc cs" and fuel = fuel] Cons.prems(4)
    by (simp only: seed_cursors_simps) blast
  have d: "br_Done out1 = br_Done out" by (rule scope_done[OF S(1)])
  show ?case
  proof (cases r1)
    case (Inl e)
    then show ?thesis using S d by simp
  next
    case (Inr cs1)
    then have V1: "cursors_ok sc (seed req sc) s1 cs1" "map bc_kind cs1 = map bc_kind cs" "budget_left cs1 \<le> budget_left cs"
      "spentBudget cs1 \<or> (\<forall>c \<in> set cs1. bc_exhausted c)" using V by auto
    show ?thesis
    proof (cases "spentBudget cs1")
      case True
      then show ?thesis using S d Inr by simp
    next
      case False
      have kinds: "bc_kind ` set cs1 = bc_kind ` set cs" using V1(2) by (metis set_map)
      have ex: "\<forall>c \<in> set cs1. bc_exhausted c" using V1(4) False by simp
      have "covers req (bc_kind ` set cs1) s1 sc" using V1(1) ex by (auto simp: cursor_at_def)
      then have cov: "covers req (bc_kind ` set cs) s1 sc" by (simp only: kinds)
      have rc: "ready_cursors cs1" using V1(1) by (auto simp: cursor_at_def)
      obtain r2 out2 t where R: "backfill_scopes fuel ops req batch now scs cs1 out1 s1 = Some (r2, out2, t)" "I t" "later s1 t"
        "br_Done out2 = br_Done out1"
        and W: "\<forall>cs'. r2 = Inr (Some cs') \<longrightarrow> ready_cursors cs' \<and> map bc_kind cs' = map bc_kind cs1 \<and> budget_left cs' \<le> budget_left cs1
          \<and> (\<forall>sc \<in> set scs. covers req (bc_kind ` set cs1) t sc)"
        using Cons.IH[OF S(2) _ rc, of out1] Cons.prems(2,4) V1(3) by auto
      have run: "backfill_scopes fuel ops req batch now (sc # scs) cs out s = Some (r2, out2, t)" using S(1) Inr False R(1) by simp
      have "later s t" using S(3) R(3) later_trans by blast
      moreover have "\<forall>cs'. r2 = Inr (Some cs') \<longrightarrow> ready_cursors cs' \<and> map bc_kind cs' = map bc_kind cs \<and> budget_left cs' \<le> budget_left cs
          \<and> (\<forall>sc' \<in> set (sc # scs). covers req (bc_kind ` set cs) t sc')"
      proof (intro allI impI)
        fix cs' assume "r2 = Inr (Some cs')"
        then have W1: "ready_cursors cs'" "map bc_kind cs' = map bc_kind cs1" "budget_left cs' \<le> budget_left cs1"
          "\<forall>sc \<in> set scs. covers req (bc_kind ` set cs) t sc" using W unfolding kinds by auto
        then show "ready_cursors cs' \<and> map bc_kind cs' = map bc_kind cs \<and> budget_left cs' \<le> budget_left cs
          \<and> (\<forall>sc' \<in> set (sc # scs). covers req (bc_kind ` set cs) t sc')"
          using V1(2,3) covers_later[OF R(3) cov] by simp
      qed
      ultimately show ?thesis using run R(2,4) d by (intro exI[of _ r2] exI[of _ out2] exI[of _ t]) simp
    qed
  qed
qed

lemma walk_ok:
  assumes b: "0 < batch"
  shows "I s \<Longrightarrow> ready_cursors cs \<Longrightarrow> budget_left cs < fuel \<Longrightarrow> bf_Scope req = '''' \<longrightarrow> card {x \<in> catalogue s. \<not> passed after x} < pages \<Longrightarrow>
    0 < pages \<Longrightarrow> \<not> br_Done out \<Longrightarrow> \<forall>sc \<in> catalogue s. passed after sc \<longrightarrow> covers req (bc_kind ` set cs) s sc \<Longrightarrow>
    \<exists>err out' t. backfill_walk pages fuel ops req batch now after cs out s = Some (err, out', t) \<and> I t \<and> later s t
      \<and> (br_Done out' \<longrightarrow> err = None \<and>
          (\<forall>sc. (if bf_Scope req = '''' then sc \<in> catalogue t else sc = bf_Scope req) \<longrightarrow> covers req (bc_kind ` set cs) t sc))"
proof (induction pages arbitrary: after cs out s)
  case (Suc pages)
  show ?case
  proof (cases "bf_Scope req = ''''")
    case False
    have ne: "'''' \<notin> set [bf_Scope req]" using False by simp
    obtain r out1 t where S: "backfill_scopes fuel ops req batch now [bf_Scope req] cs out s = Some (r, out1, t)" "I t" "later s t"
      "br_Done out1 = br_Done out"
      and V: "\<forall>cs'. r = Inr (Some cs') \<longrightarrow> (\<forall>sc \<in> set [bf_Scope req]. covers req (bc_kind ` set cs) t sc)"
      using backfill_scopes_ok[OF b Suc.prems(1) ne Suc.prems(2,3)] by blast
    show ?thesis using S V False Suc.prems(6) by (cases r) (auto split: option.splits)
  next
    case True
    let ?q = "\<lparr>sq_Prefix = '''', sq_After = after, sq_Limit = backfillScopePage\<rparr>"
    show ?thesis
    proof (cases "os_Scopes (o_store ops) ?q s")
      case (Inl e)
      then show ?thesis using True Suc.prems(1,6) by (auto simp: later_refl)
    next
      case (Inr sps)
      have pg: "0 < backfillScopePage" by (simp add: backfillScopePage_def)
      note L = listing[OF Suc.prems(1) pg Inr]
      show ?thesis
      proof (cases "sps = []")
        case empty: True
        have cov: "\<forall>sc \<in> catalogue s. covers req (bc_kind ` set cs) s sc" using L empty Suc.prems(7) by blast
        have "backfill_walk (Suc pages) fuel ops req batch now after cs out s = Some (None, out\<lparr>br_Done := True\<rparr>, s)" using True Inr empty by simp
        then show ?thesis using True Suc.prems(1) cov by (simp add: later_refl)
      next
        case ne: False
        let ?last = "sp_ID (last sps)"
        have ids: "'''' \<notin> set (map sp_ID sps)" using L by simp
        obtain r out1 s1 where S: "backfill_scopes fuel ops req batch now (map sp_ID sps) cs out s = Some (r, out1, s1)" "I s1" "later s s1"
          "br_Done out1 = br_Done out"
          and V: "\<forall>cs'. r = Inr (Some cs') \<longrightarrow> ready_cursors cs' \<and> map bc_kind cs' = map bc_kind cs \<and> budget_left cs' \<le> budget_left cs
            \<and> (\<forall>sc \<in> set (map sp_ID sps). covers req (bc_kind ` set cs) s1 sc)"
          using backfill_scopes_ok[OF b Suc.prems(1) ids Suc.prems(2,3)] by blast
        have cat: "catalogue s1 = catalogue s" by (rule later_catalogue[OF S(3)])
        show ?thesis
        proof (cases "\<exists>cs'. r = Inr (Some cs')")
          case False
          then show ?thesis using S True Inr ne Suc.prems(6) by (cases r) (auto split: option.splits)
        next
          case more: True
          then obtain cs' where r: "r = Inr (Some cs')" by blast
          have V1: "ready_cursors cs'" "map bc_kind cs' = map bc_kind cs" "budget_left cs' < fuel"
            "\<forall>sc \<in> sp_ID ` set sps. covers req (bc_kind ` set cs) s1 sc" using V r Suc.prems(3) by auto
          have kinds: "bc_kind ` set cs' = bc_kind ` set cs" using V1(2) by (metis set_map)
          have last: "?last \<in> catalogue s" "\<not> passed after ?last" using L ne by auto
          have sub: "{x \<in> catalogue s1. \<not> passed ?last x} \<subset> {x \<in> catalogue s. \<not> passed after x}"
            unfolding cat using L ne last by auto
          have "card {x \<in> catalogue s1. \<not> passed ?last x} < card {x \<in> catalogue s. \<not> passed after x}"
            by (rule psubset_card_mono[OF _ sub]) (simp add: finite_catalogue)
          then have fuel: "bf_Scope req = '''' \<longrightarrow> card {x \<in> catalogue s1. \<not> passed ?last x} < pages" "0 < pages" using Suc.prems(4) True by auto
          have cov: "\<forall>sc \<in> catalogue s1. passed ?last sc \<longrightarrow> covers req (bc_kind ` set cs') s1 sc"
            unfolding kinds cat
          proof (rule ballI, rule impI)
            fix sc assume sc: "sc \<in> catalogue s" "passed ?last sc"
            then consider "passed after sc" | "sc \<in> sp_ID ` set sps" using L ne by blast
            then show "covers req (bc_kind ` set cs) s1 sc"
            proof cases
              case 1
              then have "covers req (bc_kind ` set cs) s sc" using Suc.prems(7) sc(1) by simp
              then show ?thesis by (rule covers_later[OF S(3)])
            next
              case 2
              then show ?thesis using V1(4) by (rule bspec[rotated])
            qed
          qed
          obtain err out2 t where R: "backfill_walk pages fuel ops req batch now ?last cs' out1 s1 = Some (err, out2, t)" "I t" "later s1 t"
            and W: "br_Done out2 \<longrightarrow> err = None \<and>
              (\<forall>sc. (if bf_Scope req = '''' then sc \<in> catalogue t else sc = bf_Scope req) \<longrightarrow> covers req (bc_kind ` set cs') t sc)"
            using Suc.IH[OF S(2) V1(1,3) fuel _ cov, of out1] S(4) Suc.prems(6) by blast
          have "backfill_walk (Suc pages) fuel ops req batch now after cs out s = Some (err, out2, t)" using True Inr ne S(1) r R(1) by simp
          moreover have "later s t" using S(3) R(3) later_trans by blast
          ultimately show ?thesis using R(2) W unfolding kinds by blast
        qed
      qed
    qed
  qed
qed simp

end

context backfill_ports
begin

lemma kinds_loop: "backfill_kinds_loop hs ks out = Inr out' \<Longrightarrow> set out \<subseteq> set hs \<Longrightarrow> set out' \<subseteq> set hs"
  by (induction hs ks out rule: backfill_kinds_loop.induct) (auto split: if_splits)

lemma Backfill_ok:
  assumes s: "I s" and v: "BackfillRequest_Validate req = None" and k: "backfillKinds ops (bf_Kinds req) = Inr kinds"
    and fuel: "length kinds * nat (or_default (bf_Limit req) DefaultBackfillLimit) < fuel" and pages: "card (catalogue s) < pages"
  shows "\<exists>err out t. Backfill pages fuel ops req s = Some (err, out, t) \<and> I t \<and> later s t
    \<and> (br_Done out \<longrightarrow> err = None \<and>
        (\<forall>sc. (if bf_Scope req = '''' then sc \<in> catalogue t else sc = bf_Scope req) \<longrightarrow> covers req (set kinds) t sc))"
proof -
  let ?batch = "or_default (bf_BatchSize req) DefaultBackfillBatch" and ?limit = "or_default (bf_Limit req) DefaultBackfillLimit"
  let ?cs = "map (\<lambda>kind. \<lparr>bc_kind = kind, bc_seq = 0, bc_remaining = ?limit, bc_exhausted = False\<rparr>) kinds"
  obtain now s1 where c: "o_clock ops s = (now, s1)" by (cases "o_clock ops s")
  have s1: "I s1" "later s s1" using tick[OF s] c by auto
  have b: "0 < ?batch" and l: "0 \<le> ?limit"
    using v by (auto simp: BackfillRequest_Validate_def or_default_def DefaultBackfillBatch_def DefaultBackfillLimit_def)
  have "set kinds \<subseteq> set (o_kinds ops)"
    using k kinds_loop[of "o_kinds ops" "bf_Kinds req" "[]" kinds] by (auto simp: backfillKinds_def split: if_splits)
  then have rc: "ready_cursors ?cs" using l by auto
  have bud: "budget_left ?cs < fuel" using fuel by (simp add: budget_left_def comp_def sum_list_triv)
  have kinds: "bc_kind ` set ?cs = set kinds" by force
  have "card {x \<in> catalogue s1. \<not> passed '''' x} \<le> card (catalogue s1)"
    by (intro card_mono) (auto simp: finite_catalogue)
  then have pg: "bf_Scope req = '''' \<longrightarrow> card {x \<in> catalogue s1. \<not> passed '''' x} < pages" "0 < pages"
    using pages later_catalogue[OF s1(2)] by auto
  obtain err out t where R: "backfill_walk pages fuel ops req ?batch now '''' ?cs no_result s1 = Some (err, out, t)" "I t" "later s1 t"
    "br_Done out \<longrightarrow> err = None \<and>
      (\<forall>sc. (if bf_Scope req = '''' then sc \<in> catalogue t else sc = bf_Scope req) \<longrightarrow> covers req (bc_kind ` set ?cs) t sc)"
    using walk_ok[OF b s1(1) rc bud pg, of no_result] none_passed by (simp add: no_result_def) blast
  have "Backfill pages fuel ops req s = Some (err, out, t)" using R(1) v k c by (simp add: Backfill_def)
  moreover have "later s t" using s1(2) R(3) later_trans by blast
  ultimately show ?thesis using R(2,4) unfolding kinds by blast
qed

end

text \<open>The adapter as it serves an operator, and the work the log implies.\<close>

definition pg_operator :: "server \<Rightarrow> world Embedder option \<Rightarrow> world Extractor option \<Rightarrow> world Ops" where
  "pg_operator sv emb ext =
     \<lparr>o_store = pg_ops sv, o_facts = os_PendingExtractions (pg_ops sv), o_embedder = emb, o_extractor = ext, o_clock = pg_clock sv,
      o_kinds = (if emb \<noteq> None then [JobKindEncode] else []) @ (if ext \<noteq> None then [JobKindExtract] else [])\<rparr>"

lemma Ops_New_pg:
  assumes "Ops_New clk cfg = Inr ops" "oc_Store cfg = Some (pg_ops sv)" "oc_FactStore cfg = None" "oc_Clock cfg = Some (pg_clock sv)"
  shows "ops = pg_operator sv (oc_Embedder cfg) (oc_Extractor cfg)"
  using assms by (simp add: Ops_New_def pg_operator_def Let_def split: if_splits)

definition work_left :: "world Embedder option \<Rightarrow> world Extractor option \<Rightarrow> JobKind \<Rightarrow> db \<Rightarrow> episode_row \<Rightarrow> bool" where
  "work_left emb ext k d e \<longleftrightarrow>
     (if k = JobKindEncode then \<exists>x. emb = Some x \<and> \<not> has_encoding d (em_Model x) e
      else k = JobKindExtract \<and> (\<exists>x. ext = Some x \<and> \<not> has_marker d (ex_Model x) e))"

definition lacking :: "world Embedder option \<Rightarrow> world Extractor option \<Rightarrow> world \<Rightarrow> JobKind \<Rightarrow> ScopeID \<Rightarrow> EpisodeID \<Rightarrow> int \<Rightarrow> bool" where
  "lacking emb ext w k sc i q \<longleftrightarrow> (\<exists>e \<in> set (episodes (w_db w)). er_scope e = sc \<and> er_id e = i \<and> er_seq e = q \<and> work_left emb ext k (w_db w) e)"

definition owing :: "world \<Rightarrow> JobKind \<Rightarrow> ScopeID \<Rightarrow> EpisodeID \<Rightarrow> bool" where
  "owing w k sc i \<longleftrightarrow> (\<exists>j \<in> set (jobs (w_db w)). inflight j \<and> jr_kind j = k \<and> jr_scope j = sc \<and> i \<in> set (jr_episodes j))"

definition jobs_added :: "world \<Rightarrow> world \<Rightarrow> bool" where
  "jobs_added w w' \<longleftrightarrow> (\<exists>js. w_db w' = (w_db w)\<lparr>jobs := jobs (w_db w) @ js\<rparr>)"

definition total_order :: "('a \<Rightarrow> 'a \<Rightarrow> bool) \<Rightarrow> bool" where
  "total_order le \<longleftrightarrow> total_preorder le \<and> (\<forall>x y. le x y \<longrightarrow> le y x \<longrightarrow> x = y)"

lemma work_left_jobs [simp]: "work_left emb ext k (d\<lparr>jobs := js\<rparr>) e = work_left emb ext k d e"
  by (simp add: work_left_def has_encoding_def has_marker_def)

lemma pending_page:
  assumes "k \<in> set (o_kinds (pg_operator sv emb ext))" "sc \<noteq> ''''" "0 < n" "pending (pg_operator sv emb ext) k sc after n w = Inr ids"
  shows "ids = map er_id (take (nat n) (sort_by (le_key er_seq)
    (filter (\<lambda>e. er_scope e = sc \<and> after < er_seq e \<and> work_left emb ext k (w_db w) e) (episodes (w_db w)))))"
proof -
  consider x where "k = JobKindEncode" "emb = Some x" | x where "k = JobKindExtract" "ext = Some x"
    using assms(1) by (auto simp: pg_operator_def split: if_splits)
  then show ?thesis
  proof cases
    case 1
    then show ?thesis using assms(2-4)
      by (auto simp: pending_def pg_operator_def pg_ops_def read_db_def PendingEncodings_def work_left_def Let_def split: option.splits if_splits)
  next
    case 2
    then show ?thesis using assms(2-4)
      by (auto simp: pending_def pg_operator_def pg_ops_def read_db_def PendingExtractions_def work_left_def Let_def split: option.splits if_splits)
  qed
qed

lemma sorted_wrt_last: "sorted_wrt le xs \<Longrightarrow> x \<in> set xs \<Longrightarrow> le (last xs) (last xs) \<Longrightarrow> le x (last xs)"
  by (induction xs rule: rev_induct) (auto simp: sorted_wrt_append)

lemma page_gapless:
  assumes inv: "db_inv d" and rows: "rows = take n (sort_by (le_key er_seq)
      (filter (\<lambda>e. er_scope e = sc \<and> after < er_seq e \<and> P e) (episodes d)))" and ne: "rows \<noteq> []"
    and ep: "Episode sc (er_id (last rows)) d = Inr ep"
  shows "after < ep_Seq ep" "e \<in> set (episodes d) \<Longrightarrow> er_scope e = sc \<Longrightarrow> P e \<Longrightarrow> after < er_seq e \<Longrightarrow> er_seq e \<le> ep_Seq ep \<Longrightarrow> e \<in> set rows"
proof -
  let ?all = "filter (\<lambda>e. er_scope e = sc \<and> after < er_seq e \<and> P e) (episodes d)" and ?last = "last rows"
  have "?last \<in> set rows" using ne by simp
  then have "?last \<in> set (sort_by (le_key er_seq) ?all)" by (metis rows in_set_takeD)
  then have "?last \<in> set ?all" by (simp only: set_sort_by)
  then have last: "?last \<in> set (episodes d)" "er_scope ?last = sc" "after < er_seq ?last" by auto
  obtain r where r: "find (\<lambda>r. er_scope r = sc \<and> er_id r = er_id ?last) (episodes d) = Some r" "scanEpisode r = Inr ep"
    using ep by (auto simp: Episode_def split: option.splits if_splits)
  then have "r \<in> set (episodes d)" "er_id r = er_id ?last" by (auto simp: find_Some_iff)
  then have "r = ?last" using last(1) inv by (auto simp: db_inv_def episodes_ok_def distinct_map dest: inj_onD)
  then have seq: "ep_Seq ep = er_seq ?last" using r(2) by (auto simp: scanEpisode_def split: if_splits)
  show "after < ep_Seq ep" using seq last(3) by simp
  assume e: "e \<in> set (episodes d)" "er_scope e = sc" "P e" "after < er_seq e" "er_seq e \<le> ep_Seq ep"
  then have "e \<in> set ?all" by simp
  from by_seq.take_sort_by_complete[OF this, of n] consider "e \<in> set rows" | "\<forall>y \<in> set rows. le_key er_seq y e" unfolding rows by blast
  then show "e \<in> set rows"
  proof cases
    case 2
    then have "er_seq ?last \<le> er_seq e" using \<open>?last \<in> set rows\<close> by (simp add: le_key_def)
    then have "(er_scope e, er_seq e) = (er_scope ?last, er_seq ?last)" using e(2,5) seq last(2) by simp
    then have "e = ?last" using e(1) last(1) inv by (auto simp: db_inv_def episodes_ok_def distinct_map dest!: inj_onD)
    then show ?thesis using \<open>?last \<in> set rows\<close> by simp
  qed
qed

lemma Enqueue_adds:
  assumes "Enqueue text_ok mint job now d = Inr (j, d')"
  shows "\<exists>js. d' = d\<lparr>jobs := jobs d @ js\<rparr> \<and> (\<forall>r \<in> set js. jr_scope r = nj_Scope job)"
    "\<exists>r \<in> set (jobs d'). inflight r \<and> jr_kind r = nj_Kind job \<and> jr_scope r = nj_Scope job \<and> jr_episodes r = nj_Episodes job"
proof -
  let ?r = "enqueue_row mint job now"
  have key: "job_key ?r = (nj_Kind job, nj_Scope job, nj_Episodes job)" by (simp add: job_key_def enqueue_row_def Let_def)
  obtain x where x: "enqueueSQL text_ok ?r d = Inr (x, d')" by (rule Enqueue_Inr[OF assms])
  have sc: "jr_scope ?r = nj_Scope job" by (simp add: enqueue_row_def Let_def)
  consider y where "find (\<lambda>x. inflight x \<and> job_key x = job_key ?r) (jobs d) = Some y" "d' = d"
    | "d' = d\<lparr>jobs := jobs d @ [?r]\<rparr>"
    using x by (auto simp: enqueueSQL_def stmt_def split: if_splits option.splits)
  then have "(\<exists>js. d' = d\<lparr>jobs := jobs d @ js\<rparr> \<and> (\<forall>r \<in> set js. jr_scope r = nj_Scope job)) \<and>
    (\<exists>r \<in> set (jobs d'). inflight r \<and> job_key r = (nj_Kind job, nj_Scope job, nj_Episodes job))"
  proof cases
    case 1
    then have "y \<in> set (jobs d')" "inflight y" "job_key y = job_key ?r" by (auto simp: find_Some_iff)
    then show ?thesis using 1(2) by (auto simp: key intro!: exI[of _ "[]"])
  next
    case 2
    then show ?thesis using sc key by (auto intro!: exI[of _ "[?r]"])
  qed
  then show "\<exists>js. d' = d\<lparr>jobs := jobs d @ js\<rparr> \<and> (\<forall>r \<in> set js. jr_scope r = nj_Scope job)"
    "\<exists>r \<in> set (jobs d'). inflight r \<and> jr_kind r = nj_Kind job \<and> jr_scope r = nj_Scope job \<and> jr_episodes r = nj_Episodes job"
    by (auto simp: job_key_def)
qed

lemma jobs_added_refl: "jobs_added w w" unfolding jobs_added_def by (rule exI[of _ "[]"]) simp

lemma jobs_added_trans: "jobs_added a b \<Longrightarrow> jobs_added b c \<Longrightarrow> jobs_added a c"
  unfolding jobs_added_def by (elim exE) (simp, metis append_assoc)

lemma scope_page:
  assumes ord: "total_order coll" and rows: "rows = filter (\<lambda>r. a \<noteq> '''' \<longrightarrow> \<not> coll (sc_id r) a) rs"
    and pg: "pg = take n (sort_by (\<lambda>x y. coll (sc_id x) (sc_id y)) rows)" "pg \<noteq> []" and ids: "\<forall>r \<in> set rs. sc_id r \<noteq> ''''"
  shows "\<not> (a \<noteq> '''' \<and> coll (sc_id (last pg)) a)"
    "x \<in> sc_id ` set rs \<Longrightarrow> (sc_id (last pg) \<noteq> '''' \<and> coll x (sc_id (last pg))) \<longleftrightarrow> (a \<noteq> '''' \<and> coll x a) \<or> x \<in> sc_id ` set pg"
proof -
  let ?le = "\<lambda>x y. coll (sc_id x) (sc_id y)" and ?l = "last pg"
  have tp: "total_preorder coll" using ord by (simp add: total_order_def)
  have tp': "total_preorder ?le" using tp by (rule total_preorder_pull)
  have sub: "set pg \<subseteq> set rows" unfolding pg(1) by (metis set_sort_by set_take_subset)
  then have l: "?l \<in> set rows" using last_in_set[OF pg(2)] by (rule subsetD)
  then have l2: "sc_id ?l \<noteq> ''''" using ids unfolding rows by simp
  show na: "\<not> (a \<noteq> '''' \<and> coll (sc_id ?l) a)" using l unfolding rows by auto
  assume "x \<in> sc_id ` set rs"
  then obtain r where r: "r \<in> set rs" "sc_id r = x" by auto
  have order: "coll (sc_id y) (sc_id ?l)" if "y \<in> set pg" for y
  proof -
    have "sorted_wrt ?le pg" using total_preorder.sorted_sort_by[OF tp', of rows] unfolding pg(1) by (rule sorted_wrt_take)
    then show ?thesis using that by (rule sorted_wrt_last) (rule total_preorder.refl[OF tp'])
  qed
  show "(sc_id ?l \<noteq> '''' \<and> coll x (sc_id ?l)) \<longleftrightarrow> (a \<noteq> '''' \<and> coll x a) \<or> x \<in> sc_id ` set pg"
  proof
    assume x: "sc_id ?l \<noteq> '''' \<and> coll x (sc_id ?l)"
    show "(a \<noteq> '''' \<and> coll x a) \<or> x \<in> sc_id ` set pg"
    proof (cases "a \<noteq> '''' \<and> coll x a")
      case False
      then have "r \<in> set rows" using r by (auto simp: rows)
      then consider "r \<in> set pg" | "\<forall>y \<in> set pg. ?le y r" using total_preorder.take_sort_by_complete[OF tp', of r rows n] unfolding pg(1) by blast
      then show ?thesis
      proof cases
        case 2
        then have "coll (sc_id ?l) x" using pg(2) r(2) by auto
        then have "x = sc_id ?l" using x ord by (auto simp: total_order_def)
        then show ?thesis using pg(2) by auto
      qed (use r in auto)
    qed simp
  next
    assume "(a \<noteq> '''' \<and> coll x a) \<or> x \<in> sc_id ` set pg"
    then show "sc_id ?l \<noteq> '''' \<and> coll x (sc_id ?l)"
    proof
      assume xa: "a \<noteq> '''' \<and> coll x a"
      have "coll a (sc_id ?l)" using na xa total_preorder.total[OF tp] by blast
      then show ?thesis using xa l2 total_preorder.trans[OF tp] by blast
    qed (use order l2 in auto)
  qed
qed

lemma scope_ids_nonempty: "db_inv d \<Longrightarrow> r \<in> set (scopes d) \<Longrightarrow> sc_id r \<noteq> ''''"
  using char_length_le[of "''''"] by (auto simp: db_inv_def scopes_ok_def scope_check_def len_between_def)

lemma episode_of_scope:
  assumes "db_inv d" "e \<in> set (episodes d)"
  shows "0 < er_seq e" "er_scope e \<in> sc_id ` set (scopes d)"
  using assms by (simp_all add: db_inv_def episodes_ok_def episode_check_def image_iff) metis

lemma pg_catalogue_page:
  assumes w: "world_ok w" and ord: "total_order (sv_coll sv)" and n: "0 < n"
    and sps: "os_Scopes (pg_ops sv) \<lparr>sq_Prefix = '''', sq_After = a, sq_Limit = n\<rparr> w = Inr sps"
  shows "sp_ID ` set sps \<subseteq> sc_id ` set (scopes (w_db w))" "'''' \<notin> sp_ID ` set sps"
    "sps = [] \<Longrightarrow> x \<in> sc_id ` set (scopes (w_db w)) \<Longrightarrow> a \<noteq> '''' \<and> sv_coll sv x a"
    "sps \<noteq> [] \<Longrightarrow> \<not> (a \<noteq> '''' \<and> sv_coll sv (sp_ID (last sps)) a)"
    "sps \<noteq> [] \<Longrightarrow> x \<in> sc_id ` set (scopes (w_db w)) \<Longrightarrow>
      (sp_ID (last sps) \<noteq> '''' \<and> sv_coll sv x (sp_ID (last sps))) \<longleftrightarrow> (a \<noteq> '''' \<and> sv_coll sv x a) \<or> x \<in> sp_ID ` set sps"
proof -
  let ?rs = "scopes (w_db w)" and ?le = "\<lambda>x y. sv_coll sv (sc_id x) (sc_id y)"
  define rows where rows: "rows = filter (\<lambda>r. a \<noteq> '''' \<longrightarrow> \<not> sv_coll sv (sc_id r) a) ?rs"
  define pg where pg: "pg = take (nat n) (sort_by ?le rows)"
  have ids: "\<forall>r \<in> set ?rs. sc_id r \<noteq> ''''"
    using w scope_ids_nonempty by (auto simp: world_ok_def)
  have out: "sps = map scanScope pg"
    using sps n unfolding pg rows
    by (simp add: pg_ops_def read_db_def Scopes_def Let_def split: option.splits if_splits)
  have img: "sp_ID ` set sps = sc_id ` set pg" by (simp add: out image_image scanScope_def)
  have sub: "set pg \<subseteq> set ?rs" unfolding pg rows by (metis set_sort_by set_take_subset filter_is_subset subset_trans)
  show "sp_ID ` set sps \<subseteq> sc_id ` set ?rs" using sub unfolding img by (rule image_mono)
  show "'''' \<notin> sp_ID ` set sps" using sub ids unfolding img by (metis imageE subsetD)
  show "sps = [] \<Longrightarrow> x \<in> sc_id ` set ?rs \<Longrightarrow> a \<noteq> '''' \<and> sv_coll sv x a"
  proof -
    assume "sps = []" and x: "x \<in> sc_id ` set ?rs"
    then have "pg = []" by (simp add: out)
    then have "sort_by ?le rows = []" using n by (simp add: pg)
    then have "rows = []" by (metis set_sort_by set_empty)
    then show ?thesis using x by (auto simp: rows filter_empty_conv)
  qed
  assume "sps \<noteq> []"
  then have ne: "pg \<noteq> []" "sp_ID (last sps) = sc_id (last pg)" by (auto simp: out last_map scanScope_def)
  note page = scope_page[OF ord rows pg ne(1) ids]
  show "\<not> (a \<noteq> '''' \<and> sv_coll sv (sp_ID (last sps)) a)" unfolding ne(2) by (rule page(1))
  assume "x \<in> sc_id ` set ?rs"
  then show "(sp_ID (last sps) \<noteq> '''' \<and> sv_coll sv x (sp_ID (last sps))) \<longleftrightarrow> (a \<noteq> '''' \<and> sv_coll sv x a) \<or> x \<in> sp_ID ` set sps"
    unfolding ne(2) img by (rule page(2))
qed

lemma Episode_jobs [simp]: "Episode sc i (d\<lparr>jobs := js\<rparr>) = Episode sc i d"
  by (cases "ScopeID_Validate sc") (simp_all add: Episode_def)

lemma pg_pending_page:
  assumes w: "world_ok w" and k: "k \<in> set (o_kinds (pg_operator sv emb ext))" "sc \<noteq> ''''" "0 < m"
    and p: "pending (pg_operator sv emb ext) k sc after m w = Inr ids"
  shows "int (length ids) \<le> m" "ids = [] \<Longrightarrow> lacking emb ext w k sc i q \<Longrightarrow> q \<le> after"
    "ids \<noteq> [] \<Longrightarrow> jobs_added w t \<Longrightarrow> os_Episode (o_store (pg_operator sv emb ext)) sc (last ids) t = Inr ep \<Longrightarrow> after < ep_Seq ep"
    "ids \<noteq> [] \<Longrightarrow> jobs_added w t \<Longrightarrow> os_Episode (o_store (pg_operator sv emb ext)) sc (last ids) t = Inr ep \<Longrightarrow>
      lacking emb ext w k sc i q \<Longrightarrow> after < q \<Longrightarrow> q \<le> ep_Seq ep \<Longrightarrow> i \<in> set ids"
proof -
  let ?P = "\<lambda>e. work_left emb ext k (w_db w) e"
  define all where all: "all = filter (\<lambda>e. er_scope e = sc \<and> after < er_seq e \<and> ?P e) (episodes (w_db w))"
  define rows where rows: "rows = take (nat m) (sort_by (le_key er_seq) all)"
  have ids: "ids = map er_id rows" unfolding rows all by (rule pending_page[OF k p])
  show "int (length ids) \<le> m" using k(3) by (simp add: ids rows)
  have inv: "db_inv (w_db w)" using w by (simp add: world_ok_def)
  show "ids = [] \<Longrightarrow> lacking emb ext w k sc i q \<Longrightarrow> q \<le> after"
  proof -
    assume "ids = []"
    then have "sort_by (le_key er_seq) all = []" using k(3) by (simp add: ids rows)
    then have "all = []" by (metis set_sort_by set_empty)
    then show "lacking emb ext w k sc i q \<Longrightarrow> q \<le> after" by (auto simp: all lacking_def filter_empty_conv)
  qed
  assume ne: "ids \<noteq> []" and t: "jobs_added w t" and ep: "os_Episode (o_store (pg_operator sv emb ext)) sc (last ids) t = Inr ep"
  have "Episode sc (er_id (last rows)) (w_db t) = Inr ep"
    using ep ne by (simp add: ids last_map pg_operator_def pg_ops_def read_db_def)
  then have "Episode sc (er_id (last rows)) (w_db w) = Inr ep" using t by (auto simp: jobs_added_def)
  note page = page_gapless[OF inv rows[unfolded all] _ this]
  show "after < ep_Seq ep" using page(1) ne by (simp add: ids)
  show "lacking emb ext w k sc i q \<Longrightarrow> after < q \<Longrightarrow> q \<le> ep_Seq ep \<Longrightarrow> i \<in> set ids"
    using page(2) ne by (auto simp: ids lacking_def)
qed

lemma pg_enqueue:
  assumes w: "world_ok w" and e: "os_Enqueue (pg_ops sv) job now w = Inr (j, t)"
  shows "world_ok t" "\<exists>js. w_db t = (w_db w)\<lparr>jobs := jobs (w_db w) @ js\<rparr> \<and> (\<forall>r \<in> set js. jr_scope r = nj_Scope job)"
    "i \<in> set (nj_Episodes job) \<Longrightarrow> owing t (nj_Kind job) (nj_Scope job) i"
proof -
  obtain d where d: "Enqueue (sv_text_ok sv) (sv_mint sv (w_calls w) ''jobs'' 0) job now (w_db w) = Inr (j, d)" "w_db t = d"
    using e by (auto simp: pg_ops_def on_db_def split: sum.splits)
  have inv: "db_inv d" using Enqueue_inv[OF _ d(1)] w by (simp add: world_ok_def)
  obtain js where js: "d = (w_db w)\<lparr>jobs := jobs (w_db w) @ js\<rparr>" "\<forall>r \<in> set js. jr_scope r = nj_Scope job"
    using Enqueue_adds(1)[OF d(1)] by blast
  then have "facts d = facts (w_db w)" by simp
  then show "world_ok t" using inv w d(2) by (blast intro: world_ok_facts_same)
  show "\<exists>js. w_db t = (w_db w)\<lparr>jobs := jobs (w_db w) @ js\<rparr> \<and> (\<forall>r \<in> set js. jr_scope r = nj_Scope job)"
    using js d(2) by blast
  show "i \<in> set (nj_Episodes job) \<Longrightarrow> owing t (nj_Kind job) (nj_Scope job) i"
    using Enqueue_adds(2)[OF d(1)] d(2) by (auto simp: owing_def)
qed

text \<open>The adapter keeps the contract, for a server whose collation is a total order of the ids.\<close>

interpretation pg_backfill: backfill_ports "pg_operator sv emb ext" "\<lambda>w. world_ok w \<and> total_order (sv_coll sv)" jobs_added
  "lacking emb ext" owing "\<lambda>w. sc_id ` set (scopes (w_db w))" "\<lambda>a x. a \<noteq> '''' \<and> sv_coll sv x a"
proof (unfold_locales, goal_cases)
  case 1 show ?case by (rule jobs_added_refl)
next
  case 2 then show ?case by (rule jobs_added_trans)
next
  case 3 then show ?case by (auto simp: jobs_added_def lacking_def)
next
  case 4 then show ?case by (auto simp: jobs_added_def owing_def)
next
  case 5 then show ?case by (auto simp: jobs_added_def)
next
  case (6 w k sc m after ids)
  then have w: "world_ok w" by simp
  show ?case using pg_pending_page[OF w 6(2-5)] by blast
next
  case (7 w job now j t)
  then have w: "world_ok w" "os_Enqueue (pg_ops sv) job now w = Inr (j, t)" by (simp_all add: pg_operator_def)
  show ?case using pg_enqueue[OF w] 7(1) unfolding jobs_added_def by blast
next
  case 8 then show ?case by (auto simp: pg_operator_def pg_clock_def world_ok_def jobs_added_def intro: exI[of _ "[]"])
next
  case (9 w n a sps)
  then have w: "world_ok w" "total_order (sv_coll sv)" "0 < n"
    "os_Scopes (pg_ops sv) \<lparr>sq_Prefix = '''', sq_After = a, sq_Limit = n\<rparr> w = Inr sps" by (simp_all add: pg_operator_def)
  show ?case using pg_catalogue_page[OF w] by blast
qed simp_all

subsection \<open>Which scopes a backfill reaches\<close>

text \<open>Whatever every enqueue of jobs of one scope relates, a backfill of that scope relates.\<close>

locale scope_frame =
  fixes ops :: "'s Ops" and sc :: ScopeID and R :: "'s \<Rightarrow> 's \<Rightarrow> bool"
  assumes refl: "R s s"
    and trans: "R s t \<Longrightarrow> R t u \<Longrightarrow> R s u"
    and enqueued: "nj_Scope job = sc \<Longrightarrow> os_Enqueue (o_store ops) job now s = Inr (j, t) \<Longrightarrow> R s t"
    and ticked: "R s (snd (o_clock ops s))"
begin

lemma each_frame: "enqueue_each ops k sc now ra bs n c s = (r, t) \<Longrightarrow> R s t"
proof (induction bs arbitrary: n c s)
  case Nil
  then show ?case by (simp add: refl)
next
  case (Cons ids bs)
  show ?case
  proof (cases "os_Enqueue (o_store ops) \<lparr>nj_Kind = k, nj_Scope = sc, nj_Episodes = ids, nj_RunAfter = ra, nj_MaxAttempts = 0\<rparr> now s")
    case (Inl e)
    then show ?thesis using Cons.prems by (simp add: refl)
  next
    case (Inr jt)
    obtain j u where ju: "jt = (j, u)" by (cases jt)
    have "R s u" by (rule enqueued[OF _ Inr[unfolded ju]]) simp
    moreover have "R u t" by (rule Cons.IH) (use Cons.prems Inr ju in simp)
    ultimately show ?thesis by (rule trans)
  qed
qed

lemma advance_frame: "advance ops sc batch now ra c out s = (r, out', t) \<Longrightarrow> R s t"
proof (cases "pending ops (bc_kind c) sc (bc_seq c) (bc_remaining c) s")
  case (Inr ids)
  obtain n d err u where e: "enqueueBatches ops (bc_kind c) sc ids batch now ra s = ((n, d, err), u)" by (metis prod_cases3 prod.exhaust)
  have "R s u" using e each_frame by (simp add: enqueueBatches_def)
  then show "advance ops sc batch now ra c out s = (r, out', t) \<Longrightarrow> R s t"
    using Inr e refl by (auto simp: advance_def Let_def split: option.splits sum.splits if_splits)
qed (auto simp: advance_def refl)

lemma pass_frame: "backfill_pass ops sc batch now ra cs out s = (r, out', t) \<Longrightarrow> R s t"
proof (induction cs arbitrary: out s r out' t)
  case Nil
  then show ?case by (simp add: refl)
next
  case (Cons c cs)
  obtain r1 out1 s1 where a: "advance ops sc batch now ra c out s = (r1, out1, s1)" by (metis prod_cases3)
  obtain r2 out2 s2 where p: "backfill_pass ops sc batch now ra cs out s = (r2, out2, s2)" by (metis prod_cases3)
  obtain r3 out3 s3 where p1: "backfill_pass ops sc batch now ra cs out1 s1 = (r3, out3, s3)" by (metis prod_cases3)
  have "R s s1" "R s s2" "R s1 s3" using advance_frame[OF a] Cons.IH[OF p] Cons.IH[OF p1] by auto
  moreover have "t \<in> {s1, s2, s3}" using Cons.prems a p p1 by (auto split: if_splits sum.splits)
  ultimately show ?case using trans by blast
qed

lemma scope_walk_frame: "backfillScope fuel ops sc batch now ra cs out s = Some (r, out', t) \<Longrightarrow> R s t"
proof (induction fuel arbitrary: cs out s)
  case (Suc fuel)
  obtain r1 out1 s1 where p: "backfill_pass ops sc batch now ra cs out s = (r1, out1, s1)" by (metis prod_cases3)
  have s1: "R s s1" by (rule pass_frame[OF p])
  consider "t = s1" | cs' where "backfillScope fuel ops sc batch now ra cs' out1 s1 = Some (r, out', t)"
    using Suc.prems p by (auto split: sum.splits if_splits)
  then show ?case using s1 Suc.IH trans by cases blast+
qed simp

lemma Backfill_frame:
  assumes "Backfill pages fuel ops req s = Some (err, out, t)" "bf_Scope req = sc" "sc \<noteq> ''''"
  shows "R s t"
proof -
  obtain now s1 where c: "o_clock ops s = (now, s1)" by (cases "o_clock ops s")
  have s1: "R s s1" using ticked[of s] c by simp
  have walk: "R s1 t" if "backfill_walk pages fuel ops req batch now '''' cs out0 s1 = Some (err, out, t)" for batch cs out0
  proof (cases pages)
    case (Suc n)
    then show ?thesis using that assms(3) unfolding assms(2)[symmetric]
      by (auto split: option.splits sum.splits if_splits intro: scope_walk_frame[folded assms(2)])
  qed (use that in simp)
  show ?thesis
    using assms(1) c s1 walk refl trans by (auto simp: Backfill_def Let_def split: option.splits sum.splits)
qed

end

definition jobs_of :: "ScopeID \<Rightarrow> world \<Rightarrow> world \<Rightarrow> bool" where
  "jobs_of sc w w' \<longleftrightarrow> (\<exists>js. w_db w' = (w_db w)\<lparr>jobs := jobs (w_db w) @ js\<rparr> \<and> (\<forall>j \<in> set js. jr_scope j = sc))"

interpretation pg_scope: scope_frame "pg_operator sv emb ext" sc "jobs_of sc"
proof (unfold_locales, goal_cases)
  case 1 show ?case by (auto simp: jobs_of_def intro: exI[of _ "[]"])
next
  case (2 s t u)
  then obtain a b where "w_db t = (w_db s)\<lparr>jobs := jobs (w_db s) @ a\<rparr>" "\<forall>j \<in> set a. jr_scope j = sc"
    "w_db u = (w_db t)\<lparr>jobs := jobs (w_db t) @ b\<rparr>" "\<forall>j \<in> set b. jr_scope j = sc" by (auto simp: jobs_of_def)
  then show ?case by (auto simp: jobs_of_def intro!: exI[of _ "a @ b"])
next
  case (3 job now w j t)
  then show ?case by (auto simp: jobs_of_def pg_operator_def pg_ops_def on_db_def split: sum.splits dest!: Enqueue_adds(1))
next
  case 4 show ?case by (auto simp: jobs_of_def pg_operator_def pg_clock_def intro: exI[of _ "[]"])
qed

subsection \<open>Properties\<close>

text \<open>
  C15. \<open>Backfill\<close> (\<^verbatim>\<open>ops/backfill.go\<close>) on the PostgreSQL adapter returns, with fuel for one round per episode of its limit and kind
  and for one page per scope, and does nothing but add jobs. When it says it is done there was no error, and every
  episode it was asked about that lacks its encoding, or its extraction marker, is named by an
  outstanding job of that kind and scope.
\<close>

theorem Backfill_covers:
  assumes new: "Ops_New clk cfg = Inr ops" "oc_Store cfg = Some (pg_ops sv)" "oc_FactStore cfg = None" "oc_Clock cfg = Some (pg_clock sv)"
    and w: "world_ok w" "total_order (sv_coll sv)" and v: "BackfillRequest_Validate req = None"
    and k: "backfillKinds ops (bf_Kinds req) = Inr kinds"
    and fuel: "length kinds * nat (or_default (bf_Limit req) DefaultBackfillLimit) < fuel" and pages: "length (scopes (w_db w)) < pages"
  shows "\<exists>err out w'. Backfill pages fuel ops req w = Some (err, out, w') \<and> world_ok w' \<and> jobs_added w w'
    \<and> (br_Done out \<longrightarrow> err = None \<and>
        (\<forall>e \<in> set (episodes (w_db w)). \<forall>kind \<in> set kinds.
           (if bf_Scope req = '''' then True else er_scope e = bf_Scope req \<and> bf_AfterSeq req < er_seq e) \<longrightarrow>
           work_left (oc_Embedder cfg) (oc_Extractor cfg) kind (w_db w) e \<longrightarrow> owing w' kind (er_scope e) (er_id e)))"
proof -
  let ?emb = "oc_Embedder cfg" and ?ext = "oc_Extractor cfg"
  have ops: "ops = pg_operator sv ?emb ?ext" by (rule Ops_New_pg[OF new])
  have "card (sc_id ` set (scopes (w_db w))) \<le> length (scopes (w_db w))" by (metis card_length length_map list.set_map)
  then have pages': "card (sc_id ` set (scopes (w_db w))) < pages" using pages by simp
  obtain err out w' where B: "Backfill pages fuel ops req w = Some (err, out, w')" "world_ok w'" "jobs_added w w'"
    and cov: "br_Done out \<longrightarrow> err = None \<and>
      (\<forall>sc. (if bf_Scope req = '''' then sc \<in> sc_id ` set (scopes (w_db w')) else sc = bf_Scope req) \<longrightarrow>
        (\<forall>k \<in> set kinds. \<forall>i q. lacking ?emb ?ext w' k sc i q \<longrightarrow> seed req sc < q \<longrightarrow> owing w' k sc i))"
    using pg_backfill.Backfill_ok[of w sv req ?emb ?ext kinds fuel pages] w v k fuel pages' unfolding ops by blast
  have owe: "owing w' kind (er_scope e) (er_id e)"
    if d: "br_Done out" and e: "e \<in> set (episodes (w_db w))" "kind \<in> set kinds"
      "if bf_Scope req = '''' then True else er_scope e = bf_Scope req \<and> bf_AfterSeq req < er_seq e"
      and l: "work_left ?emb ?ext kind (w_db w) e" for e kind
  proof -
    have eps: "episodes (w_db w') = episodes (w_db w)" "scopes (w_db w') = scopes (w_db w)" "work_left ?emb ?ext kind (w_db w') e"
      using B(3) l by (auto simp: jobs_added_def)
    then have lack: "lacking ?emb ?ext w' kind (er_scope e) (er_id e) (er_seq e)" using e(1) by (auto simp: lacking_def)
    have inv: "db_inv (w_db w)" using w(1) by (simp add: world_ok_def)
    note ok = episode_of_scope[OF inv e(1)]
    have "er_scope e \<noteq> ''''" using ok(2) scope_ids_nonempty[OF inv] by force
    show ?thesis
    proof (cases "bf_Scope req = ''''")
      case True
      then show ?thesis using cov d lack ok e(2) eps(2) \<open>er_scope e \<noteq> ''''\<close> by (simp add: seed_def)
    next
      case False
      then show ?thesis using cov d lack e(2,3) by (simp add: seed_def)
    qed
  qed
  show ?thesis using B cov owe by blast
qed

definition sample_ops_config :: "world OpsConfig" where
  "sample_ops_config = \<lparr>oc_Store = Some (pg_ops sample_server), oc_FactStore = None, oc_Embedder = Some sample_embedder, oc_Extractor = None,
     oc_Clock = Some (pg_clock sample_server)\<rparr>"

definition sample_two_scopes :: world where
  "sample_two_scopes = \<lparr>w_db = sample_log\<lparr>scopes := [\<lparr>sc_id = ''user:1'', sc_last_seq = 1, sc_created_at = 7\<rparr>, \<lparr>sc_id = ''user:2'', sc_last_seq = 1, sc_created_at = 7\<rparr>],
     episodes := [sample_row, sample_row\<lparr>er_id := 2, er_scope := ''user:2''\<rparr>]\<rparr>, w_calls = 1\<rparr>"

definition sample_backfill :: BackfillRequest where
  "sample_backfill = \<lparr>bf_Scope = '''', bf_Kinds = [], bf_AfterSeq = 0, bf_BatchSize = 0, bf_Limit = 1, bf_RunAfter = zero_time\<rparr>"

definition sample_ops :: "world Ops" where
  "sample_ops = pg_operator sample_server (Some sample_embedder) None"

lemma sample_ops:
  "Ops_New (pg_clock sample_server) sample_ops_config = Inr sample_ops" "oc_Store sample_ops_config = Some (pg_ops sample_server)"
  "oc_FactStore sample_ops_config = None" "oc_Clock sample_ops_config = Some (pg_clock sample_server)"
  by (simp_all add: Ops_New_def sample_ops_config_def sample_ops_def pg_operator_def sample_embedder_def Let_def)

lemma sample_two_scopes_ok: "world_ok sample_two_scopes"
  by (simp add: world_ok_def windows_ok_def sample_two_scopes_def sample_log_def sample_row_def empty_db_def db_inv_def table_ok_defs scope_check_def
      episode_check_def len_between_def char_length_def ascii_simps)

lemma sample_coll: "total_order (sv_coll sample_server)"
  by (auto simp: total_order_def sample_server_def total_preorder_linorder)

theorem Backfill_covers_witness:
  "\<exists>err out w'. Backfill 3 20 sample_ops (sample_backfill\<lparr>bf_Limit := 9\<rparr>) sample_two_scopes = Some (err, out, w') \<and> br_Done out \<and> err = None
     \<and> owing w' JobKindEncode ''user:1'' 1 \<and> owing w' JobKindEncode ''user:2'' 2"
proof -
  let ?req = "sample_backfill\<lparr>bf_Limit := 9\<rparr>"
  have v: "BackfillRequest_Validate ?req = None" by code_simp
  have k: "backfillKinds sample_ops (bf_Kinds ?req) = Inr [JobKindEncode]" by code_simp
  have f: "length [JobKindEncode] * nat (or_default (bf_Limit ?req) DefaultBackfillLimit) < 20" "length (scopes (w_db sample_two_scopes)) < 3"
    by code_simp+
  have d: "map_option (\<lambda>(err, out, w). br_Done out) (Backfill 3 20 sample_ops ?req sample_two_scopes) = Some True" by code_simp
  have l: "\<forall>e \<in> set (episodes (w_db sample_two_scopes)). work_left (oc_Embedder sample_ops_config) (oc_Extractor sample_ops_config) JobKindEncode (w_db sample_two_scopes) e"
    by (simp add: work_left_def sample_ops_config_def has_encoding_def sample_two_scopes_def sample_log_def empty_db_def)
  show ?thesis
    using Backfill_covers[OF sample_ops sample_two_scopes_ok sample_coll v k f] d l
    by (auto simp: sample_backfill_def sample_two_scopes_def sample_row_def)
qed


definition sample_page :: "BackfillResult \<times> world" where
  "sample_page = snd (the (Backfill 3 20 sample_ops sample_backfill sample_two_scopes))"

definition sample_resume :: BackfillRequest where
  "sample_resume = sample_backfill\<lparr>bf_Scope := br_NextScope (fst sample_page), bf_AfterSeq := br_NextSeq (fst sample_page)\<rparr>"

definition sample_resumed :: "BackfillResult \<times> world" where
  "sample_resumed = snd (the (Backfill 3 20 sample_ops sample_resume (snd sample_page)))"


end
