(* ===== verification/Go_Time.thy ===== *)
theory Go_Time
  imports Go_Strings "HOL-Library.Monad_Syntax"
begin

section \<open>Dates, timestamps and decimal numbers\<close>

text \<open>
  What the source uses of Go's \<^verbatim>\<open>strconv\<close> and \<^verbatim>\<open>time\<close> packages: decimal printing, and \<^verbatim>\<open>time.Parse\<close> for
  the two layouts of \<^verbatim>\<open>extract/parse.go\<close>. An instant counts nanoseconds from the first of January of the
  year one, which is the zero \<^verbatim>\<open>time.Time\<close>. Parsing is as lenient as Go's: a one-digit hour, a comma
  before the fraction and offsets up to \<^verbatim>\<open>24:60\<close> are accepted.
\<close>

subsection \<open>Decimal digits\<close>

definition isDigit :: "char \<Rightarrow> bool" where
  "isDigit c \<longleftrightarrow> 48 \<le> (of_char c :: nat) \<and> (of_char c :: nat) \<le> 57"

definition digit_of :: "char \<Rightarrow> nat" where
  "digit_of c = of_char c - 48"

definition digit :: "nat \<Rightarrow> char" where
  "digit n = char_of (48 + n)"

fun show_nat :: "nat \<Rightarrow> string" where
  "show_nat n = (if n < 10 then [digit n] else show_nat (n div 10) @ [digit (n mod 10)])"

declare show_nat.simps [simp del]

definition Itoa :: "int \<Rightarrow> string" where
  "Itoa k = (if k < 0 then ''-'' else '''') @ show_nat (nat \<bar>k\<bar>)"

definition value_of :: "string \<Rightarrow> nat" where
  "value_of s = foldl (\<lambda>a c. 10 * a + digit_of c) 0 s"

lemma isDigit_digit [simp]: "n < 10 \<Longrightarrow> isDigit (digit n)"
  by (simp add: isDigit_def digit_def)

lemma digit_of_digit [simp]: "n < 10 \<Longrightarrow> digit_of (digit n) = n"
  by (simp add: digit_of_def digit_def)

lemma show_nat_digits: "\<forall>c \<in> set (show_nat n). isDigit c"
  by (induction n rule: show_nat.induct) (subst show_nat.simps, auto)

lemma show_nat_nonempty [simp]: "show_nat n \<noteq> []"
  by (subst show_nat.simps) simp

lemma value_of_show_nat: "value_of (show_nat n) = n"
proof (induction n rule: show_nat.induct)
  case (1 n)
  then show ?case by (subst show_nat.simps) (auto simp: value_of_def)
qed

lemma show_nat_inject: "show_nat m = show_nat n \<longleftrightarrow> m = n"
  by (metis value_of_show_nat)

lemma isDigit_neq: "isDigit c \<Longrightarrow> c \<noteq> CHR '':''" "isDigit c \<Longrightarrow> c \<noteq> CHR ''-''"
  by (auto simp: isDigit_def)

lemma Itoa_inject: "Itoa j = Itoa k \<longleftrightarrow> j = k"
proof
  assume eq: "Itoa j = Itoa k"
  have "show_nat n \<noteq> CHR ''-'' # s" for n s
    using show_nat_digits[of n] isDigit_neq(2)[of "CHR ''-''"] by auto
  then have "(j < 0) = (k < 0)" using eq unfolding Itoa_def by (cases "j < 0"; cases "k < 0") (simp_all, metis)
  moreover have "nat \<bar>j\<bar> = nat \<bar>k\<bar>" using eq calculation by (auto simp: Itoa_def show_nat_inject split: if_splits)
  ultimately show "j = k" by linarith
qed simp

subsection \<open>The calendar\<close>

definition leap :: "nat \<Rightarrow> bool" where
  "leap y \<longleftrightarrow> 4 dvd y \<and> (\<not> 100 dvd y \<or> 400 dvd y)"

definition daysIn :: "nat \<Rightarrow> nat \<Rightarrow> nat" where
  "daysIn m y = (if m = 2 then (if leap y then 29 else 28) else if m \<in> {4, 6, 9, 11} then 30 else 31)"

definition days_before_year :: "nat \<Rightarrow> int" where
  "days_before_year y = (let p = int y - 1 in 365 * p + p div 4 - p div 100 + p div 400)"

definition day_number :: "nat \<Rightarrow> nat \<Rightarrow> nat \<Rightarrow> int" where
  "day_number y m d = days_before_year y + int (sum_list (map (\<lambda>k. daysIn k y) [1..<m])) + int d - 1"

definition Hour :: int where "Hour = 60 * Minute"
definition Day :: int where "Day = 24 * Hour"

definition civil :: "nat \<Rightarrow> nat \<Rightarrow> nat \<Rightarrow> bool" where
  "civil y m d \<longleftrightarrow> y \<le> 9999 \<and> 1 \<le> m \<and> m \<le> 12 \<and> 1 \<le> d \<and> d \<le> daysIn m y"

subsection \<open>Parsing\<close>

fun getnum :: "bool \<Rightarrow> string \<Rightarrow> (nat \<times> string) option" where
  "getnum fixed [] = None"
| "getnum fixed [c] = (if isDigit c \<and> \<not> fixed then Some (digit_of c, []) else None)"
| "getnum fixed (c # e # s) =
     (if \<not> isDigit c then None
      else if \<not> isDigit e then (if fixed then None else Some (digit_of c, e # s))
      else Some (10 * digit_of c + digit_of e, s))"

definition atoi :: "string \<Rightarrow> nat option" where
  "atoi s = (if s \<noteq> [] \<and> list_all isDigit s then Some (value_of s) else None)"

fun expect :: "char \<Rightarrow> string \<Rightarrow> string option" where
  "expect c [] = None"
| "expect c (x # s) = (if x = c then Some s else None)"

definition long_year :: "string \<Rightarrow> (nat \<times> string) option" where
  "long_year s = (if length s < 4 then None else map_option (\<lambda>y. (y, drop 4 s)) (atoi (take 4 s)))"

definition guard :: "bool \<Rightarrow> unit option" where
  "guard b = (if b then Some () else None)"

definition parse_day :: "string \<Rightarrow> ((nat \<times> nat \<times> nat) \<times> string) option" where
  "parse_day s = do {
     (y, s) \<leftarrow> long_year s;
     s \<leftarrow> expect CHR ''-'' s;
     (m, s) \<leftarrow> getnum True s;
     guard (1 \<le> m \<and> m \<le> 12);
     s \<leftarrow> expect CHR ''-'' s;
     (d, s) \<leftarrow> getnum True s;
     guard (1 \<le> d \<and> d \<le> daysIn m y);
     Some ((y, m, d), s) }"

text \<open>\<^verbatim>\<open>time.ParseInLocation(time.DateOnly, s, loc)\<close> up to the location: the number of the day.\<close>

definition parse_DateOnly :: "string \<Rightarrow> int option" where
  "parse_DateOnly s = do { ((y, m, d), s) \<leftarrow> parse_day s; guard (s = []); Some (day_number y m d) }"

text \<open>The digits after a point or comma, of which nine count.\<close>

definition parse_fraction :: "string \<Rightarrow> nat \<times> string" where
  "parse_fraction s =
     (case s of
        c # e # r \<Rightarrow>
          if (c = CHR ''.'' \<or> c = CHR '','') \<and> isDigit e
          then let ds = takeWhile isDigit (e # r); kept = take 9 ds
               in (value_of kept * 10 ^ (9 - length kept), dropWhile isDigit (e # r))
          else (0, s)
      | _ \<Rightarrow> (0, s))"

text \<open>\<^verbatim>\<open>Z\<close>, or a sign and \<^verbatim>\<open>hh:mm\<close>: the offset in seconds, none for \<^verbatim>\<open>Z\<close>.\<close>

definition parse_zone :: "string \<Rightarrow> (int option \<times> string) option" where
  "parse_zone s =
     (if s \<noteq> [] \<and> hd s = CHR ''Z'' then Some (None, tl s)
      else if length s < 6 \<or> s ! 3 \<noteq> CHR '':'' then None
      else do {
        (hh, _) \<leftarrow> getnum True (take 2 (drop 1 s));
        (mm, _) \<leftarrow> getnum True (take 2 (drop 4 s));
        guard (hh \<le> 24 \<and> mm \<le> 60);
        guard (hd s = CHR ''+'' \<or> hd s = CHR ''-'');
        Some (Some ((if hd s = CHR ''-'' then -1 else 1) * (int hh * 60 + int mm) * 60), drop 6 s) })"

text \<open>\<^verbatim>\<open>time.Parse(time.RFC3339, s)\<close>: the instant, and the offset it was written with.\<close>

definition parse_RFC3339 :: "string \<Rightarrow> (int \<times> int option) option" where
  "parse_RFC3339 s = do {
     ((y, m, d), s) \<leftarrow> parse_day s;
     s \<leftarrow> expect CHR ''T'' s;
     (hh, s) \<leftarrow> getnum False s;
     guard (hh < 24);
     s \<leftarrow> expect CHR '':'' s;
     (mi, s) \<leftarrow> getnum True s;
     guard (mi < 60);
     s \<leftarrow> expect CHR '':'' s;
     (sec, s) \<leftarrow> getnum True s;
     guard (sec < 60);
     let (nanos, s) = parse_fraction s;
     (zone, s) \<leftarrow> parse_zone s;
     guard (s = []);
     Some (day_number y m d * Day + int hh * Hour + int mi * Minute + int sec * Second + int nanos
             - (case zone of None \<Rightarrow> 0 | Some off \<Rightarrow> off * Second), zone) }"

subsection \<open>Reading back what was printed\<close>

lemma TrimSpace_id:
  assumes "s \<noteq> []" "of_char (hd s) < (128 :: nat)" "\<not> IsSpace (of_char (hd s))"
    "of_char (last s) < (128 :: nat)" "\<not> IsSpace (of_char (last s))"
  shows "TrimSpace s = s"
proof -
  have "bytes_of s = of_char (hd s) # bytes_of (tl s)" using assms(1) by (cases s) (simp_all add: bytes_of_def)
  then have l: "TrimLeft IsSpace (bytes_of s) = bytes_of s" using assms TrimLeft_ascii by metis
  have "bytes_of s = bytes_of (butlast s) @ [of_char (last s)]"
    using assms(1) append_butlast_last_id[OF assms(1)] by (metis bytes_of_append bytes_of_def list.map(1) list.map(2))
  then have "TrimRight IsSpace (bytes_of s) = bytes_of s" using assms TrimRight_ascii by metis
  then show ?thesis by (simp add: TrimSpace_def l) (simp add: bytes_of_def map_idI)
qed

lemma isDigit_nonblank: "isDigit c \<Longrightarrow> of_char c < (128 :: nat) \<and> \<not> IsSpace (of_char c)"
  by (simp add: isDigit_def IsSpace_def)

definition two :: "nat \<Rightarrow> string" where
  "two n = [digit (n div 10), digit (n mod 10)]"

definition print_date :: "nat \<Rightarrow> nat \<Rightarrow> nat \<Rightarrow> string" where
  "print_date y m d = two (y div 100) @ two (y mod 100) @ ''-'' @ two m @ ''-'' @ two d"

definition print_UTC :: "nat \<Rightarrow> nat \<Rightarrow> nat \<Rightarrow> nat \<Rightarrow> nat \<Rightarrow> nat \<Rightarrow> string" where
  "print_UTC y m d hh mi sec = print_date y m d @ ''T'' @ two hh @ '':'' @ two mi @ '':'' @ two sec @ ''Z''"

lemma getnum_two [simp]: "n < 100 \<Longrightarrow> getnum fixed (two n @ s) = Some (n, s)"
  by (simp add: two_def)

lemma long_year_two:
  assumes "y \<le> 9999"
  shows "long_year (two (y div 100) @ two (y mod 100) @ s) = Some (y, s)"
proof -
  have "y div 100 < 100" "y mod 100 < 100" using assms by auto
  then have "y div 100 div 10 < 10" "y mod 100 div 10 < 10" by auto
  then show ?thesis by (simp add: long_year_def atoi_def two_def value_of_def)
qed

lemma daysIn_le: "daysIn m y \<le> 31"
  by (simp add: daysIn_def)

lemma parse_day_print: "civil y m d \<Longrightarrow> parse_day (print_date y m d @ s) = Some ((y, m, d), s)"
  using daysIn_le[of m y] by (simp add: civil_def parse_day_def print_date_def long_year_two guard_def)

lemma parse_DateOnly_print: "civil y m d \<Longrightarrow> parse_DateOnly (print_date y m d) = Some (day_number y m d)"
  using parse_day_print[of y m d "[]"] by (simp add: parse_DateOnly_def guard_def)

lemma parse_RFC3339_print:
  assumes "civil y m d" "hh < 24" "mi < 60" "sec < 60"
  shows "parse_RFC3339 (print_UTC y m d hh mi sec) =
    Some (day_number y m d * Day + int hh * Hour + int mi * Minute + int sec * Second, None)"
  using assms parse_day_print[OF assms(1)] by (simp add: parse_RFC3339_def print_UTC_def guard_def parse_fraction_def parse_zone_def)

lemma TrimSpace_print:
  assumes "civil y m d"
  shows "TrimSpace (print_date y m d) = print_date y m d" "TrimSpace (print_UTC y m d hh mi sec) = print_UTC y m d hh mi sec"
proof -
  have y: "y div 100 div 10 < 10" using assms by (auto simp: civil_def)
  have h: "hd (print_date y m d) = digit (y div 100 div 10)" "hd (print_UTC y m d hh mi sec) = digit (y div 100 div 10)"
    "last (print_date y m d) = digit (d mod 10)" "last (print_UTC y m d hh mi sec) = CHR ''Z''"
    "print_date y m d \<noteq> []" "print_UTC y m d hh mi sec \<noteq> []"
    by (simp_all add: print_date_def print_UTC_def two_def)
  show "TrimSpace (print_date y m d) = print_date y m d"
    by (rule TrimSpace_id) (use h y isDigit_nonblank[of "digit (y div 100 div 10)"] isDigit_nonblank[of "digit (d mod 10)"] in simp_all)
  show "TrimSpace (print_UTC y m d hh mi sec) = print_UTC y m d hh mi sec"
    by (rule TrimSpace_id) (use h y isDigit_nonblank[of "digit (y div 100 div 10)"] in \<open>simp_all add: IsSpace_def\<close>)
qed

lemma parse_RFC3339_date: "civil y m d \<Longrightarrow> parse_RFC3339 (print_date y m d) = None"
  using parse_day_print[of y m d "[]"] by (simp add: parse_RFC3339_def)

lemma day_number_zero: "day_number 1 1 1 = 0"
  by (simp add: day_number_def days_before_year_def)

end
