(* ===== verification/Extract_Prompt.thy ===== *)
theory Extract_Prompt
  imports Validate Go_Time
begin

section \<open>What an extraction asks a model\<close>

text \<open>
  \<^verbatim>\<open>extract/prompt.go\<close> and \<^verbatim>\<open>extract/schema.go\<close>: the standing prompts, the rendering of one request and the
  response schemas. \<open>golib\<close> bundles what comes from outside the repository: Go's JSON codec, hash, float,
  case and time-zone tables, and the \<^verbatim>\<open>uuid\<close> package.
\<close>

subsection \<open>Options, and what the library supplies\<close>

record Options =
  op_Predicates :: "Predicate list"
  op_Instructions :: string
  op_MaxAssertions :: int
  op_Reconcile :: bool
  op_MaxPromptBytes :: int

datatype jsonSchema = JSchema
  (js_Type: string) (js_Description: string) (js_Properties: "(string \<times> jsonSchema) list") (js_Required: "string list")
  (js_AdditionalProperties: "bool option") (js_Items: "jsonSchema option") (js_Enum: "string list")
  (js_MaxItems: "int option") (js_MaxLength: "int option") (js_Minimum: "rat option") (js_Maximum: "rat option")

text \<open>The reply shapes. A pointer is an \<open>option\<close>; a JSON number is the rational it denotes.\<close>

record jsonAssertion =
  ja_Subject :: string
  ja_Predicate :: string
  ja_Object :: string
  ja_Statement :: string
  ja_ValidFrom :: string
  ja_ValidTo :: string
  ja_Confidence :: "rat option"

record jsonRetraction =
  jx_FactID :: string
  jx_At :: string

record extraction =
  xn_Assertions :: "jsonAssertion list option"
  xn_Retractions :: "jsonRetraction list option"

record topics =
  tp_Subjects :: "string list option"
  tp_Predicates :: "string list option"

record golib =
  gl_extraction :: "string \<Rightarrow> extraction option"
  gl_topics :: "string \<Rightarrow> topics option"
  gl_Marshal :: "jsonSchema \<Rightarrow> string option"
  gl_sha256 :: "string \<Rightarrow> string"
  gl_float32 :: "rat \<Rightarrow> float32"
  gl_ToLower :: "string \<Rightarrow> string"
  gl_midnight :: "nat \<Rightarrow> int \<Rightarrow> int"
  gl_zone :: "int \<Rightarrow> int \<Rightarrow> nat"
  gl_Format :: "gotime \<Rightarrow> string"
  gl_Quote :: "string \<Rightarrow> string"
  gl_fixed2 :: "float32 \<Rightarrow> string"
  gl_uuid_Parse :: "string \<Rightarrow> uuid option"
  gl_uuid_String :: "uuid \<Rightarrow> string"

subsection \<open>The prompts\<close>

text \<open>Lines joined by newlines: how the raw string constants of the source are written down here.\<close>

definition lines :: "string list \<Rightarrow> string" where
  "lines ls = (case ls of [] \<Rightarrow> [] | l # rest \<Rightarrow> l @ concat (map (\<lambda>m. [CHR 0x0A] @ m) rest))"

definition extractionSystem :: string where
  "extractionSystem = lines
    [''You read a fragment of an agent's conversation log and decide what, if'',
     ''anything, about it is worth remembering durably.'',
     '''',
     ''Return JSON conforming to the schema you were given, and nothing else.'',
     '''',
     ''WHAT TO RECORD'',
     '''',
     ''Most fragments yield nothing. Returning no assertions and no retractions is a'',
     ''good answer and the common one. An extractor that finds something durable in'',
     ''every exchange fills a memory with noise, and that noise is then read back on'',
     ''every single recall -- which is worse than finding nothing at all.'',
     '''',
     ''Record a claim only if all of these hold:'',
     ''  - it would still matter in a month, to someone who was not present;'',
     ''  - it is about the world, not about this conversation. \"The user asked about'',
     ''    refunds\" is a transcript, not a fact;'',
     ''  - it was stated or clearly implied, not inferred from one hedged remark.'',
     '''',
     ''Do not record pleasantries, acknowledgements, questions, the agent's own output'',
     ''unless it records a commitment it has made, or anything the speaker framed as'',
     ''uncertain, hypothetical or someone else's opinion.'',
     '''',
     ''SHAPE'',
     '''',
     ''Each assertion is a triple with a sentence beside it:'',
     '''',
     ''  subject    what the claim is about'',
     ''  predicate  the relation, as a lowercase snake_case slug containing no spaces'',
     ''  object     the value of that relation, one value per assertion'',
     ''  statement  the claim as one plain sentence -- this is what a model will later'',
     ''             be shown, and what full-text search will match against'',
     '''',
     ''The triple is identity. The same claim extracted twice must produce the same'',
     ''three values or the memory will hold it twice, so:'',
     '''',
     ''  - Keep subjects stable. The person the agent serves is \"the user\" in every'',
     ''    assertion, never \"he\" in one and their name in the next. Reuse a subject'',
     ''    that already appears in the known facts before writing a new one.'',
     ''  - Keep predicates stable. Reuse a predicate that already appears in the known'',
     ''    facts before inventing one. \"lives_in\" and \"resides_in\" are one relation and'',
     ''    must not both exist.'',
     ''  - Put one thing in each object. Being allergic to two things is two'',
     ''    assertions, not one object holding both.'',
     '''',
     ''TIME'',
     '''',
     ''valid_from is when the claim became true in the world, which is usually not when'',
     ''it was mentioned. Resolve relative expressions -- \"last spring\", \"since'',
     ''Tuesday\" -- against the current instant given below. When nothing in the text'',
     ''dates the claim, use the occurrence time of the episode that stated it.'',
     '''',
     ''valid_to is when the claim stopped being true. It is usually absent, because'',
     ''most claims are still true. Set it only when a single episode describes a span'',
     ''that has already ended.'',
     '''',
     ''confidence is required, between 0 and 1. Use it honestly: 1.0 for something'',
     ''stated plainly, lower for something merely implied.'',
     '''',
     ''WHAT CHANGED'',
     '''',
     ''You are shown the facts already believed, each with an id.'',
     '''',
     ''  - If an episode contradicts one, retract it -- at the instant it stopped being'',
     ''    true, not now. \"I moved to Berlin in June\" closes the Paris fact on the'',
     ''    first of June, whatever today's date is. This is the whole difference'',
     ''    between a memory that can answer \"where did they live last year\" and one'',
     ''    that answers it with where they live today.'',
     ''  - If an episode merely restates a known fact, do nothing. It is recorded.'',
     ''  - If an episode adds a claim that stands alongside a known one rather than'',
     ''    replacing it, assert it and retract nothing. A second allergy does not'',
     ''    cancel the first.'',
     ''  - Never retract a fact the episodes say nothing about.'']"

definition topicsPrompt :: string where
  "topicsPrompt = lines
    [''You read a fragment of an agent's conversation log and name what it is about, so'',
     ''that only the relevant part of a large memory has to be consulted.'',
     '''',
     ''Return JSON conforming to the schema you were given, and nothing else.'',
     '''',
     ''List every subject the fragment says anything about, and every relation it'',
     ''touches, whether or not it makes a new claim about them. \"I'm not vegetarian any'',
     ''more\" names the subject \"the user\" and the relation \"diet\" while asserting'',
     ''nothing at all.'',
     '''',
     ''Use the vocabulary an extraction would: the person the agent serves is \"the'',
     ''user\", and relations are lowercase snake_case slugs.'',
     '''',
     ''Be generous. Naming a subject that turns out to be irrelevant costs one line of'',
     ''a later prompt. Missing one hides a fact that should have been superseded.'']"

definition extractionPrompt :: "Options \<Rightarrow> string" where
  "extractionPrompt opts =
     extractionSystem
     @ (if TrimSpace (op_Instructions opts) \<noteq> ''''
        then lines ['''', '''', ''WHAT THIS DEPLOYMENT CARES ABOUT'', '''', ''''] @ TrimSpace (op_Instructions opts) else '''')
     @ (if length (op_Predicates opts) > 0
        then lines ['''', '''', ''VOCABULARY'', '''', ''Use only these predicates, and no others:'', '''']
          @ concat (map (\<lambda>p. lines [''  '' @ p, '''']) (op_Predicates opts))
          @ lines ['''', ''A claim that fits none of them is a claim not to record.''] else '''')
     @ lines ['''', '''', ''Return at most '' @ Itoa (op_MaxAssertions opts) @ '' assertions. If more seem to qualify, return the ''
                @ Itoa (op_MaxAssertions opts) @ '' that'', ''would matter most in a month.'']"

definition renderNow :: "golib \<Rightarrow> gotime \<Rightarrow> string" where
  "renderNow lib now = lines [''The current instant is '' @ gl_Format lib now @ ''.'', '''']"

definition render_fact :: "golib \<Rightarrow> Fact \<Rightarrow> string" where
  "render_fact lib f =
     (let window = (if \<not> IsOpen (f_Valid f) then ''ended '' @ gl_Format lib (v_To (f_Valid f)) else ''still true'')
      in lines [''['' @ gl_uuid_String lib (f_ID f) @ ''] '' @ f_Statement f,
           ''    '' @ f_Subject f @ '' '' @ f_Predicate f @ '' '' @ gl_Quote lib (f_Object f) @ '' | since ''
             @ gl_Format lib (v_From (f_Valid f)) @ '', '' @ window @ '' | confidence '' @ gl_fixed2 lib (f_Confidence f), ''''])"

definition renderKnown :: "golib \<Rightarrow> Fact list \<Rightarrow> string" where
  "renderKnown lib known =
     lines ['''', ''KNOWN FACTS'', '''', '''']
     @ (if length known = 0 then lines [''Nothing is believed about this subject yet.'', '''']
        else concat (map (render_fact lib) known))"

definition render_episode :: "golib \<Rightarrow> Episode \<Rightarrow> string" where
  "render_episode lib ep =
     (let speaker = (if ep_Actor ep \<noteq> '''' then ep_Role ep @ '' ('' @ ep_Actor ep @ '')'' else ep_Role ep)
      in lines [''#'' @ Itoa (ep_Seq ep) @ '' '' @ gl_Format lib (ep_OccurredAt ep) @ '' '' @ speaker @ '':'', ep_Content ep, '''', ''''])"

definition renderEpisodes :: "golib \<Rightarrow> Episode list \<Rightarrow> string" where
  "renderEpisodes lib eps = lines ['''', ''NEW EPISODES'', '''', ''''] @ concat (map (render_episode lib) eps)"

subsection \<open>The response schemas\<close>

definition text_field :: "int option \<Rightarrow> string \<Rightarrow> jsonSchema" where
  "text_field maxLen desc = JSchema ''string'' desc [] [] None None [] None maxLen None None"

definition predicate_field :: "Options \<Rightarrow> jsonSchema" where
  "predicate_field opts =
     (if length (op_Predicates opts) > 0
      then JSchema ''string'' ''The relation. Use one of the listed values, or omit the assertion entirely if none of them fits.''
             [] [] None None (op_Predicates opts) None (Some (int MaxPredicateLen)) None None
      else text_field (Some (int MaxPredicateLen))
             (''The relation, as a lowercase snake_case slug with no spaces. ''
              @ ''Reuse one that already appears in the known facts before inventing one.''))"

definition closed_object :: "string list \<Rightarrow> (string \<times> jsonSchema) list \<Rightarrow> jsonSchema" where
  "closed_object required props = JSchema ''object'' '''' props required (Some False) None [] None None None None"

definition array_of :: "int option \<Rightarrow> string \<Rightarrow> jsonSchema \<Rightarrow> jsonSchema" where
  "array_of maxItems desc item = JSchema ''array'' desc [] [] None (Some item) [] maxItems None None None"

definition assertion_schema :: "Options \<Rightarrow> jsonSchema" where
  "assertion_schema opts = closed_object
     [''subject'', ''predicate'', ''object'', ''statement'', ''valid_from'', ''confidence'']
     [(''subject'', text_field (Some (int MaxSubjectLen)) ''What the claim is about, spelled identically in every assertion about the same entity.''),
      (''predicate'', predicate_field opts),
      (''object'', text_field (Some (int MaxObjectLen)) ''The value of the relation. One value per assertion.''),
      (''statement'', text_field (Some (int MaxStatementLen))
         ''The claim as one plain sentence. This is what a model is later shown and what full-text search matches.''),
      (''valid_from'', text_field None ''When the claim became true in the world, as YYYY-MM-DD or RFC 3339. Not when it was mentioned.''),
      (''valid_to'', text_field None (''When the claim stopped being true, as YYYY-MM-DD or RFC 3339. ''
         @ ''Omit it unless one episode describes a span that has already ended.'')),
      (''confidence'', JSchema ''number'' ''How sure you are, from 0 to 1. Required.'' [] [] None None [] None None (Some 0) (Some 1))]"

definition retraction_schema :: jsonSchema where
  "retraction_schema = closed_object [''fact_id'', ''at'']
     [(''fact_id'', text_field None ''The id of a known fact, copied exactly from the list you were shown.''),
      (''at'', text_field None (''When the fact stopped being true, as YYYY-MM-DD or RFC 3339. ''
         @ ''The moment the world changed, not the moment it was mentioned.''))]"

definition extractionSchema :: "Options \<Rightarrow> jsonSchema" where
  "extractionSchema opts = closed_object [''assertions'', ''retractions'']
     [(''assertions'', array_of (Some (op_MaxAssertions opts)) ''Durable claims to record. An empty array is a good, common answer.'' (assertion_schema opts)),
      (''retractions'', array_of (Some (int MaxRetractionsPerExtraction))
         ''Known facts these episodes contradict. An empty array is a good, common answer.'' retraction_schema)]"

definition topicsSchema :: jsonSchema where
  "topicsSchema = closed_object [''subjects'', ''predicates'']
     [(''subjects'', array_of None ''Every subject these episodes say anything about, whether or not they make a new claim about it.'' (text_field None '''')),
      (''predicates'', array_of None (''Every relation these episodes touch, as lowercase snake_case ''
         @ ''slugs, whether or not they make a new claim.'') (text_field None ''''))]"

definition marshal :: "golib \<Rightarrow> jsonSchema \<Rightarrow> err + string" where
  "marshal lib s = (case gl_Marshal lib s of None \<Rightarrow> Inl (Foreign ''json'') | Some raw \<Rightarrow> Inr raw)"

end
