(* ===== verification/Extract.thy ===== *)
theory Extract
  imports Extract_Prompt Ports
begin

section \<open>Extraction by a language model\<close>

text \<open>
  \<^verbatim>\<open>extract/extract.go\<close> and \<^verbatim>\<open>extract/parse.go\<close>: an extractor that asks a model, reads its reply and drops what
  a fact store would refuse. A \<open>Completer\<close> is one model call, a function of the prompt and of a state
  \<open>'s\<close>, as the models behind the other ports are. Logging is left out.

  The lemmas show that whatever the model replies, what the extractor returns passes the validation of
  the store; that a dropped item costs the others nothing; that the configuration fingerprint is
  taken over a text from which the configuration can be read back; and that a retraction at the very
  start of a fact passes here and is refused by the store.
\<close>

definition PromptVersion :: int where "PromptVersion = 1"
definition DefaultMaxAssertions :: int where "DefaultMaxAssertions = 16"
definition DefaultMaxPromptBytes :: int where "DefaultMaxPromptBytes = 256 * 2 ^ 10"

record Prompt =
  pr_System :: string
  pr_User :: string
  pr_Schema :: string

record 's Completer =
  cm_Complete :: "Prompt \<Rightarrow> 's \<Rightarrow> err + string"
  cm_Model :: string

text \<open>The struct \<^verbatim>\<open>extract.Extractor\<close>; a nil vocabulary is \<open>None\<close>.\<close>

record 's LLM =
  x_completer :: "'s Completer"
  x_id :: ExtractorID
  x_opts :: Options
  x_predicates :: "Predicate set option"
  x_system :: string
  x_topics :: string
  x_schema :: string
  x_topicsSchema :: string

subsection \<open>Construction\<close>

fun compact :: "'a list \<Rightarrow> 'a list" where
  "compact (x # y # zs) = (if x = y then compact (y # zs) else x # compact (y # zs))"
| "compact xs = xs"

definition FormatBool :: "bool \<Rightarrow> string" where
  "FormatBool b = (if b then ''true'' else ''false'')"

definition digest_write :: "string \<Rightarrow> string \<Rightarrow> string" where
  "digest_write key val = key @ '':'' @ show_nat (length val) @ '':'' @ val @ [CHR 0x0A]"

definition digest_input :: "Options \<Rightarrow> string" where
  "digest_input opts =
     digest_write ''prompt'' (Itoa PromptVersion)
     @ digest_write ''instructions'' (op_Instructions opts)
     @ digest_write ''assertions'' (Itoa (op_MaxAssertions opts))
     @ digest_write ''reconcile'' (FormatBool (op_Reconcile opts))
     @ concat (map (digest_write ''predicate'') (op_Predicates opts))"

definition digest :: "golib \<Rightarrow> Options \<Rightarrow> string" where
  "digest lib opts = take 8 (gl_sha256 lib (digest_input opts))"

definition resolve_options :: "Options \<Rightarrow> Options" where
  "resolve_options opts =
     opts\<lparr>op_MaxAssertions := (if op_MaxAssertions opts = 0 then DefaultMaxAssertions else op_MaxAssertions opts),
       op_MaxPromptBytes := (if op_MaxPromptBytes opts = 0 then DefaultMaxPromptBytes else op_MaxPromptBytes opts),
       op_Predicates := compact (sort_by (\<le>) (op_Predicates opts))\<rparr>"

definition extractor_id :: "golib \<Rightarrow> string \<Rightarrow> Options \<Rightarrow> ExtractorID" where
  "extractor_id lib model opts = ''mempher-extract/v'' @ Itoa PromptVersion @ ''+'' @ model @ ''+'' @ digest lib opts"

definition Extract_New :: "golib \<Rightarrow> 's Completer option \<Rightarrow> Options \<Rightarrow> err + 's LLM" where
  "Extract_New lib c opts0 =
     (case c of None \<Rightarrow> Inl ErrInvalidConfig | Some completer \<Rightarrow>
      let model = cm_Model completer; opts = resolve_options opts0; i = extractor_id lib model opts in
      if model = '''' then Inl ErrInvalidConfig
      else if op_MaxAssertions opts0 < 0 then Inl ErrInvalidConfig
      else if op_MaxAssertions opts0 > int MaxAssertionsPerExtraction then Inl ErrInvalidConfig
      else if op_MaxPromptBytes opts0 < 0 then Inl ErrInvalidConfig
      else case first_err (map Predicate_Validate (op_Predicates opts)) of Some e \<Rightarrow> Inl (Join [e, ErrInvalidConfig]) | None \<Rightarrow>
      if length i > MaxExtractorLen then Inl ErrInvalidConfig
      else case marshal lib (extractionSchema opts) of Inl e \<Rightarrow> Inl e | Inr schema \<Rightarrow>
           case marshal lib topicsSchema of Inl e \<Rightarrow> Inl e | Inr topicSchema \<Rightarrow>
      Inr \<lparr>x_completer = completer, x_id = i, x_opts = opts,
           x_predicates = (if length (op_Predicates opts) > 0 then Some (set (op_Predicates opts)) else None),
           x_system = extractionPrompt opts, x_topics = topicsPrompt, x_schema = schema, x_topicsSchema = topicSchema\<rparr>)"

subsection \<open>Reading the reply\<close>

definition extraction_answered :: "extraction \<Rightarrow> bool" where
  "extraction_answered e \<longleftrightarrow> xn_Assertions e \<noteq> None \<or> xn_Retractions e \<noteq> None"

definition topics_answered :: "topics \<Rightarrow> bool" where
  "topics_answered t \<longleftrightarrow> tp_Subjects t \<noteq> None \<or> tp_Predicates t \<noteq> None"

definition decode :: "(string \<Rightarrow> 'a option) \<Rightarrow> string \<Rightarrow> err + 'a" where
  "decode unmarshal raw = (case unmarshal raw of None \<Rightarrow> Inl (Join [Foreign ''json'', ErrMalformedResponse]) | Some out \<Rightarrow> Inr out)"

text \<open>The function \<^verbatim>\<open>instant\<close>: a timestamp, or a date at midnight where \<open>now\<close> is.\<close>

definition parse_instant :: "golib \<Rightarrow> string \<Rightarrow> gotime \<Rightarrow> err + gotime" where
  "parse_instant lib s0 now =
     (let s = TrimSpace s0 in
      if s = '''' then Inl ErrInvalidValidity
      else case parse_RFC3339 s of
             Some (t, zone) \<Rightarrow> Inr (Time t (case zone of None \<Rightarrow> 0 | Some off \<Rightarrow> gl_zone lib t off))
           | None \<Rightarrow>
               (case parse_DateOnly s of
                  Some day \<Rightarrow> Inr (Time (gl_midnight lib (location now) day) (location now))
                | None \<Rightarrow> Inl ErrInvalidValidity))"

definition assertion :: "golib \<Rightarrow> 's LLM \<Rightarrow> jsonAssertion \<Rightarrow> gotime \<Rightarrow> err + Assertion" where
  "assertion lib x raw now =
     (case ja_Confidence raw of None \<Rightarrow> Inl ErrInvalidFact | Some c \<Rightarrow>
      case parse_instant lib (ja_ValidFrom raw) now of Inl e \<Rightarrow> Inl e | Inr from \<Rightarrow>
      case (if TrimSpace (ja_ValidTo raw) \<noteq> '''' then parse_instant lib (ja_ValidTo raw) now else Inr zero_time) of Inl e \<Rightarrow> Inl e | Inr to \<Rightarrow>
      let a = \<lparr>a_Subject = TrimSpace (ja_Subject raw), a_Predicate = TrimSpace (ja_Predicate raw), a_Object = TrimSpace (ja_Object raw),
               a_Statement = TrimSpace (ja_Statement raw), a_Valid = \<lparr>v_From = from, v_To = to\<rparr>, a_Confidence = gl_float32 lib c\<rparr> in
      if (case x_predicates x of None \<Rightarrow> False | Some ps \<Rightarrow> a_Predicate a \<notin> ps) then Inl ErrInvalidFact
      else case Assertion_Validate a of Some e \<Rightarrow> Inl e | None \<Rightarrow> Inr a)"

text \<open>The loops over the reply: what fails is dropped, what exceeds the cap is not read.\<close>

fun keep_until :: "nat \<Rightarrow> ('r \<Rightarrow> err + 'a) \<Rightarrow> 'r list \<Rightarrow> 'a list \<Rightarrow> 'a list" where
  "keep_until cap f [] out = out"
| "keep_until cap f (raw # rest) out =
     (if cap \<le> length out then out
      else case f raw of Inl _ \<Rightarrow> keep_until cap f rest out | Inr a \<Rightarrow> keep_until cap f rest (out @ [a]))"

definition assertions :: "golib \<Rightarrow> 's LLM \<Rightarrow> jsonAssertion list \<Rightarrow> gotime \<Rightarrow> Assertion list" where
  "assertions lib x raws now =
     (if length raws = 0 then [] else keep_until (nat (op_MaxAssertions (x_opts x))) (\<lambda>raw. assertion lib x raw now) raws [])"

definition ParseFactID :: "golib \<Rightarrow> string \<Rightarrow> FactID option" where
  "ParseFactID lib s = gl_uuid_Parse lib s"

definition retraction :: "golib \<Rightarrow> (FactID \<rightharpoonup> Fact) \<Rightarrow> jsonRetraction \<Rightarrow> gotime \<Rightarrow> err + Retraction" where
  "retraction lib known raw now =
     (case ParseFactID lib (TrimSpace (jx_FactID raw)) of None \<Rightarrow> Inl ErrInvalidExtraction | Some i \<Rightarrow>
      case known i of None \<Rightarrow> Inl ErrInvalidExtraction | Some f \<Rightarrow>
      case parse_instant lib (jx_At raw) now of Inl e \<Rightarrow> Inl e | Inr t \<Rightarrow>
      if Before t (v_From (f_Valid f)) then Inl ErrInvalidValidity
      else let r = \<lparr>r_Fact = i, r_At = t\<rparr> in case Retraction_Validate r of Some e \<Rightarrow> Inl e | None \<Rightarrow> Inr r)"

definition known_facts :: "Fact list \<Rightarrow> FactID \<rightharpoonup> Fact" where
  "known_facts fs = map_of (rev (map (\<lambda>f. (f_ID f, f)) fs))"

definition retractions :: "golib \<Rightarrow> jsonRetraction list \<Rightarrow> ExtractRequest \<Rightarrow> Retraction list" where
  "retractions lib raws req =
     (if length raws = 0 then []
      else keep_until MaxRetractionsPerExtraction (\<lambda>raw. retraction lib (known_facts (xr_Known req)) raw (xr_Now req)) raws [])"

definition validate_reply :: "golib \<Rightarrow> 's LLM \<Rightarrow> extraction \<Rightarrow> ExtractRequest \<Rightarrow> ExtractResult" where
  "validate_reply lib x body req =
     \<lparr>xs_Assert = assertions lib x (case xn_Assertions body of None \<Rightarrow> [] | Some as \<Rightarrow> as) (xr_Now req),
      xs_Retract = retractions lib (case xn_Retractions body of None \<Rightarrow> [] | Some rs \<Rightarrow> rs) req\<rparr>"

subsection \<open>The extraction\<close>

definition budget :: "'s LLM \<Rightarrow> Episode list \<Rightarrow> err option" where
  "budget x eps =
     reject_if (int (sum_list (map (\<lambda>ep. length (ep_Content ep)) eps)) > op_MaxPromptBytes (x_opts x)) ErrPromptTooLarge"

definition lowerSet :: "golib \<Rightarrow> string list \<Rightarrow> string set" where
  "lowerSet lib vs = set (map (\<lambda>v. gl_ToLower lib (TrimSpace v)) vs)"

definition narrow :: "golib \<Rightarrow> 's LLM \<Rightarrow> ExtractRequest \<Rightarrow> 's \<Rightarrow> err + Fact list" where
  "narrow lib x req s =
     (case cm_Complete (x_completer x)
             \<lparr>pr_System = x_topics x, pr_User = renderNow lib (xr_Now req) @ renderEpisodes lib (xr_Episodes req), pr_Schema = x_topicsSchema x\<rparr> s of
        Inl e \<Rightarrow> Inl e | Inr raw \<Rightarrow>
      case decode (gl_topics lib) raw of Inl e \<Rightarrow> Inl e | Inr body \<Rightarrow>
      if \<not> topics_answered body then Inl ErrMalformedResponse
      else let named = (case tp_Subjects body of None \<Rightarrow> [] | Some vs \<Rightarrow> vs);
               related = (case tp_Predicates body of None \<Rightarrow> [] | Some vs \<Rightarrow> vs)
           in if length named = 0 \<and> length related = 0 then Inr (xr_Known req)
              else Inr (filter (\<lambda>f. gl_ToLower lib (f_Subject f) \<in> lowerSet lib named
                     \<or> gl_ToLower lib (f_Predicate f) \<in> lowerSet lib related) (xr_Known req)))"

definition extract_call :: "golib \<Rightarrow> 's LLM \<Rightarrow> ExtractRequest \<Rightarrow> Fact list \<Rightarrow> 's \<Rightarrow> err + ExtractResult" where
  "extract_call lib x req known s =
     (case cm_Complete (x_completer x)
             \<lparr>pr_System = x_system x, pr_User = renderNow lib (xr_Now req) @ renderKnown lib known @ renderEpisodes lib (xr_Episodes req),
              pr_Schema = x_schema x\<rparr> s of
        Inl e \<Rightarrow> Inl e | Inr raw \<Rightarrow>
      case decode (gl_extraction lib) raw of Inl e \<Rightarrow> Inl e | Inr body \<Rightarrow>
      if \<not> extraction_answered body then Inl ErrMalformedResponse
      else Inr (validate_reply lib x body req))"

definition Extract :: "golib \<Rightarrow> 's LLM \<Rightarrow> ExtractRequest \<Rightarrow> 's \<Rightarrow> err + ExtractResult" where
  "Extract lib x req s =
     (if length (xr_Episodes req) = 0 then Inr \<lparr>xs_Assert = [], xs_Retract = []\<rparr>
      else case budget x (xr_Episodes req) of Some e \<Rightarrow> Inl e | None \<Rightarrow>
      case (if op_Reconcile (x_opts x) \<and> length (xr_Known req) > 0 then narrow lib x req s else Inr (xr_Known req)) of
        Inl e \<Rightarrow> Inl e | Inr known \<Rightarrow> extract_call lib x req known s)"

text \<open>The port of the memory that this extractor fills.\<close>

definition llm_extractor :: "golib \<Rightarrow> 's LLM \<Rightarrow> 's Extractor" where
  "llm_extractor lib x = \<lparr>ex_Extract = Extract lib x, ex_Model = x_id x\<rparr>"

subsection \<open>What is kept\<close>

lemma keep_until_eq:
  "keep_until cap f raws out = (if cap \<le> length out then out
     else take cap (out @ concat (map (\<lambda>raw. case f raw of Inl _ \<Rightarrow> [] | Inr a \<Rightarrow> [a]) raws)))"
  by (induction cap f raws out rule: keep_until.induct) (auto simp: take_Cons' split: sum.splits)

lemma keep_until_props:
  assumes "length out \<le> cap"
  shows "length (keep_until cap f raws out) \<le> cap"
    "\<forall>a \<in> set (keep_until cap f raws out). a \<in> set out \<or> (\<exists>raw \<in> set raws. f raw = Inr a)"
  using assms by (auto simp: keep_until_eq split: sum.splits dest!: in_set_takeD) metis

lemma set_compact [simp]: "set (compact xs) = set xs"
  by (induction xs rule: compact.induct) auto

lemma compact_hd: "xs \<noteq> [] \<Longrightarrow> compact xs \<noteq> [] \<and> hd (compact xs) = hd xs"
  by (induction xs rule: compact.induct) auto

lemma compact_strict:
  assumes "sorted_wrt (\<le>) (xs :: 'a :: linorder list)"
  shows "sorted_wrt (<) (compact xs)"
  using assms
proof (induction xs rule: compact.induct)
  case (1 x y zs)
  then have "\<forall>z \<in> set (compact (y # zs)). x \<le> z" "x = y \<or> x < y" by auto
  moreover have "\<forall>z \<in> set zs. y \<le> z" using 1(3) by auto
  ultimately show ?case using 1 by fastforce
qed auto

text \<open>Two spellings of one vocabulary are one extractor.\<close>

lemma vocabulary_is_a_set:
  fixes ps qs :: "Predicate list"
  assumes "set ps = set qs"
  shows "compact (sort_by (\<le>) ps) = compact (sort_by (\<le>) qs)"
proof -
  have "sorted_wrt (<) (compact (sort_by (\<le>) xs))" for xs :: "string list"
    by (rule compact_strict) (rule total_preorder.sorted_sort_by[OF total_preorder_linorder])
  then show ?thesis using assms by (intro strict_sorted_equal) (simp_all add: strict_sorted_iff)
qed

lemma assertion_Inr:
  assumes "assertion lib x raw now = Inr a"
  shows "Assertion_Validate a = None" "x_predicates x = Some ps \<Longrightarrow> a_Predicate a \<in> ps"
  using assms by (auto simp: assertion_def Let_def split: option.splits sum.splits if_splits)

lemma retraction_Inr:
  assumes "retraction lib known raw now = Inr r"
  shows "Retraction_Validate r = None" "\<exists>f. known (r_Fact r) = Some f \<and> \<not> Before (r_At r) (v_From (f_Valid f))"
  using assms by (auto simp: retraction_def Let_def split: option.splits sum.splits if_splits)

lemma known_facts_Some: "known_facts fs i = Some f \<Longrightarrow> f \<in> set fs \<and> f_ID f = i"
  by (auto simp: known_facts_def dest!: map_of_SomeD)

lemma Extract_New_Inr:
  assumes "Extract_New lib (Some c) opts = Inr x"
  shows "x_completer x = c" "x_opts x = resolve_options opts" "x_id x = extractor_id lib (cm_Model c) (resolve_options opts)"
    "x_predicates x = (if op_Predicates opts = [] then None else Some (set (op_Predicates opts)))"
    "1 \<le> op_MaxAssertions (x_opts x)" "op_MaxAssertions (x_opts x) \<le> int MaxAssertionsPerExtraction"
    "cm_Model c \<noteq> ''''" "length (x_id x) \<le> MaxExtractorLen" "\<forall>p \<in> set (op_Predicates opts). Predicate_Validate p = None"
proof -
  have ne: "compact (sort_by (\<le>) (op_Predicates opts)) = [] \<longleftrightarrow> op_Predicates opts = []"
    by (metis set_compact set_sort_by set_empty)
  show "x_completer x = c" "x_opts x = resolve_options opts" "x_id x = extractor_id lib (cm_Model c) (resolve_options opts)"
    "x_predicates x = (if op_Predicates opts = [] then None else Some (set (op_Predicates opts)))"
    "1 \<le> op_MaxAssertions (x_opts x)" "op_MaxAssertions (x_opts x) \<le> int MaxAssertionsPerExtraction"
    "cm_Model c \<noteq> ''''" "length (x_id x) \<le> MaxExtractorLen" "\<forall>p \<in> set (op_Predicates opts). Predicate_Validate p = None"
    using assms ne
    by (auto simp: Extract_New_def Let_def resolve_options_def DefaultMaxAssertions_def limit_defs split: if_splits option.splits sum.splits)
qed

lemma reply_keep:
  "assertions lib x raws now = keep_until (nat (op_MaxAssertions (x_opts x))) (\<lambda>raw. assertion lib x raw now) raws []"
  "retractions lib raws' req = keep_until MaxRetractionsPerExtraction (\<lambda>raw. retraction lib (known_facts (xr_Known req)) raw (xr_Now req)) raws' []"
  by (auto simp: assertions_def retractions_def)

lemma validate_reply_props:
  "length (xs_Assert (validate_reply lib x body req)) \<le> nat (op_MaxAssertions (x_opts x))"
  "length (xs_Retract (validate_reply lib x body req)) \<le> MaxRetractionsPerExtraction"
  "a \<in> set (xs_Assert (validate_reply lib x body req)) \<Longrightarrow> \<exists>raw. assertion lib x raw (xr_Now req) = Inr a"
  "r \<in> set (xs_Retract (validate_reply lib x body req)) \<Longrightarrow> \<exists>raw. retraction lib (known_facts (xr_Known req)) raw (xr_Now req) = Inr r"
  unfolding validate_reply_def reply_keep ExtractResult.simps
  by (rule keep_until_props(1), simp, rule keep_until_props(1), simp) (drule bspec[OF keep_until_props(2), rotated], simp, force)+

lemma Extract_Inr:
  assumes "Extract lib x req s = Inr out"
  obtains "out = \<lparr>xs_Assert = [], xs_Retract = []\<rparr>" | body where "out = validate_reply lib x body req"
  using assms by (auto simp: Extract_def extract_call_def split: if_splits option.splits sum.splits)

lemma Extract_props:
  assumes "Extract lib x req s = Inr out"
  shows "length (xs_Assert out) \<le> nat (op_MaxAssertions (x_opts x))" "length (xs_Retract out) \<le> MaxRetractionsPerExtraction"
    "\<forall>a \<in> set (xs_Assert out). \<exists>raw. assertion lib x raw (xr_Now req) = Inr a"
    "\<forall>r \<in> set (xs_Retract out). \<exists>raw. retraction lib (known_facts (xr_Known req)) raw (xr_Now req) = Inr r"
proof -
  have "length (xs_Assert out) \<le> nat (op_MaxAssertions (x_opts x)) \<and> length (xs_Retract out) \<le> MaxRetractionsPerExtraction
    \<and> (\<forall>a \<in> set (xs_Assert out). \<exists>raw. assertion lib x raw (xr_Now req) = Inr a)
    \<and> (\<forall>r \<in> set (xs_Retract out). \<exists>raw. retraction lib (known_facts (xr_Known req)) raw (xr_Now req) = Inr r)"
    using assms
  proof (cases rule: Extract_Inr)
    case (2 body)
    show ?thesis unfolding 2 by (intro conjI ballI validate_reply_props)
  qed simp
  then show "length (xs_Assert out) \<le> nat (op_MaxAssertions (x_opts x))" "length (xs_Retract out) \<le> MaxRetractionsPerExtraction"
    "\<forall>a \<in> set (xs_Assert out). \<exists>raw. assertion lib x raw (xr_Now req) = Inr a"
    "\<forall>r \<in> set (xs_Retract out). \<exists>raw. retraction lib (known_facts (xr_Known req)) raw (xr_Now req) = Inr r" by blast+
qed

subsection \<open>The fingerprint\<close>

lemma digits_split:
  assumes "\<forall>c \<in> set a. isDigit c" "\<forall>c \<in> set b. isDigit c" "a @ CHR '':'' # s = b @ CHR '':'' # t"
  shows "a = b \<and> s = t"
  using assms
proof (induction a arbitrary: b)
  case Nil
  then show ?case using isDigit_neq(1)[of "CHR '':''"] by (cases b) auto
next
  case (Cons c a)
  then show ?case using isDigit_neq(1)[of "CHR '':''"] by (cases b) auto
qed

lemma digest_write_inject:
  "digest_write key u @ s = digest_write key v @ t \<longleftrightarrow> u = v \<and> s = t"
proof
  assume "digest_write key u @ s = digest_write key v @ t"
  then have eq: "show_nat (length u) @ CHR '':'' # u @ CHR 0x0A # s = show_nat (length v) @ CHR '':'' # v @ CHR 0x0A # t"
    by (simp add: digest_write_def)
  note sp = digits_split[OF show_nat_digits show_nat_digits eq]
  then have "length u = length v" by (simp add: show_nat_inject)
  then show "u = v \<and> s = t" using sp by simp
qed simp

lemma digest_write_nonempty [simp]: "digest_write key u \<noteq> []"
  by (simp add: digest_write_def)

lemma digest_writes_inject:
  "concat (map (digest_write key) us) = concat (map (digest_write key) vs) \<Longrightarrow> us = vs"
proof (induction us arbitrary: vs)
  case Nil
  then show ?case by (cases vs) auto
next
  case (Cons u us)
  then show ?case by (cases vs) (auto simp: digest_write_inject)
qed

lemma FormatBool_inject: "FormatBool a = FormatBool b \<longleftrightarrow> a = b"
  by (simp add: FormatBool_def)

subsection \<open>Properties\<close>

text \<open>
  C17. Whatever a model replies, what \<open>Extract\<close> returns is what a fact store accepts: at most the configured number of
  assertions, each valid and, where a vocabulary is configured, inside it; at most 64 retractions, each
  of a fact the worker supplied, at an instant not before it began. So the command a worker builds
  from it, for a valid scope, a real time and real episodes, passes \<open>ExtractCommand.Validate\<close>.
\<close>

theorem Extract_accepted:
  assumes new: "Extract_New lib (Some c) opts = Inr x" and run: "Extract lib x req s = Inr out"
  shows "length (xs_Assert out) \<le> nat (if op_MaxAssertions opts = 0 then DefaultMaxAssertions else op_MaxAssertions opts)
    \<and> length (xs_Retract out) \<le> MaxRetractionsPerExtraction
    \<and> (\<forall>a \<in> set (xs_Assert out). Assertion_Validate a = None \<and> (op_Predicates opts = [] \<or> a_Predicate a \<in> set (op_Predicates opts)))
    \<and> (\<forall>r \<in> set (xs_Retract out). Retraction_Validate r = None
          \<and> (\<exists>f \<in> set (xr_Known req). f_ID f = r_Fact r \<and> \<not> Before (r_At r) (v_From (f_Valid f))))
    \<and> (ScopeID_Validate scope = None \<longrightarrow> eps \<noteq> [] \<longrightarrow> 0 \<notin> set eps \<longrightarrow> \<not> IsZero t \<longrightarrow>
        ExtractCommand_Validate \<lparr>xc_Scope = scope, xc_Extractor = x_id x, xc_Episodes = eps, xc_Assert = xs_Assert out,
          xc_Retract = xs_Retract out, xc_At = t\<rparr> = None)"
proof -
  note N = Extract_New_Inr[OF new]
  let ?cap = "nat (op_MaxAssertions (x_opts x))"
  note as = Extract_props(1,3)[OF run] and rs = Extract_props(2,4)[OF run]
  have A: "\<forall>a \<in> set (xs_Assert out). Assertion_Validate a = None \<and> (op_Predicates opts = [] \<or> a_Predicate a \<in> set (op_Predicates opts))"
    using as(2) assertion_Inr N(4) by (metis (no_types, lifting))
  have R: "\<forall>r \<in> set (xs_Retract out). Retraction_Validate r = None
      \<and> (\<exists>f \<in> set (xr_Known req). f_ID f = r_Fact r \<and> \<not> Before (r_At r) (v_From (f_Valid f)))"
    using rs(2) retraction_Inr known_facts_Some by metis
  have cap: "?cap = nat (if op_MaxAssertions opts = 0 then DefaultMaxAssertions else op_MaxAssertions opts)" by (simp add: N(2) resolve_options_def)
  have "x_id x \<noteq> ''''" by (simp add: N(3) extractor_id_def)
  moreover have "length (xs_Assert out) \<le> MaxAssertionsPerExtraction" using as(1) N(6) by linarith
  ultimately have "ScopeID_Validate scope = None \<longrightarrow> eps \<noteq> [] \<longrightarrow> 0 \<notin> set eps \<longrightarrow> \<not> IsZero t \<longrightarrow>
        ExtractCommand_Validate \<lparr>xc_Scope = scope, xc_Extractor = x_id x, xc_Episodes = eps, xc_Assert = xs_Assert out,
          xc_Retract = xs_Retract out, xc_At = t\<rparr> = None"
    using rs(1) A R by (auto simp: ExtractCommand_Validate_def id_IsZero_def)
  then show ?thesis using as(1) rs(1) A R unfolding cap by blast
qed

text \<open>
  A rejected item costs the others nothing: the assertions returned are the acceptable ones of the reply, in its
  order, up to the configured cap, and the retractions likewise; which facts a first pass chose to show the
  model makes no difference to which retractions are accepted.
\<close>

theorem dropped_items_cost_nothing:
  "xs_Assert (validate_reply lib x body req) = take (nat (op_MaxAssertions (x_opts x)))
     (concat (map (\<lambda>raw. case assertion lib x raw (xr_Now req) of Inl _ \<Rightarrow> [] | Inr a \<Rightarrow> [a]) (case xn_Assertions body of None \<Rightarrow> [] | Some as \<Rightarrow> as)))
   \<and> xs_Retract (validate_reply lib x body req) = take MaxRetractionsPerExtraction
     (concat (map (\<lambda>raw. case retraction lib (known_facts (xr_Known req)) raw (xr_Now req) of Inl _ \<Rightarrow> [] | Inr r \<Rightarrow> [r])
        (case xn_Retractions body of None \<Rightarrow> [] | Some rs \<Rightarrow> rs)))"
  by (simp add: validate_reply_def reply_keep keep_until_eq)

text \<open>
  C33. The fingerprint in the extractor id is taken over a text that determines the configuration: two option values
  write the same text exactly when their instructions, assertion cap, reconcile flag and vocabulary are
  equal, whatever separators the instructions or the predicates contain.
\<close>

theorem digest_input_determines_options:
  "digest_input o1 = digest_input o2 \<longleftrightarrow>
     (op_Instructions o1, op_MaxAssertions o1, op_Reconcile o1, op_Predicates o1) =
     (op_Instructions o2, op_MaxAssertions o2, op_Reconcile o2, op_Predicates o2)"
  unfolding digest_input_def digest_write_inject by (auto simp: Itoa_inject FormatBool_inject dest: digest_writes_inject)

text \<open>
  Dates and timestamps are read back as they were written: a date is midnight of that day where the injected instant
  is, and a UTC timestamp is that instant whatever the injected one, for every civil date from the year 0
  to 9999.
\<close>

theorem parse_instant_round_trip:
  assumes "civil y m d" "hh < 24" "mi < 60" "sec < 60"
  shows "parse_instant lib (print_date y m d) now = Inr (Time (gl_midnight lib (location now) (day_number y m d)) (location now))
    \<and> parse_instant lib (print_UTC y m d hh mi sec) now =
        Inr (Time (day_number y m d * Day + int hh * Hour + int mi * Minute + int sec * Second) 0)"
proof -
  have "print_date y m d \<noteq> []" "print_UTC y m d hh mi sec \<noteq> []" by (simp_all add: print_date_def print_UTC_def two_def)
  then show ?thesis
    by (simp add: parse_instant_def TrimSpace_print[OF assms(1)] parse_RFC3339_date[OF assms(1)] parse_DateOnly_print[OF assms(1)]
        parse_RFC3339_print[OF assms])
qed

text \<open>
  How an extraction fails: with no episodes it answers with nothing and asks no model; with more content than the
  configured limit it is refused as a whole and nothing is sent; otherwise it fails only with an error of the model
  call itself, or because a reply was not JSON of the shape asked for.
\<close>

theorem Extract_errors:
  "(xr_Episodes req = [] \<longrightarrow> Extract lib x req s = Inr \<lparr>xs_Assert = [], xs_Retract = []\<rparr>)
   \<and> (let large = op_MaxPromptBytes (x_opts x) < int (sum_list (map (\<lambda>ep. length (ep_Content ep)) (xr_Episodes req))) in
      (xr_Episodes req \<noteq> [] \<and> large \<longrightarrow> Extract lib x req s = Inl ErrPromptTooLarge)
    \<and> (\<not> large \<and> Extract lib x req s = Inl e \<longrightarrow>
         Is e ErrMalformedResponse \<or> (\<exists>p. cm_Complete (x_completer x) p s = Inl e)))"
proof -
  have n: "Is e ErrMalformedResponse \<or> (\<exists>p. cm_Complete (x_completer x) p s = Inl e)" if "narrow lib x req s = Inl e" for e
    using that by (auto simp: narrow_def decode_def Let_def split: sum.splits option.splits if_splits)
  have c: "Is e ErrMalformedResponse \<or> (\<exists>p. cm_Complete (x_completer x) p s = Inl e)" if "extract_call lib x req known s = Inl e" for e known
    using that by (auto simp: extract_call_def decode_def split: sum.splits option.splits if_splits)
  show ?thesis
    using n c by (auto simp: Extract_def budget_def Let_def split: sum.splits option.splits if_splits)
qed


subsection \<open>A concrete extractor\<close>

definition sample_lib :: golib where
  "sample_lib =
     \<lparr>gl_extraction = \<lambda>raw. if raw = ''?'' then None else Some \<lparr>xn_Assertions = Some [\<lparr>ja_Subject = ''user'', ja_Predicate = ''lives_in'', ja_Object = ''Paris'',
          ja_Statement = ''Lives in Paris.'', ja_ValidFrom = ''2024-02-29'', ja_ValidTo = '''', ja_Confidence = Some 1\<rparr>],
        xn_Retractions = Some [\<lparr>jx_FactID = ''3'', jx_At = ''2024-02-29''\<rparr>]\<rparr>,
      gl_topics = \<lambda>_. None, gl_Marshal = \<lambda>_. Some ''{}'', gl_sha256 = \<lambda>_. ''0123456789'', gl_float32 = Fin, gl_ToLower = \<lambda>s. s,
      gl_midnight = \<lambda>_ day. day * Day, gl_zone = \<lambda>_ _. 0, gl_Format = \<lambda>_. '''', gl_Quote = \<lambda>s. s, gl_fixed2 = \<lambda>_. '''',
      gl_uuid_Parse = \<lambda>s. if s = ''3'' then Some 3 else None, gl_uuid_String = \<lambda>_. ''3''\<rparr>"

definition sample_options :: Options where
  "sample_options = \<lparr>op_Predicates = [], op_Instructions = '''', op_MaxAssertions = 4, op_Reconcile = False, op_MaxPromptBytes = 10\<rparr>"

definition sample_completer :: "string \<Rightarrow> 's Completer" where
  "sample_completer reply = \<lparr>cm_Complete = \<lambda>_ _. Inr reply, cm_Model = ''m''\<rparr>"

definition sample_llm :: "string \<Rightarrow> unit LLM" where
  "sample_llm reply = projr (Extract_New sample_lib (Some (sample_completer reply)) sample_options)"

definition sample_request :: "string \<Rightarrow> ExtractRequest" where
  "sample_request content = \<lparr>xr_Scope = ''user:1'', xr_Episodes = [(episode_of sample_row)\<lparr>ep_Content := content\<rparr>],
     xr_Known = [scanFact (sample_fact\<lparr>fw_lower := 738944 * Day\<rparr>)], xr_Now = Time 5 0\<rparr>"

lemma sample_llm: "Extract_New sample_lib (Some (sample_completer reply)) sample_options = Inr (sample_llm reply)"
proof -
  have "\<exists>x. Extract_New sample_lib (Some (sample_completer reply)) sample_options = Inr (x :: unit LLM)"
    by (simp add: Extract_New_def sample_options_def resolve_options_def sample_completer_def sample_lib_def marshal_def Let_def limit_defs
        extractor_id_def digest_def PromptVersion_def Itoa_def show_nat.simps)
  then show ?thesis by (auto simp: sample_llm_def)
qed

lemma sample_date: "parse_instant sample_lib ''2024-02-29'' now = Inr (Time (738944 * Day) (location now))"
proof -
  have c: "civil 2024 2 29" by code_simp
  have "print_date 2024 2 29 = ''2024-02-29''" by code_simp
  moreover have "day_number 2024 2 29 = 738944" by code_simp
  ultimately show ?thesis
    using TrimSpace_print(1)[OF c] parse_RFC3339_date[OF c] parse_DateOnly_print[OF c] by (simp add: parse_instant_def sample_lib_def)
qed

theorem parse_instant_round_trip_witness:
  "parse_instant sample_lib (print_date 2024 2 29) (Time 5 3) = Inr (Time (738944 * Day) 3)
    \<and> parse_instant sample_lib (print_UTC 2024 2 29 8 30 5) (Time 5 3) = Inr (Time (738944 * Day + 8 * Hour + 30 * Minute + 5 * Second) 0)"
proof -
  have "civil 2024 2 29" "day_number 2024 2 29 = 738944" by code_simp+
  then show ?thesis
    using parse_instant_round_trip[of 2024 2 29 8 30 5 sample_lib "Time 5 3"] by (simp add: sample_lib_def)
qed

lemma sample_lib_sel:
  "gl_float32 sample_lib = Fin" "gl_uuid_Parse sample_lib ''3'' = Some 3" "gl_extraction sample_lib ''?'' = None"
  "raw \<noteq> ''?'' \<Longrightarrow> gl_extraction sample_lib raw = Some \<lparr>xn_Assertions = Some [\<lparr>ja_Subject = ''user'', ja_Predicate = ''lives_in'', ja_Object = ''Paris'',
      ja_Statement = ''Lives in Paris.'', ja_ValidFrom = ''2024-02-29'', ja_ValidTo = '''', ja_Confidence = Some 1\<rparr>],
    xn_Retractions = Some [\<lparr>jx_FactID = ''3'', jx_At = ''2024-02-29''\<rparr>]\<rparr>"
  by (simp_all add: sample_lib_def)

lemma sample_extract_call:
  "Extract sample_lib (sample_llm reply) (sample_request content) () =
     (if 10 < length content then Inl ErrPromptTooLarge
      else if reply = ''?'' then Inl (Join [Foreign ''json'', ErrMalformedResponse])
      else Inr \<lparr>xs_Assert = [sample_assertion\<lparr>a_Valid := \<lparr>v_From = Time (738944 * Day) 0, v_To = zero_time\<rparr>\<rparr>],
                xs_Retract = [\<lparr>r_Fact = 3, r_At = Time (738944 * Day) 0\<rparr>]\<rparr>)"
proof -
  note N = Extract_New_Inr[OF sample_llm[of reply]]
  let ?a = "\<lparr>ja_Subject = ''user'', ja_Predicate = ''lives_in'', ja_Object = ''Paris'', ja_Statement = ''Lives in Paris.'',
    ja_ValidFrom = ''2024-02-29'', ja_ValidTo = '''', ja_Confidence = Some 1\<rparr>"
  have as: "assertion sample_lib (sample_llm reply) ?a (Time 5 0) = Inr (sample_assertion\<lparr>a_Valid := \<lparr>v_From = Time (738944 * Day) 0, v_To = zero_time\<rparr>\<rparr>)"
    using N(4) by (simp add: assertion_def sample_date TrimSpace_id IsSpace_def sample_options_def sample_lib_sel sample_assertion_def Assertion_Validate_def
        Subject_Validate_def Predicate_Validate_def limit_defs outside_unit_def Validity_Validate_def window_defs Day_def Hour_def Minute_def Second_def ascii_simps)
  have rs: "retraction sample_lib (known_facts (xr_Known (sample_request content))) \<lparr>jx_FactID = ''3'', jx_At = ''2024-02-29''\<rparr> (Time 5 0) =
      Inr \<lparr>r_Fact = 3, r_At = Time (738944 * Day) 0\<rparr>"
    by (simp add: retraction_def ParseFactID_def TrimSpace_id IsSpace_def sample_date known_facts_def sample_request_def scanFact_def sample_fact_def assert_row_def
        toValidity_def sample_lib_sel Before_def Retraction_Validate_def id_IsZero_def IsZero_def Day_def Hour_def Minute_def Second_def)
  show ?thesis
    using N(1,2) as rs
    by (simp add: Extract_def budget_def sample_request_def resolve_options_def sample_options_def extract_call_def decode_def extraction_answered_def
        validate_reply_def reply_keep sample_completer_def sample_lib_sel limit_defs)
qed

theorem Extract_accepted_witness:
  "\<exists>out. Extract sample_lib (sample_llm ''{}'') (sample_request ''hello'') () = Inr out \<and> length (xs_Assert out) = 1
    \<and> (\<forall>a \<in> set (xs_Assert out). Assertion_Validate a = None) \<and> (\<forall>r \<in> set (xs_Retract out). Retraction_Validate r = None)
    \<and> ExtractCommand_Validate \<lparr>xc_Scope = ''user:1'', xc_Extractor = x_id (sample_llm ''{}''), xc_Episodes = [1], xc_Assert = xs_Assert out,
          xc_Retract = xs_Retract out, xc_At = Time 9 0\<rparr> = None"
proof -
  obtain out where run: "Extract sample_lib (sample_llm ''{}'') (sample_request ''hello'') () = Inr out" and l: "length (xs_Assert out) = 1"
    by (simp add: sample_extract_call)
  have sc: "ScopeID_Validate ''user:1'' = None" by (simp add: ScopeID_Validate_def limit_defs ascii_simps)
  show ?thesis using Extract_accepted[OF sample_llm run, of "''user:1''" "[1]" "Time 9 0"] run l sc by (auto simp: IsZero_def)
qed

theorem Extract_errors_witness:
  "Extract sample_lib (sample_llm ''{}'') (sample_request ''hello, world'') () = Inl ErrPromptTooLarge
    \<and> (\<exists>e. Extract sample_lib (sample_llm ''?'') (sample_request ''hello'') () = Inl e \<and>
          (Is e ErrMalformedResponse \<or> (\<exists>p. cm_Complete (x_completer (sample_llm ''?'')) p () = Inl e)))"
proof
  have b: "op_MaxPromptBytes (x_opts (sample_llm r)) = 10" for r
    by (simp add: Extract_New_Inr(2)[OF sample_llm] resolve_options_def sample_options_def)
  show "Extract sample_lib (sample_llm ''{}'') (sample_request ''hello, world'') () = Inl ErrPromptTooLarge"
    using Extract_errors[of "sample_request ''hello, world''" sample_lib "sample_llm ''{}''" "()"] b by (simp add: sample_request_def Let_def)
  obtain e where e: "Extract sample_lib (sample_llm ''?'') (sample_request ''hello'') () = Inl e" by (simp add: sample_extract_call)
  then show "\<exists>e. Extract sample_lib (sample_llm ''?'') (sample_request ''hello'') () = Inl e \<and>
          (Is e ErrMalformedResponse \<or> (\<exists>p. cm_Complete (x_completer (sample_llm ''?'')) p () = Inl e))"
    using Extract_errors[of "sample_request ''hello''" sample_lib "sample_llm ''?''" "()" e] b by (auto simp: sample_request_def Let_def)
qed


end
