(* ===== verification/Migrations.thy ===== *)
theory Migrations
  imports Schema Go_Time Ports
begin

section \<open>Migrations, and connecting a store\<close>

text \<open>
  \<^verbatim>\<open>postgres/migrations.go\<close>, \<^verbatim>\<open>postgres/migrate.go\<close>, \<^verbatim>\<open>postgres/inspect.go\<close> and the constructor of
  \<^verbatim>\<open>postgres/store.go\<close>. A \<open>cluster\<close> is what the code reads and writes of a database: the server
  version, the installed extensions, the text search configurations, the migration ledger and the
  recorded schema options (\<open>None\<close>: the table does not exist), and everything else as \<open>'d\<close>.

  Parameters stand for what is outside the repository: \<open>files\<close> is the embedded directory, \<open>sha256\<close> and
  \<open>tmpl\<close> the hash and the template engine of Go's library, \<open>run\<close> the server executing one rendered
  migration under a search path, and a \<open>lock_env\<close> the answers of the server, the clock and the context
  while the advisory lock is polled.
\<close>

subsection \<open>Inspecting the server\<close>

definition MinServerVersionNum :: int where "MinServerVersionNum = 180000"
definition requiredExtensions :: "string list" where "requiredExtensions = [''vector'', ''btree_gin'', ''btree_gist'']"

record serverInfo =
  si_versionNum :: int
  si_extensionSchema :: string
  si_vectorVersion :: string
  si_missing :: "string list"

record appliedMigration =
  am_version :: nat
  am_name :: string
  am_checksum :: string

record 'd cluster =
  c_versionNum :: int
  c_extensions :: "(string \<times> string \<times> string) list"
  c_tsconfigs :: "string list"
  c_ledger :: "appliedMigration list option"
  c_config :: "(int \<times> string) option option"
  c_rest :: 'd

fun split_once :: "char \<Rightarrow> string \<Rightarrow> (string \<times> string) option" where
  "split_once c [] = None"
| "split_once c (x # s) = (if x = c then Some ([], s) else map_option (\<lambda>(a, b). (x # a, b)) (split_once c s))"

text \<open>\<^verbatim>\<open>strings.SplitN(s, ".", 3)\<close>.\<close>

definition SplitN3 :: "string \<Rightarrow> string list" where
  "SplitN3 s = (case split_once CHR ''.'' s of None \<Rightarrow> [s] | Some (a, r) \<Rightarrow>
     case split_once CHR ''.'' r of None \<Rightarrow> [a, r] | Some (b, r') \<Rightarrow> [a, b, r'])"

definition Atoi :: "string \<Rightarrow> int option" where
  "Atoi s =
     (let neg = (s \<noteq> [] \<and> hd s = CHR ''-''); body = (if s \<noteq> [] \<and> (hd s = CHR ''-'' \<or> hd s = CHR ''+'') then tl s else s) in
      case atoi body of None \<Rightarrow> None
      | Some n \<Rightarrow> let k = (if neg then - int n else int n) in if - (2 ^ 63) \<le> k \<and> k < 2 ^ 63 then Some k else None)"

definition parseVersion :: "string \<Rightarrow> (int \<times> int) option" where
  "parseVersion version =
     (let parts = SplitN3 version in
      if length parts < 2 then None
      else case Atoi (parts ! 0) of None \<Rightarrow> None | Some major \<Rightarrow>
           case Atoi (parts ! 1) of None \<Rightarrow> None | Some minor \<Rightarrow> Some (major, minor))"

definition checkVectorVersion :: "serverInfo \<Rightarrow> err option" where
  "checkVectorVersion info =
     (case parseVersion (si_vectorVersion info) of None \<Rightarrow> Some ErrUnsupportedExtension
      | Some (major, minor) \<Rightarrow> reject_if (major = 0 \<and> minor < 8) ErrUnsupportedExtension)"

definition inspect :: "'d cluster \<Rightarrow> serverInfo" where
  "inspect cl =
     (let rows = filter (\<lambda>(name, _). name \<in> set requiredExtensions) (c_extensions cl);
          installed = map_of (rev (map (\<lambda>(name, schema, _). (name, schema)) rows));
          versions = map_of (rev (map (\<lambda>(name, _, version). (name, version)) rows))
      in \<lparr>si_versionNum = c_versionNum cl,
          si_extensionSchema = (case installed ''vector'' of None \<Rightarrow> '''' | Some s \<Rightarrow> s),
          si_vectorVersion = (case versions ''vector'' of None \<Rightarrow> '''' | Some v \<Rightarrow> v),
          si_missing = filter (\<lambda>name. installed name = None) requiredExtensions\<rparr>)"

definition checkVersion :: "serverInfo \<Rightarrow> err option" where
  "checkVersion info = reject_if (si_versionNum info < MinServerVersionNum) ErrUnsupportedServer"

definition ident_start :: "char \<Rightarrow> bool" where
  "ident_start c \<longleftrightarrow> CHR ''a'' \<le> c \<and> c \<le> CHR ''z'' \<or> c = CHR ''_''"

definition ident_char :: "char \<Rightarrow> bool" where
  "ident_char c \<longleftrightarrow> ident_start c \<or> isDigit c \<or> c = CHR ''$''"

definition identifierPattern :: "string \<Rightarrow> bool" where
  "identifierPattern s = (case s of [] \<Rightarrow> False | c # r \<Rightarrow> ident_start c \<and> length r \<le> 62 \<and> list_all ident_char r)"

definition validateIdentifier :: "string \<Rightarrow> err option" where
  "validateIdentifier name = reject_if (name = '''' \<or> \<not> identifierPattern name) (Foreign ''identifier'')"

definition quoteIdentifier :: "string \<Rightarrow> string" where
  "quoteIdentifier name = [CHR 0x22] @ concat (map (\<lambda>c. if c = CHR 0x22 then [CHR 0x22, CHR 0x22] else [c]) name) @ [CHR 0x22]"

subsection \<open>The embedded migrations\<close>

record embedded_file =
  ef_name :: string
  ef_dir :: bool
  ef_source :: string

record migration =
  mg_version :: nat
  mg_name :: string
  mg_source :: string
  mg_checksum :: string

definition name_char :: "char \<Rightarrow> bool" where
  "name_char c \<longleftrightarrow> CHR ''a'' \<le> c \<and> c \<le> CHR ''z'' \<or> isDigit c \<or> c = CHR ''_''"

text \<open>\<^verbatim>\<open>^(\d{4})_([a-z0-9_]+)\.sql$\<close>: the two groups.\<close>

definition migrationNamePattern :: "string \<Rightarrow> (string \<times> string) option" where
  "migrationNamePattern s =
     (let n = length s; name = take (n - 9) (drop 5 s) in
      if 10 \<le> n \<and> list_all isDigit (take 4 s) \<and> s ! 4 = CHR ''_'' \<and> list_all name_char name \<and> drop (n - 4) s = ''.sql''
      then Some (take 4 s, name) else None)"

definition pad4 :: "nat \<Rightarrow> string" where
  "pad4 n = (let s = show_nat n in replicate (4 - length s) CHR ''0'' @ s)"

definition filename :: "migration \<Rightarrow> string" where
  "filename m = pad4 (mg_version m) @ ''_'' @ mg_name m @ ''.sql''"

definition load_entry :: "(string \<Rightarrow> string) \<Rightarrow> embedded_file \<Rightarrow> err + migration" where
  "load_entry sha256 entry =
     (if ef_dir entry then Inl (Foreign ''directory'')
      else case migrationNamePattern (ef_name entry) of None \<Rightarrow> Inl (Foreign ''name'')
      | Some (digits, name) \<Rightarrow>
          (case Atoi digits of None \<Rightarrow> Inl (Foreign ''version'')
           | Some version \<Rightarrow>
               if version < 1 then Inl (Foreign ''version'')
               else Inr \<lparr>mg_version = nat version, mg_name = name, mg_source = ef_source entry, mg_checksum = sha256 (ef_source entry)\<rparr>))"

fun load_entries :: "(string \<Rightarrow> string) \<Rightarrow> embedded_file list \<Rightarrow> nat set \<Rightarrow> err + migration list" where
  "load_entries sha256 [] seen = Inr []"
| "load_entries sha256 (entry # rest) seen =
     (case load_entry sha256 entry of Inl e \<Rightarrow> Inl e | Inr m \<Rightarrow>
      if mg_version m \<in> seen then Inl (Foreign ''duplicate'')
      else case load_entries sha256 rest (insert (mg_version m) seen) of Inl e \<Rightarrow> Inl e | Inr ms \<Rightarrow> Inr (m # ms))"

definition loadMigrations :: "(string \<Rightarrow> string) \<Rightarrow> embedded_file list \<Rightarrow> err + migration list" where
  "loadMigrations sha256 files =
     (case load_entries sha256 files {} of Inl e \<Rightarrow> Inl e | Inr ms \<Rightarrow>
      if length ms = 0 then Inl (Foreign ''empty'')
      else let out = sort_by (le_key mg_version) ms in
           if list_all (\<lambda>(i, m). mg_version m = i + 1) (zip [0..<length out] out) then Inr out else Inl (Foreign ''gap''))"

subsection \<open>Options\<close>

definition schema_name :: string where "schema_name = ''mempher''"
definition DefaultTextSearchConfig :: string where "DefaultTextSearchConfig = ''english''"
definition DefaultExtensionSchema :: string where "DefaultExtensionSchema = ''public''"
definition DefaultMigrateLockTimeout :: int where "DefaultMigrateLockTimeout = Minute"
definition MaxVectorDimensions :: int where "MaxVectorDimensions = 2000"
definition lockPollInterval :: int where "lockPollInterval = 50000000"
definition lockPollMax :: int where "lockPollMax = 500000000"

record MigrateOptions =
  mo_VectorDimensions :: int
  mo_TextSearchConfig :: string
  mo_ExtensionSchema :: string
  mo_LockTimeout :: int

record templateData =
  td_VectorDimensions :: int
  td_TextSearchConfig :: string

definition templateData_of :: "MigrateOptions \<Rightarrow> templateData" where
  "templateData_of opts = \<lparr>td_VectorDimensions = mo_VectorDimensions opts, td_TextSearchConfig = mo_TextSearchConfig opts\<rparr>"

definition config_error :: "err option \<Rightarrow> err option" where
  "config_error c = map_option (\<lambda>e. Join [e, ErrInvalidConfig]) c"

definition MigrateOptions_validate :: "MigrateOptions \<Rightarrow> err + MigrateOptions" where
  "MigrateOptions_validate opts =
     (let out = opts\<lparr>mo_TextSearchConfig := (if mo_TextSearchConfig opts = '''' then DefaultTextSearchConfig else mo_TextSearchConfig opts),
                mo_LockTimeout := (if mo_LockTimeout opts = 0 then DefaultMigrateLockTimeout else mo_LockTimeout opts)\<rparr> in
      case first_err
        [reject_if (mo_VectorDimensions opts \<le> 0) ErrInvalidConfig,
         reject_if (mo_VectorDimensions opts > MaxVectorDimensions) ErrInvalidConfig,
         config_error (validateIdentifier (mo_TextSearchConfig out)),
         if mo_ExtensionSchema opts \<noteq> '''' then config_error (validateIdentifier (mo_ExtensionSchema opts)) else None,
         reject_if (mo_LockTimeout opts < 0) ErrInvalidConfig] of
        Some e \<Rightarrow> Inl e | None \<Rightarrow> Inr out)"

definition resolveExtensionSchema :: "MigrateOptions \<Rightarrow> serverInfo \<Rightarrow> err + MigrateOptions" where
  "resolveExtensionSchema opts info =
     (let resolved =
        (if si_extensionSchema info = '''' then
           Inr (if mo_ExtensionSchema opts = '''' then opts\<lparr>mo_ExtensionSchema := DefaultExtensionSchema\<rparr> else opts)
         else if mo_ExtensionSchema opts = '''' then Inr (opts\<lparr>mo_ExtensionSchema := si_extensionSchema info\<rparr>)
         else if mo_ExtensionSchema opts \<noteq> si_extensionSchema info then Inl ErrSchemaConfigMismatch
         else Inr opts)
      in case resolved of Inl e \<Rightarrow> Inl e | Inr opts' \<Rightarrow>
         (case config_error (validateIdentifier (mo_ExtensionSchema opts')) of Some e \<Rightarrow> Inl e | None \<Rightarrow> Inr opts'))"

definition checkTextSearchConfig :: "'d cluster \<Rightarrow> string \<Rightarrow> err option" where
  "checkTextSearchConfig cl name = reject_if (name \<notin> set (c_tsconfigs cl)) ErrInvalidConfig"

subsection \<open>The advisory lock\<close>

text \<open>The answers while polling: of the server, of the clock at the deadline test, and of the context while waiting.\<close>

record lock_env =
  le_try :: "nat \<Rightarrow> err + bool"
  le_start :: int
  le_now :: "nat \<Rightarrow> int"
  le_ctx :: "nat \<Rightarrow> err option"

fun poll_lock :: "nat \<Rightarrow> lock_env \<Rightarrow> int \<Rightarrow> nat \<Rightarrow> int \<Rightarrow> err option option" where
  "poll_lock 0 env deadline n backoff = None"
| "poll_lock (Suc fuel) env deadline n backoff =
     (case le_try env n of Inl e \<Rightarrow> Some (Some e)
      | Inr True \<Rightarrow> Some None
      | Inr False \<Rightarrow>
          if \<not> le_now env n + backoff < deadline then Some (Some ErrLockTimeout)
          else case le_ctx env n of Some e \<Rightarrow> Some (Some e)
               | None \<Rightarrow> poll_lock fuel env deadline (n + 1) (if backoff < lockPollMax then min (backoff * 2) lockPollMax else backoff))"

definition acquireMigrationLock :: "nat \<Rightarrow> lock_env \<Rightarrow> int \<Rightarrow> err option option" where
  "acquireMigrationLock fuel env timeout = poll_lock fuel env (le_start env + timeout) 0 lockPollInterval"

datatype connection = Released | Discarded

definition finishMigrationSession :: "bool \<Rightarrow> err + bool \<Rightarrow> connection \<times> err option" where
  "finishMigrationSession locked unlock =
     (if \<not> locked then (Released, None)
      else case unlock of
             Inl e \<Rightarrow> (Discarded, Some e)
           | Inr released \<Rightarrow> if \<not> released then (Discarded, Some (Foreign ''lock'')) else (Released, None))"

subsection \<open>Applying\<close>

definition bootstrap :: "'d cluster \<Rightarrow> 'd cluster" where
  "bootstrap cl = (case c_ledger cl of None \<Rightarrow> cl\<lparr>c_ledger := Some []\<rparr> | Some _ \<Rightarrow> cl)"

definition appliedMigrations :: "'d cluster \<Rightarrow> nat \<rightharpoonup> appliedMigration" where
  "appliedMigrations cl = map_of (map (\<lambda>a. (am_version a, a)) (case c_ledger cl of None \<Rightarrow> [] | Some rows \<Rightarrow> rows))"

definition checkHistory :: "migration list \<Rightarrow> appliedMigration list \<Rightarrow> err option" where
  "checkHistory migrations applied = first_err
     (map (\<lambda>a. reject_if (am_version a \<notin> mg_version ` set migrations) ErrDatabaseAhead) (sort_by (le_key am_version) applied)
      @ map (\<lambda>m. case map_of (map (\<lambda>a. (am_version a, a)) applied) (mg_version m) of None \<Rightarrow> None
               | Some a \<Rightarrow> reject_if (am_checksum a \<noteq> mg_checksum m) ErrChecksumMismatch) migrations)"

definition annotateMigrationError :: "err \<Rightarrow> serverInfo \<Rightarrow> err" where
  "annotateMigrationError e info =
     (if e = PgErr ''42501'' \<and> length (si_missing info) > 0 then Join [e, ErrMissingExtension] else e)"

text \<open>What the server does with a rendered migration, under a search path: a new state, or an error and a rollback.\<close>

type_synonym 'd ddl = "string list \<Rightarrow> string \<Rightarrow> 'd cluster \<Rightarrow> err + 'd cluster"

definition record_migration :: "migration \<Rightarrow> 'd cluster \<Rightarrow> err + 'd cluster" where
  "record_migration m cl =
     (case c_ledger cl of None \<Rightarrow> Inl (PgErr pgerrcodeUndefinedTable)
      | Some rows \<Rightarrow>
          if mg_version m \<in> am_version ` set rows then Inl (PgErr pgerrcodeUniqueViolation)
          else Inr (cl\<lparr>c_ledger := Some (rows @ [\<lparr>am_version = mg_version m, am_name = mg_name m, am_checksum = mg_checksum m\<rparr>])\<rparr>))"

definition render :: "(string \<Rightarrow> templateData \<Rightarrow> string option) \<Rightarrow> migration \<Rightarrow> MigrateOptions \<Rightarrow> err + string" where
  "render tmpl m opts = (case tmpl (mg_source m) (templateData_of opts) of None \<Rightarrow> Inl (Foreign ''template'') | Some sql \<Rightarrow> Inr sql)"

definition applyMigration ::
  "(string \<Rightarrow> templateData \<Rightarrow> string option) \<Rightarrow> 'd ddl \<Rightarrow> migration \<Rightarrow> MigrateOptions \<Rightarrow> serverInfo \<Rightarrow> 'd cluster \<Rightarrow> err + 'd cluster" where
  "applyMigration tmpl run m opts info cl =
     (case render tmpl m opts of Inl e \<Rightarrow> Inl e | Inr sql \<Rightarrow>
      case run [quoteIdentifier (mo_ExtensionSchema opts), quoteIdentifier schema_name] sql cl of
        Inl e \<Rightarrow> Inl (annotateMigrationError e info)
      | Inr cl1 \<Rightarrow> record_migration m cl1)"

record MigrateResult =
  mr_Applied :: "nat list"
  mr_Version :: nat
  mr_ExtensionSchema :: string

definition no_migration :: MigrateResult where
  "no_migration = \<lparr>mr_Applied = [], mr_Version = 0, mr_ExtensionSchema = ''''\<rparr>"

text \<open>The loop of \<open>Migrate\<close>: a failure leaves the migrations before it committed.\<close>

fun migrate_loop ::
  "(string \<Rightarrow> templateData \<Rightarrow> string option) \<Rightarrow> 'd ddl \<Rightarrow> MigrateOptions \<Rightarrow> serverInfo \<Rightarrow> (nat \<rightharpoonup> appliedMigration) \<Rightarrow> migration list \<Rightarrow>
   MigrateResult \<Rightarrow> 'd cluster \<Rightarrow> (err + MigrateResult) \<times> 'd cluster" where
  "migrate_loop tmpl run opts info applied [] res cl = (Inr res, cl)"
| "migrate_loop tmpl run opts info applied (m # ms) res cl =
     (if applied (mg_version m) \<noteq> None then migrate_loop tmpl run opts info applied ms (res\<lparr>mr_Version := mg_version m\<rparr>) cl
      else case applyMigration tmpl run m opts info cl of
             Inl e \<Rightarrow> (Inl e, cl)
           | Inr cl1 \<Rightarrow> migrate_loop tmpl run opts info applied ms
               (res\<lparr>mr_Applied := mr_Applied res @ [mg_version m], mr_Version := mg_version m\<rparr>) cl1)"

definition checkSchemaConfig :: "'d cluster \<Rightarrow> MigrateOptions \<Rightarrow> err option" where
  "checkSchemaConfig cl opts =
     (case c_config cl of None \<Rightarrow> Some (PgErr pgerrcodeUndefinedTable)
      | Some None \<Rightarrow> Some ErrSchemaNotReady
      | Some (Some (dims, config)) \<Rightarrow>
          reject_if (dims \<noteq> mo_VectorDimensions opts \<or> config \<noteq> mo_TextSearchConfig opts) ErrSchemaConfigMismatch)"

text \<open>What runs while the lock is held.\<close>

definition migrate_locked ::
  "(string \<Rightarrow> templateData \<Rightarrow> string option) \<Rightarrow> 'd ddl \<Rightarrow> migration list \<Rightarrow> MigrateOptions \<Rightarrow> serverInfo \<Rightarrow> 'd cluster \<Rightarrow> (err + MigrateResult) \<times> 'd cluster" where
  "migrate_locked tmpl run migrations opts info cl0 =
     (let cl = bootstrap cl0; rows = (case c_ledger cl of None \<Rightarrow> [] | Some rs \<Rightarrow> rs) in
      case checkHistory migrations rows of Some e \<Rightarrow> (Inl e, cl) | None \<Rightarrow>
      case migrate_loop tmpl run opts info (appliedMigrations cl) migrations (no_migration\<lparr>mr_ExtensionSchema := mo_ExtensionSchema opts\<rparr>) cl of
        (Inl e, cl') \<Rightarrow> (Inl e, cl')
      | (Inr res, cl') \<Rightarrow> (case checkSchemaConfig cl' opts of Some e \<Rightarrow> (Inl e, cl') | None \<Rightarrow> (Inr res, cl')))"

definition join_errs :: "err option list \<Rightarrow> err option" where
  "join_errs es = (let real = concat (map (\<lambda>c. case c of None \<Rightarrow> [] | Some e \<Rightarrow> [e]) es) in if real = [] then None else Some (Join real))"

text \<open>
  One session as the server sees it: the answers while the lock is polled, what other processes
  committed between the inspection and the moment the lock was granted, and the answer to the unlock.
\<close>

record 'd session =
  ss_env :: lock_env
  ss_others :: "'d cluster \<Rightarrow> 'd cluster"
  ss_unlock :: "err + bool"

text \<open>
  \<open>Migrate\<close>: \<open>None\<close> only while the lock is still being polled. The result and the error are both
  returned, with what became of the connection.
\<close>

definition Migrate ::
  "nat \<Rightarrow> (string \<Rightarrow> string) \<Rightarrow> (string \<Rightarrow> templateData \<Rightarrow> string option) \<Rightarrow> 'd ddl \<Rightarrow> embedded_file list \<Rightarrow> 'd session option \<Rightarrow> MigrateOptions \<Rightarrow> 'd cluster \<Rightarrow>
   ((MigrateResult \<times> err option) \<times> connection option \<times> 'd cluster) option" where
  "Migrate fuel sha256 tmpl run files pool opts0 cl =
     (let fail = (\<lambda>e. Some ((no_migration, Some e), None, cl));
          stop = (\<lambda>e. Some ((no_migration, join_errs [Some e, None]), Some Released, cl)) in
      case MigrateOptions_validate opts0 of Inl e \<Rightarrow> fail e | Inr opts \<Rightarrow>
      case loadMigrations sha256 files of Inl e \<Rightarrow> fail e | Inr migrations \<Rightarrow>
      case pool of None \<Rightarrow> fail ErrInvalidConfig | Some session \<Rightarrow>
      let info = inspect cl in
      case checkVersion info of Some e \<Rightarrow> stop e | None \<Rightarrow>
      case resolveExtensionSchema opts info of Inl e \<Rightarrow> stop e | Inr opts' \<Rightarrow>
      case checkTextSearchConfig cl (mo_TextSearchConfig opts') of Some e \<Rightarrow> stop e | None \<Rightarrow>
      case acquireMigrationLock fuel (ss_env session) (mo_LockTimeout opts') of None \<Rightarrow> None
      | Some (Some e) \<Rightarrow> stop e
      | Some None \<Rightarrow>
          let (r, cl') = migrate_locked tmpl run migrations opts' info (ss_others session cl);
              (conn, e) = finishMigrationSession True (ss_unlock session)
          in (case r of Inl e' \<Rightarrow> Some ((no_migration, join_errs [Some e', e]), Some conn, cl')
              | Inr res \<Rightarrow> Some ((res, join_errs [None, e]), Some conn, cl')))"

subsection \<open>Connecting\<close>

record StoreHandle =
  sh_extensionSchema :: string
  sh_vectorDimensions :: int
  sh_textSearchConfig :: string
  sh_vectorType :: string

definition readSchemaConfig :: "'d cluster \<Rightarrow> err + (int \<times> string)" where
  "readSchemaConfig cl =
     (case c_config cl of None \<Rightarrow> Inl ErrSchemaNotReady | Some None \<Rightarrow> Inl ErrSchemaNotReady
      | Some (Some (dims, config)) \<Rightarrow>
          if dims \<le> 0 then Inl ErrSchemaNotReady
          else case validateIdentifier config of Some e \<Rightarrow> Inl e | None \<Rightarrow> Inr (dims, config))"

definition Store_New :: "'d cluster option \<Rightarrow> err + StoreHandle" where
  "Store_New pool =
     (case pool of None \<Rightarrow> Inl ErrInvalidConfig | Some cl \<Rightarrow>
      let info = inspect cl in
      case first_err
        [checkVersion info, reject_if (length (si_missing info) > 0) ErrMissingExtension, checkVectorVersion info,
         validateIdentifier (si_extensionSchema info)] of
        Some e \<Rightarrow> Inl e
      | None \<Rightarrow>
          (case readSchemaConfig cl of Inl e \<Rightarrow> Inl e
           | Inr (dims, config) \<Rightarrow>
               Inr \<lparr>sh_extensionSchema = si_extensionSchema info, sh_vectorDimensions = dims, sh_textSearchConfig = config,
                    sh_vectorType = quoteIdentifier (si_extensionSchema info) @ ''.vector''\<rparr>))"

definition Store_Dimensions :: "StoreHandle \<Rightarrow> int" where "Store_Dimensions s = sh_vectorDimensions s"
definition Store_TextSearchConfig :: "StoreHandle \<Rightarrow> string" where "Store_TextSearchConfig s = sh_textSearchConfig s"
definition Store_ExtensionSchema :: "StoreHandle \<Rightarrow> string" where "Store_ExtensionSchema s = sh_extensionSchema s"

definition VerifyEmbedder :: "StoreHandle \<Rightarrow> 's Embedder option \<Rightarrow> err option" where
  "VerifyEmbedder s emb =
     (case emb of None \<Rightarrow> Some ErrInvalidConfig
      | Some e \<Rightarrow> reject_if (em_Dimensions e \<noteq> sh_vectorDimensions s) ErrEmbedderMismatch)"

subsection \<open>The embedded set\<close>

lemma load_entries_Inr:
  "load_entries sha256 files seen = Inr ms \<longleftrightarrow>
     list_all2 (\<lambda>f m. load_entry sha256 f = Inr m) files ms \<and> distinct (map mg_version ms) \<and> (\<forall>m \<in> set ms. mg_version m \<notin> seen)"
proof (induction sha256 files seen arbitrary: ms rule: load_entries.induct)
  case (1 sha256 seen)
  then show ?case by auto
next
  case (2 sha256 entry rest seen)
  show ?case
  proof (cases "load_entry sha256 entry")
    case (Inl e)
    then show ?thesis by (auto simp: list_all2_Cons1)
  next
    case (Inr m)
    show ?thesis
    proof (cases "mg_version m \<in> seen")
      case True
      then show ?thesis using Inr by (auto simp: list_all2_Cons1)
    next
      case False
      note IH = "2.IH"[OF Inr False]
      have "load_entries sha256 (entry # rest) seen = Inr ms \<longleftrightarrow> (\<exists>ms'. ms = m # ms' \<and> load_entries sha256 rest (insert (mg_version m) seen) = Inr ms')"
        using Inr False by (auto split: sum.splits)
      also have "\<dots> \<longleftrightarrow> (\<exists>ms'. ms = m # ms' \<and> list_all2 (\<lambda>f m. load_entry sha256 f = Inr m) rest ms' \<and> distinct (map mg_version ms')
          \<and> (\<forall>n \<in> set ms'. mg_version n \<notin> insert (mg_version m) seen))" by (simp only: IH)
      also have "\<dots> \<longleftrightarrow> list_all2 (\<lambda>f m. load_entry sha256 f = Inr m) (entry # rest) ms \<and> distinct (map mg_version ms) \<and> (\<forall>m \<in> set ms. mg_version m \<notin> seen)"
      proof (cases ms)
        case (Cons a list)
        show ?thesis unfolding Cons using Inr False by (auto simp: image_iff)
      qed simp
      finally show ?thesis .
    qed
  qed
qed

lemma value_of_snoc: "value_of (s @ [c]) = 10 * value_of s + digit_of c"
  by (simp add: value_of_def)

lemma value_of_zeros: "value_of (replicate k CHR ''0'' @ s) = value_of s"
  by (induction k) (simp_all add: value_of_def digit_of_def)

lemma digit_of_less: "isDigit c \<Longrightarrow> digit_of c < 10"
  by (auto simp: isDigit_def digit_of_def)

lemma digit_of_inject: "isDigit c \<Longrightarrow> isDigit e \<Longrightarrow> digit_of c = digit_of e \<Longrightarrow> c = e"
  unfolding isDigit_def digit_of_def by (metis (no_types) eq_diff_iff of_char_eq_iff)

lemma value_of_inject:
  assumes "length s = length t" "list_all isDigit s" "list_all isDigit t" "value_of s = value_of t"
  shows "s = t"
  using assms
proof (induction s arbitrary: t rule: rev_induct)
  case (snoc c s)
  then obtain t' e where t: "t = t' @ [e]" by (cases t rule: rev_cases) auto
  have less: "digit_of c < 10" "digit_of e < 10" using snoc.prems(2,3) t digit_of_less by auto
  have eq: "10 * value_of s + digit_of c = 10 * value_of t' + digit_of e" using snoc.prems(4) t by (simp add: value_of_snoc)
  have "digit_of c = digit_of e" using arg_cong[OF eq, of "\<lambda>n. n mod 10"] less by simp
  moreover from this have "value_of s = value_of t'" using eq by simp
  ultimately show ?case using snoc t digit_of_inject by auto
qed simp

lemma length_show_nat: "n < 10 ^ k \<Longrightarrow> 0 < k \<Longrightarrow> length (show_nat n) \<le> k"
proof (induction n arbitrary: k rule: show_nat.induct)
  case (1 n)
  show ?case
  proof (cases "n < 10")
    case False
    then obtain j where k: "k = Suc j" "0 < j" using 1(2,3) by (cases k) (auto simp: gr0_conv_Suc, case_tac nat, auto)
    then have "n div 10 < 10 ^ j" using 1(2) by (simp add: less_mult_imp_div_less mult.commute)
    then show ?thesis using 1(1)[OF False, of j] k False by (subst show_nat.simps) simp
  qed (subst show_nat.simps, use 1 in simp)
qed

lemma value_of_bound: "list_all isDigit s \<Longrightarrow> value_of s < 10 ^ length s"
proof (induction s rule: rev_induct)
  case (snoc c s)
  then show ?case using digit_of_less[of c] by (simp add: value_of_snoc)
qed (simp add: value_of_def)

lemma pad4_value:
  assumes "length s = 4" "list_all isDigit s"
  shows "pad4 (value_of s) = s"
proof (rule value_of_inject)
  have "value_of s < 10 ^ 4" using value_of_bound[OF assms(2)] assms(1) by simp
  then have "length (show_nat (value_of s)) \<le> 4" using length_show_nat[of "value_of s" 4] by simp
  then show "length (pad4 (value_of s)) = length s" using assms(1) by (simp add: pad4_def Let_def)
  have "isDigit CHR ''0''" by (simp add: isDigit_def)
  then show "list_all isDigit (pad4 (value_of s))" using show_nat_digits[of "value_of s"] by (auto simp: pad4_def Let_def list_all_iff)
  show "value_of (pad4 (value_of s)) = value_of s" by (simp add: pad4_def Let_def value_of_zeros value_of_show_nat)
qed (rule assms(2))

lemma load_entry_Inr:
  assumes "load_entry sha256 f = Inr m"
  shows "filename m = ef_name f" "mg_source m = ef_source f" "mg_checksum m = sha256 (ef_source f)" "0 < mg_version m"
proof -
  let ?s = "ef_name f" and ?n = "length (ef_name f)"
  obtain digits name v where p: "migrationNamePattern ?s = Some (digits, name)" "Atoi digits = Some v" "1 \<le> v"
    and m: "m = \<lparr>mg_version = nat v, mg_name = name, mg_source = ef_source f, mg_checksum = sha256 (ef_source f)\<rparr>"
    using assms by (auto simp: load_entry_def split: if_splits option.splits)
  have q: "10 \<le> ?n" "digits = take 4 ?s" "name = take (?n - 9) (drop 5 ?s)" "list_all isDigit digits" "?s ! 4 = CHR ''_''" "drop (?n - 4) ?s = ''.sql''"
    using p(1) by (auto simp: migrationNamePattern_def Let_def split: if_splits)
  have d4: "length digits = 4" using q(1,2) by simp
  then obtain c r where cr: "digits = c # r" "isDigit c" using q(4) by (cases digits) auto
  then have "c \<noteq> CHR ''-''" "c \<noteq> CHR ''+''" by (auto simp: isDigit_def)
  then have v: "nat v = value_of digits" using p(2) cr by (auto simp: Atoi_def atoi_def Let_def split: option.splits if_splits)
  have "?s = take 4 ?s @ [?s ! 4] @ take (?n - 9) (drop 5 ?s) @ drop (?n - 4) ?s"
  proof -
    have "drop 4 ?s = ?s ! 4 # drop 5 ?s" using q(1) Cons_nth_drop_Suc[of 4 ?s] by simp
    moreover have "drop 5 ?s = take (?n - 9) (drop 5 ?s) @ drop (?n - 9) (drop 5 ?s)" by (rule append_take_drop_id[symmetric])
    moreover have "drop (?n - 9) (drop 5 ?s) = drop (?n - 4) ?s" using q(1) by simp
    ultimately have "drop 4 ?s = [?s ! 4] @ take (?n - 9) (drop 5 ?s) @ drop (?n - 4) ?s" by simp
    then show ?thesis using append_take_drop_id[of 4 ?s] by simp
  qed
  then show "filename m = ef_name f"
    using pad4_value[OF d4 q(4)] v q(2,3,5,6) by (simp add: filename_def m)
  show "mg_source m = ef_source f" "mg_checksum m = sha256 (ef_source f)" "0 < mg_version m" using m p(3) by auto
qed

lemma contiguous:
  "list_all (\<lambda>(i, m). mg_version m = i + 1) (zip [0..<length out] out) \<longleftrightarrow> map mg_version out = [1..<length out + 1]"
proof -
  have "list_all (\<lambda>(i, m). mg_version m = i + 1) (zip [0..<length out] out) \<longleftrightarrow> (\<forall>i<length out. mg_version (out ! i) = i + 1)"
    by (simp add: list_all_length)
  moreover have "map mg_version out = [1..<length out + 1] \<longleftrightarrow> (\<forall>i<length out. mg_version (out ! i) = i + 1)"
    by (subst list_eq_iff_nth_eq) (simp del: upt_Suc)
  ultimately show ?thesis by (simp del: upt_Suc)
qed

lemma loadMigrations_Inr:
  assumes "loadMigrations sha256 files = Inr out"
  obtains ms where "load_entries sha256 files {} = Inr ms" "ms \<noteq> []" "out = sort_by (le_key mg_version) ms"
    "map mg_version out = [1..<length out + 1]"
  using assms unfolding loadMigrations_def Let_def contiguous by (simp del: upt_Suc split: sum.splits if_splits)

lemma list_all2_perm:
  assumes "list_all2 P xs ys" "mset xs' = mset xs"
  shows "\<exists>ys'. list_all2 P xs' ys' \<and> mset ys' = mset ys"
  using list_all2_reorder_left_invariance[OF assms(1) assms(2)] by metis

text \<open>
  \<open>loadMigrations\<close> either fails or returns a set it can vouch for: the versions are exactly one to the number of
  files, each migration is one embedded file whose name is the one it prints, with its text and the
  fingerprint of its text; and the directory may be listed in any order.
\<close>

theorem loadMigrations_correct:
  assumes load: "loadMigrations sha256 files = Inr ms"
  shows "ms \<noteq> [] \<and> length ms = length files \<and> map mg_version ms = [1..<length files + 1]
    \<and> mset (map (\<lambda>m. (filename m, mg_source m)) ms) = mset (map (\<lambda>f. (ef_name f, ef_source f)) files)
    \<and> (\<forall>m \<in> set ms. mg_checksum m = sha256 (mg_source m))
    \<and> (\<forall>files'. mset files' = mset files \<longrightarrow> loadMigrations sha256 files' = Inr ms)"
proof -
  obtain ms0 where m0: "load_entries sha256 files {} = Inr ms0" "ms0 \<noteq> []" "ms = sort_by (le_key mg_version) ms0"
    "map mg_version ms = [1..<length ms + 1]" by (rule loadMigrations_Inr[OF load])
  have e: "list_all2 (\<lambda>f m. load_entry sha256 f = Inr m) files ms0" "distinct (map mg_version ms0)" using m0(1) by (auto simp: load_entries_Inr)
  have len: "length ms = length files" "length ms0 = length files" using e(1) m0(3) by (auto dest: list_all2_lengthD)
  have "map (\<lambda>m. (filename m, mg_source m)) ms0 = map (\<lambda>f. (ef_name f, ef_source f)) files"
    using e(1) by (induction rule: list_all2_induct) (auto dest: load_entry_Inr(1,2))
  then have names: "mset (map (\<lambda>m. (filename m, mg_source m)) ms) = mset (map (\<lambda>f. (ef_name f, ef_source f)) files)"
    unfolding m0(3) by (metis mset_map_sort_by)
  have sums: "\<forall>m \<in> set ms. mg_checksum m = sha256 (mg_source m)"
  proof
    fix m assume "m \<in> set ms"
    then obtain f where "load_entry sha256 f = Inr m" using e(1) unfolding m0(3) set_sort_by by (auto simp: list_all2_conv_all_nth in_set_conv_nth)
    then show "mg_checksum m = sha256 (mg_source m)" using load_entry_Inr(2,3) by metis
  qed
  have perm: "loadMigrations sha256 files' = Inr ms" if "mset files' = mset files" for files'
  proof -
    note files = that
    obtain ms' where ms': "list_all2 (\<lambda>f m. load_entry sha256 f = Inr m) files' ms'" "mset ms' = mset ms0"
      using list_all2_perm[OF e(1) files] by blast
    have d: "distinct (map mg_version ms')" using e(2) ms'(2) by (metis mset_eq_imp_distinct_iff mset_map)
    have s: "sort_by (le_key mg_version) ms' = ms" unfolding m0(3)
      by (rule total_preorder.sort_by_perm[OF total_preorder_le_key ms'(2)])
         (use d in \<open>auto simp: le_key_def distinct_map dest: inj_onD\<close>)
    have "load_entries sha256 files' {} = Inr ms'" using ms'(1) d by (simp add: load_entries_Inr)
    moreover have "ms' \<noteq> []" using ms'(2) m0(2) by auto
    ultimately show ?thesis using m0(4) unfolding loadMigrations_def Let_def contiguous by (simp add: s del: upt_Suc)
  qed
  have "ms \<noteq> []" using m0(2) len by (cases ms) auto
  then show ?thesis using m0(4) len names sums perm by (simp del: upt_Suc)
qed

definition sample_files :: "embedded_file list" where
  "sample_files = [\<lparr>ef_name = ''0002_b.sql'', ef_dir = False, ef_source = ''two''\<rparr>, \<lparr>ef_name = ''0001_a.sql'', ef_dir = False, ef_source = ''one''\<rparr>]"

definition sample_migrations :: "migration list" where
  "sample_migrations =
    [\<lparr>mg_version = 1, mg_name = ''a'', mg_source = ''one'', mg_checksum = ''one''\<rparr>,
     \<lparr>mg_version = 2, mg_name = ''b'', mg_source = ''two'', mg_checksum = ''two''\<rparr>]"

lemma sample_load: "loadMigrations (\<lambda>s. s) sample_files = Inr sample_migrations"
  by code_simp

theorem loadMigrations_correct_witness:
  "loadMigrations (\<lambda>s. s) (rev sample_files) = Inr sample_migrations \<and> map mg_version sample_migrations = [1..<length sample_files + 1]"
  using loadMigrations_correct[OF sample_load] by (simp del: upt_Suc)

subsection \<open>The ledger\<close>

definition row_of :: "migration \<Rightarrow> appliedMigration" where
  "row_of m = \<lparr>am_version = mg_version m, am_name = mg_name m, am_checksum = mg_checksum m\<rparr>"

definition ledger_rows :: "'d cluster \<Rightarrow> appliedMigration list" where
  "ledger_rows cl = (case c_ledger cl of None \<Rightarrow> [] | Some rows \<Rightarrow> rows)"

definition pending :: "appliedMigration list \<Rightarrow> migration list \<Rightarrow> migration list" where
  "pending rows ms = filter (\<lambda>m. mg_version m \<notin> am_version ` set rows) ms"

text \<open>What the migrations rely on of the server: a migration's own statements leave the ledger alone.\<close>

definition keeps_ledger :: "'d ddl \<Rightarrow> bool" where
  "keeps_ledger run \<longleftrightarrow> (\<forall>path sql cl cl'. run path sql cl = Inr cl' \<longrightarrow> c_ledger cl' = c_ledger cl)"

lemma bootstrap_ledger [simp]: "c_ledger (bootstrap cl) = Some (ledger_rows cl)"
  by (simp add: bootstrap_def ledger_rows_def split: option.split)

lemma bootstrap_id: "c_ledger cl \<noteq> None \<Longrightarrow> bootstrap cl = cl"
  by (auto simp: bootstrap_def)

lemma bootstrap_more [simp]: "c_config (bootstrap cl) = c_config cl"
  by (simp add: bootstrap_def split: option.split)

lemma applyMigration_ledger:
  assumes "keeps_ledger run" "c_ledger cl = Some rows" "applyMigration tmpl run m opts info cl = Inr cl'"
  shows "c_ledger cl' = Some (rows @ [row_of m])"
  using assms by (auto simp: applyMigration_def record_migration_def keeps_ledger_def row_of_def split: option.splits sum.splits if_splits)

lemma appliedMigrations_iff: "appliedMigrations cl v = None \<longleftrightarrow> v \<notin> am_version ` set (ledger_rows cl)"
  by (auto simp: appliedMigrations_def ledger_rows_def map_of_eq_None_iff image_image split: option.splits)

lemma pending_Nil [simp]: "pending rows [] = []"
  by (simp add: pending_def)

lemma pending_Cons: "pending rows (m # ms) = (if mg_version m \<in> am_version ` set rows then pending rows ms else m # pending rows ms)"
  by (simp add: pending_def)

text \<open>The loop, on every exit: the ledger has grown by the first pending migrations, in order.\<close>

definition grown :: "appliedMigration list \<Rightarrow> migration list \<Rightarrow> MigrateResult \<Rightarrow> migration list \<Rightarrow> err + MigrateResult \<Rightarrow> 'd cluster \<Rightarrow> bool" where
  "grown rows ps res ms r cl' \<longleftrightarrow>
     (case r of
        Inl e \<Rightarrow> \<exists>k<length ps. c_ledger cl' = Some (rows @ map row_of (take k ps))
      | Inr res' \<Rightarrow> c_ledger cl' = Some (rows @ map row_of ps)
          \<and> res' = res\<lparr>mr_Applied := mr_Applied res @ map mg_version ps,
                       mr_Version := (if ms = [] then mr_Version res else mg_version (last ms))\<rparr>)"

lemma migrate_loop_grown:
  assumes "keeps_ledger run" "c_ledger cl = Some rows" "\<And>v. applied v = None \<longleftrightarrow> v \<notin> am_version ` set old"
    "migrate_loop tmpl run opts info applied ms res cl = (r, cl')"
  shows "grown rows (pending old ms) res ms r cl'"
  using assms(2,4)
proof (induction ms arbitrary: res cl rows)
  case Nil
  then show ?case by (auto simp: grown_def)
next
  case (Cons m ms)
  show ?case
  proof (cases "mg_version m \<in> am_version ` set old")
    case True
    then have "grown rows (pending old ms) (res\<lparr>mr_Version := mg_version m\<rparr>) ms r cl'"
      using Cons assms(3)[of "mg_version m"] by auto
    then show ?thesis using True by (auto simp: grown_def pending_Cons split: sum.splits)
  next
    case False
    then have none: "applied (mg_version m) = None" using assms(3) by blast
    show ?thesis
    proof (cases "applyMigration tmpl run m opts info cl")
      case (Inl e)
      then show ?thesis using Cons.prems False none by (auto simp: grown_def pending_Cons)
    next
      case (Inr cl1)
      let ?res = "res\<lparr>mr_Applied := mr_Applied res @ [mg_version m], mr_Version := mg_version m\<rparr>"
      have "grown (rows @ [row_of m]) (pending old ms) ?res ms r cl'"
        by (rule Cons.IH[OF applyMigration_ledger[OF assms(1) Cons.prems(1) Inr]]) (use Cons.prems(2) none Inr in simp)
      then show ?thesis using False
        by (auto simp: grown_def pending_Cons split: sum.splits intro: exI[of _ "Suc _"])
    qed
  qed
qed

subsection \<open>The history\<close>

definition history_ok :: "migration list \<Rightarrow> appliedMigration list \<Rightarrow> bool" where
  "history_ok ms rows \<longleftrightarrow> am_version ` set rows \<subseteq> mg_version ` set ms
     \<and> (\<forall>m \<in> set ms. \<forall>a \<in> set rows. am_version a = mg_version m \<longrightarrow> am_checksum a = mg_checksum m)"

definition ahead :: "migration list \<Rightarrow> appliedMigration list \<Rightarrow> bool" where
  "ahead ms rows \<longleftrightarrow> (\<exists>a \<in> set rows. am_version a \<notin> mg_version ` set ms)"

lemma map_of_ledger:
  assumes "distinct (map am_version rows)"
  shows "map_of (map (\<lambda>a. (am_version a, a)) rows) v = Some a \<longleftrightarrow> a \<in> set rows \<and> am_version a = v"
proof -
  have "distinct (map fst (map (\<lambda>a. (am_version a, a)) rows))" using assms by (simp add: o_def)
  from map_of_eq_Some_iff[OF this] show ?thesis by auto
qed

lemma first_err_reject: "first_err (map (\<lambda>x. reject_if (P x) e) xs) = reject_if (\<exists>x \<in> set xs. P x) e"
  by (induction xs) (auto simp: reject_if_def)

lemma checkHistory_passes:
  assumes "distinct (map am_version rows)"
  shows "checkHistory ms rows =
    (if ahead ms rows then Some ErrDatabaseAhead else if history_ok ms rows then None else Some ErrChecksumMismatch)"
proof -
  let ?bad = "\<lambda>m. \<exists>a \<in> set rows. am_version a = mg_version m \<and> am_checksum a \<noteq> mg_checksum m"
  have "(case map_of (map (\<lambda>a. (am_version a, a)) rows) (mg_version m) of None \<Rightarrow> None
      | Some a \<Rightarrow> reject_if (am_checksum a \<noteq> mg_checksum m) ErrChecksumMismatch) = reject_if (?bad m) ErrChecksumMismatch" for m
  proof (cases "map_of (map (\<lambda>a. (am_version a, a)) rows) (mg_version m)")
    case None
    then have "mg_version m \<notin> am_version ` set rows" by (simp add: map_of_eq_None_iff image_image)
    then have "\<not> ?bad m" by (metis imageI)
    then show ?thesis using None by (simp add: reject_if_def)
  next
    case (Some a)
    then have "a \<in> set rows" "am_version a = mg_version m" using map_of_ledger[OF assms] by auto
    moreover from this have "b = a" if "b \<in> set rows" "am_version b = mg_version m" for b
      using that assms by (metis distinct_map inj_onD)
    ultimately have "?bad m \<longleftrightarrow> am_checksum a \<noteq> mg_checksum m" by blast
    then show ?thesis by (simp only: Some option.case)
  qed
  then have second: "(\<lambda>m. case map_of (map (\<lambda>a. (am_version a, a)) rows) (mg_version m) of None \<Rightarrow> None
      | Some a \<Rightarrow> reject_if (am_checksum a \<noteq> mg_checksum m) ErrChecksumMismatch) = (\<lambda>m. reject_if (?bad m) ErrChecksumMismatch)" by (rule ext)
  have "checkHistory ms rows = (case reject_if (ahead ms rows) ErrDatabaseAhead of Some e \<Rightarrow> Some e
      | None \<Rightarrow> reject_if (\<exists>m \<in> set ms. ?bad m) ErrChecksumMismatch)"
    unfolding checkHistory_def second first_err_append first_err_reject set_sort_by ahead_def by (rule refl)
  then show ?thesis by (auto simp: reject_if_def history_ok_def ahead_def)
qed

subsection \<open>A whole run\<close>

text \<open>The guards a run passes before it holds the lock, with the options it then uses.\<close>

definition admitted :: "nat \<Rightarrow> 'd session \<Rightarrow> MigrateOptions \<Rightarrow> 'd cluster \<Rightarrow> MigrateOptions \<Rightarrow> bool" where
  "admitted fuel session opts cl opts' \<longleftrightarrow>
     (\<exists>out. MigrateOptions_validate opts = Inr out \<and> resolveExtensionSchema out (inspect cl) = Inr opts')
     \<and> checkVersion (inspect cl) = None \<and> checkTextSearchConfig cl (mo_TextSearchConfig opts') = None
     \<and> acquireMigrationLock fuel (ss_env session) (mo_LockTimeout opts') = Some None"

lemma Migrate_admitted:
  assumes "loadMigrations sha256 files = Inr ms" "admitted fuel session opts cl opts'"
    "migrate_locked tmpl run ms opts' (inspect cl) (ss_others session cl) = (r, cl')"
    "finishMigrationSession True (ss_unlock session) = (conn, ue)"
  shows "Migrate fuel sha256 tmpl run files (Some session) opts cl =
    (case r of Inl e \<Rightarrow> Some ((no_migration, join_errs [Some e, ue]), Some conn, cl')
     | Inr res \<Rightarrow> Some ((res, join_errs [None, ue]), Some conn, cl'))"
  using assms by (auto simp: Migrate_def admitted_def Let_def split: sum.split)

lemma Migrate_not_admitted:
  assumes "loadMigrations sha256 files = Inr ms" "\<And>opts'. \<not> admitted fuel session opts cl opts'"
    "Migrate fuel sha256 tmpl run files (Some session) opts cl = Some ((res, e), conn, cl')"
  shows "cl' = cl" "e \<noteq> None" "res = no_migration" "conn \<noteq> Some Discarded"
proof -
  have "\<forall>opts'. \<not> admitted fuel session opts cl opts'" using assms(2) by blast
  then have "cl' = cl \<and> e \<noteq> None \<and> res = no_migration \<and> conn \<noteq> Some Discarded"
    using assms(1,3) unfolding Migrate_def admitted_def Let_def
    by (auto simp: join_errs_def split: sum.splits option.splits)
  then show "cl' = cl" "e \<noteq> None" "res = no_migration" "conn \<noteq> Some Discarded" by auto
qed

lemma join_errs_None:
  "join_errs [a, b] = None \<longleftrightarrow> a = None \<and> b = None" "None = join_errs [a, b] \<longleftrightarrow> a = None \<and> b = None"
  by (simp_all add: join_errs_def split: option.split)

lemma validate_options:
  assumes "MigrateOptions_validate opts = Inr out"
  shows "mo_VectorDimensions out = mo_VectorDimensions opts" "0 < mo_VectorDimensions out" "mo_VectorDimensions out \<le> MaxVectorDimensions"
    "mo_TextSearchConfig out = (if mo_TextSearchConfig opts = '''' then DefaultTextSearchConfig else mo_TextSearchConfig opts)"
    "validateIdentifier (mo_TextSearchConfig out) = None" "mo_ExtensionSchema out = mo_ExtensionSchema opts"
  using assms by (auto simp: MigrateOptions_validate_def Let_def config_error_def split: option.splits if_splits)

lemma resolve_options:
  assumes "resolveExtensionSchema opts info = Inr opts'"
  shows "mo_VectorDimensions opts' = mo_VectorDimensions opts" "mo_TextSearchConfig opts' = mo_TextSearchConfig opts"
    "validateIdentifier (mo_ExtensionSchema opts') = None"
    "si_extensionSchema info \<noteq> '''' \<Longrightarrow> mo_ExtensionSchema opts' = si_extensionSchema info"
  using assms by (auto simp: resolveExtensionSchema_def Let_def config_error_def split: option.splits if_splits sum.splits)

lemma ledger_rows_Some [simp]: "c_ledger cl = Some rows \<Longrightarrow> ledger_rows cl = rows"
  by (simp add: ledger_rows_def)

lemma applied_bootstrap: "appliedMigrations (bootstrap cl) v = None \<longleftrightarrow> v \<notin> am_version ` set (ledger_rows cl)"
  by (simp add: appliedMigrations_iff)

lemma migrate_locked_refused:
  assumes "checkHistory ms (ledger_rows cl) = Some e"
  shows "migrate_locked tmpl run ms opts info cl = (Inl e, bootstrap cl)"
  using assms by (simp add: migrate_locked_def Let_def)

lemma migrate_locked_cases:
  assumes "keeps_ledger run" "checkHistory ms (ledger_rows cl) = None" "migrate_locked tmpl run ms opts info cl = (r, cl')"
  shows "\<exists>k. c_ledger cl' = Some (ledger_rows cl @ map row_of (take k (pending (ledger_rows cl) ms)))
      \<and> (case r of Inl e \<Rightarrow> True
         | Inr res \<Rightarrow> length (pending (ledger_rows cl) ms) \<le> k \<and> checkSchemaConfig cl' opts = None
             \<and> res = \<lparr>mr_Applied = map mg_version (pending (ledger_rows cl) ms),
                       mr_Version = (if ms = [] then 0 else mg_version (last ms)), mr_ExtensionSchema = mo_ExtensionSchema opts\<rparr>)"
proof -
  let ?res0 = "no_migration\<lparr>mr_ExtensionSchema := mo_ExtensionSchema opts\<rparr>"
  obtain r1 cl1 where loop: "migrate_loop tmpl run opts info (appliedMigrations (bootstrap cl)) ms ?res0 (bootstrap cl) = (r1, cl1)"
    by (cases "migrate_loop tmpl run opts info (appliedMigrations (bootstrap cl)) ms ?res0 (bootstrap cl)")
  have g: "grown (ledger_rows cl) (pending (ledger_rows cl) ms) ?res0 ms r1 cl1"
    by (rule migrate_loop_grown[OF assms(1) bootstrap_ledger applied_bootstrap loop])
  have "cl' = cl1" and r: "r = (case r1 of Inl e \<Rightarrow> Inl e | Inr res \<Rightarrow> (case checkSchemaConfig cl1 opts of Some e \<Rightarrow> Inl e | None \<Rightarrow> Inr res))"
    using assms(2,3) loop by (auto simp: migrate_locked_def Let_def split: sum.splits option.splits)
  then show ?thesis using g
    by (cases r1) (auto simp: grown_def no_migration_def split: option.splits intro: exI[of _ "length (pending (ledger_rows cl) ms)"])
qed

lemma loaded_versions:
  assumes "loadMigrations sha256 files = Inr ms"
  shows "ms \<noteq> []" "mg_version (last ms) = length files" "mg_version ` set ms = {1..length files}" "distinct (map mg_version ms)"
proof -
  obtain ms0 where m0: "load_entries sha256 files {} = Inr ms0" "ms0 \<noteq> []" "ms = sort_by (le_key mg_version) ms0"
    "map mg_version ms = [1..<length ms + 1]" by (rule loadMigrations_Inr[OF assms])
  have "length ms0 = length files" using m0(1) by (auto simp: load_entries_Inr dest: list_all2_lengthD)
  then have len: "length ms = length files" using m0(3) by simp
  show ne: "ms \<noteq> []" using len m0(2) \<open>length ms0 = length files\<close> by (cases ms) auto
  have "mg_version (last ms) = last (map mg_version ms)" using ne by (simp add: last_map)
  also have "\<dots> = length files" using ne unfolding m0(4) len by (cases files) (use len in auto)
  finally show "mg_version (last ms) = length files" .
  have "mg_version ` set ms = set (map mg_version ms)" by simp
  then show "mg_version ` set ms = {1..length files}" unfolding m0(4) len by auto
  show "distinct (map mg_version ms)" unfolding m0(4) by (rule distinct_upt)
qed

lemma complete_history:
  assumes "history_ok ms rows" "distinct (map mg_version ms)"
  shows "history_ok ms (rows @ map row_of (pending rows ms))"
    "am_version ` set (rows @ map row_of (pending rows ms)) = mg_version ` set ms"
proof -
  have same: "m = n" if "m \<in> set ms" "n \<in> set ms" "mg_version m = mg_version n" for m n
    using assms(2) that by (meson distinct_map inj_onD)
  then show "history_ok ms (rows @ map row_of (pending rows ms))"
    using assms(1) unfolding history_ok_def pending_def row_of_def by (auto, metis)
  show "am_version ` set (rows @ map row_of (pending rows ms)) = mg_version ` set ms"
  proof -
    have "am_version ` set (rows @ map row_of (pending rows ms)) = am_version ` set rows \<union> mg_version ` {m \<in> set ms. mg_version m \<notin> am_version ` set rows}"
      by (simp add: image_Un image_image pending_def row_of_def)
    also have "\<dots> = mg_version ` set ms" using assms(1) unfolding history_ok_def by blast
    finally show ?thesis .
  qed
qed

lemma Migrate_locked:
  assumes "loadMigrations sha256 files = Inr ms"
    "Migrate fuel sha256 tmpl run files (Some session) opts cl = Some ((res, e), conn, cl')" "admitted fuel session opts cl opts'"
  obtains r where "migrate_locked tmpl run ms opts' (inspect cl) (ss_others session cl) = (r, cl')" "e = None \<Longrightarrow> r = Inr res" "e = None \<Longrightarrow> conn = Some Released"
proof -
  obtain r cl1 where ml: "migrate_locked tmpl run ms opts' (inspect cl) (ss_others session cl) = (r, cl1)" by (rule prod.exhaust)
  obtain conn' ue where fin: "finishMigrationSession True (ss_unlock session) = (conn', ue)" by (rule prod.exhaust)
  have rel: "ue = None \<longleftrightarrow> conn' = Released" using fin by (auto simp: finishMigrationSession_def split: sum.splits if_splits)
  show thesis
    by (rule that[of r]) (use Migrate_admitted[OF assms(1,3) ml fin, unfolded assms(2)] ml rel in \<open>auto simp: join_errs_None split: sum.splits\<close>)
qed

lemma Migrate_ledger:
  assumes "loadMigrations sha256 files = Inr ms" "keeps_ledger run"
    "Migrate fuel sha256 tmpl run files (Some session) opts cl = Some ((res, e), conn, cl')"
  shows "cl' = cl \<or> (\<exists>k. c_ledger cl' = Some (ledger_rows (ss_others session cl) @ map row_of (take k (pending (ledger_rows (ss_others session cl)) ms))))"
proof (cases "\<exists>opts'. admitted fuel session opts cl opts'")
  case True
  then obtain opts' where "admitted fuel session opts cl opts'" by blast
  then obtain r where ml: "migrate_locked tmpl run ms opts' (inspect cl) (ss_others session cl) = (r, cl')" by (rule Migrate_locked[OF assms(1,3)])
  show ?thesis
  proof (cases "checkHistory ms (ledger_rows (ss_others session cl))")
    case None
    then show ?thesis using migrate_locked_cases[OF assms(2) None ml] by blast
  next
    case (Some x)
    then show ?thesis using migrate_locked_refused[OF Some, of tmpl run opts' "inspect cl"] ml by (auto intro!: exI[of _ 0])
  qed
qed (use Migrate_not_admitted(1)[OF assms(1) _ assms(3)] in blast)

lemma Migrate_success:
  assumes load: "loadMigrations sha256 files = Inr ms" and keeps: "keeps_ledger run"
    and key: "distinct (map am_version (ledger_rows (ss_others session cl)))"
    and out: "Migrate fuel sha256 tmpl run files (Some session) opts cl = Some ((res, None), conn, cl')"
  obtains v opts' where "MigrateOptions_validate opts = Inr v" "resolveExtensionSchema v (inspect cl) = Inr opts'"
    "history_ok ms (ledger_rows (ss_others session cl))"
    "c_ledger cl' = Some (ledger_rows (ss_others session cl) @ map row_of (pending (ledger_rows (ss_others session cl)) ms))"
    "c_config cl' = Some (Some (mo_VectorDimensions opts', mo_TextSearchConfig opts'))" "conn = Some Released"
    "res = \<lparr>mr_Applied = map mg_version (pending (ledger_rows (ss_others session cl)) ms), mr_Version = length files, mr_ExtensionSchema = mo_ExtensionSchema opts'\<rparr>"
proof -
  let ?rows = "ledger_rows (ss_others session cl)"
  obtain opts' where ad: "admitted fuel session opts cl opts'" using Migrate_not_admitted(2)[OF load _ out] by blast
  obtain v where v: "MigrateOptions_validate opts = Inr v" "resolveExtensionSchema v (inspect cl) = Inr opts'" using ad by (auto simp: admitted_def)
  obtain r where "migrate_locked tmpl run ms opts' (inspect cl) (ss_others session cl) = (r, cl')"
    and r: "r = Inr res" and rel: "conn = Some Released"
    by (rule Migrate_locked[OF load out ad]) simp
  then have ml: "migrate_locked tmpl run ms opts' (inspect cl) (ss_others session cl) = (Inr res, cl')" by simp
  have no: "checkHistory ms ?rows = None" using migrate_locked_refused[of ms "ss_others session cl" _ tmpl run opts' "inspect cl"] ml by (cases "checkHistory ms ?rows") auto
  have fin: "c_ledger cl' = Some (?rows @ map row_of (pending ?rows ms))" "checkSchemaConfig cl' opts' = None"
    "res = \<lparr>mr_Applied = map mg_version (pending ?rows ms), mr_Version = length files, mr_ExtensionSchema = mo_ExtensionSchema opts'\<rparr>"
    using migrate_locked_cases[OF keeps no ml] loaded_versions(1,2)[OF load] by auto
  show thesis
    by (rule that[OF v _ fin(1) _ rel fin(3)])
       (use checkHistory_passes[OF key, of ms] no fin(2) in \<open>auto simp: checkSchemaConfig_def split: if_splits option.splits\<close>)
qed

text \<open>
  C16. Migrating, on every outcome. Whatever happens, the ledger is either untouched or has grown by a prefix of
  the pending embedded migrations in version order, one row per migration. When no error is reported, all of them
  were applied and listed, the reported version is the newest one, every ledger row carries the embedded checksum and the ledger
  is complete, the recorded schema options are the ones requested (with the default language filled in), and the connection went
  back to the pool without the lock.
\<close>

theorem Migrate_correct:
  assumes load: "loadMigrations sha256 files = Inr ms" and keeps: "keeps_ledger run"
    and key: "distinct (map am_version (ledger_rows (ss_others session cl)))"
    and out: "Migrate fuel sha256 tmpl run files (Some session) opts cl = Some ((res, e), conn, cl')"
  shows "(cl' = cl \<or> (\<exists>k. c_ledger cl' = Some (ledger_rows (ss_others session cl) @ map row_of (take k (pending (ledger_rows (ss_others session cl)) ms)))))
    \<and> (e = None \<longrightarrow>
         c_ledger cl' = Some (ledger_rows (ss_others session cl) @ map row_of (pending (ledger_rows (ss_others session cl)) ms))
       \<and> mr_Applied res = map mg_version (pending (ledger_rows (ss_others session cl)) ms) \<and> mr_Version res = length files
       \<and> history_ok ms (ledger_rows cl') \<and> am_version ` set (ledger_rows cl') = {1..length files}
       \<and> c_config cl' = Some (Some (mo_VectorDimensions opts, if mo_TextSearchConfig opts = '''' then DefaultTextSearchConfig else mo_TextSearchConfig opts))
       \<and> conn = Some Released)"
proof -
  have "e = None \<Longrightarrow> ?thesis"
  proof -
    assume "e = None"
    then obtain v opts' where s: "MigrateOptions_validate opts = Inr v" "resolveExtensionSchema v (inspect cl) = Inr opts'"
      "history_ok ms (ledger_rows (ss_others session cl))"
      "c_ledger cl' = Some (ledger_rows (ss_others session cl) @ map row_of (pending (ledger_rows (ss_others session cl)) ms))"
      "c_config cl' = Some (Some (mo_VectorDimensions opts', mo_TextSearchConfig opts'))" "conn = Some Released"
      "res = \<lparr>mr_Applied = map mg_version (pending (ledger_rows (ss_others session cl)) ms), mr_Version = length files, mr_ExtensionSchema = mo_ExtensionSchema opts'\<rparr>"
      using Migrate_success[OF load keeps key] out by metis
    show ?thesis
      using s complete_history[OF s(3) loaded_versions(4)[OF load]] loaded_versions(3)[OF load] resolve_options(1,2)[OF s(2)] validate_options(1,4)[OF s(1)]
        Migrate_ledger[OF load keeps out] by simp
  qed
  then show ?thesis using Migrate_ledger[OF load keeps out] by blast
qed

definition sample_run :: "unit ddl" where
  "sample_run path sql cl =
     Inr (if sql = ''one'' then cl\<lparr>c_config := Some (Some (4, ''english'')), c_extensions := map (\<lambda>e. (e, ''public'', ''0.8.1'')) requiredExtensions\<rparr> else cl)"

definition sample_tmpl :: "string \<Rightarrow> templateData \<Rightarrow> string option" where
  "sample_tmpl s td = Some s"

definition sample_session :: "unit session" where
  "sample_session =
     \<lparr>ss_env = \<lparr>le_try = (\<lambda>n. Inr (n = 1)), le_start = 0, le_now = (\<lambda>n. int n * lockPollInterval), le_ctx = (\<lambda>_. None)\<rparr>,
      ss_others = (\<lambda>cl. cl), ss_unlock = Inr True\<rparr>"

definition sample_options :: MigrateOptions where
  "sample_options = \<lparr>mo_VectorDimensions = 4, mo_TextSearchConfig = '''', mo_ExtensionSchema = '''', mo_LockTimeout = 0\<rparr>"

definition sample_cluster :: "unit cluster" where
  "sample_cluster =
     \<lparr>c_versionNum = 180001, c_extensions = [], c_tsconfigs = [''simple'', ''english''], c_ledger = None, c_config = None, c_rest = ()\<rparr>"

definition sample_migrated :: "unit cluster" where
  "sample_migrated =
     sample_cluster\<lparr>c_extensions := map (\<lambda>e. (e, ''public'', ''0.8.1'')) requiredExtensions,
       c_ledger := Some (map row_of sample_migrations), c_config := Some (Some (4, ''english''))\<rparr>"

lemma sample_keeps: "keeps_ledger sample_run"
  by (auto simp: keeps_ledger_def sample_run_def)

lemma sample_others [simp]: "ss_others sample_session cl = cl"
  by (simp add: sample_session_def)

lemma sample_ledgers: "ledger_rows sample_cluster = []" "ledger_rows sample_migrated = map row_of sample_migrations"
  by (simp_all add: ledger_rows_def sample_cluster_def sample_migrated_def)

lemma sample_Migrate:
  "Migrate 2 (\<lambda>s. s) sample_tmpl sample_run sample_files (Some sample_session) sample_options sample_cluster =
     Some ((\<lparr>mr_Applied = [1, 2], mr_Version = 2, mr_ExtensionSchema = ''public''\<rparr>, None), Some Released, sample_migrated)"
  by code_simp

theorem Migrate_correct_witness:
  "c_ledger sample_migrated = Some (map row_of sample_migrations) \<and> history_ok sample_migrations (ledger_rows sample_migrated)
   \<and> am_version ` set (ledger_rows sample_migrated) = {1..2}"
  using Migrate_correct[OF sample_load sample_keeps _ sample_Migrate]
  by (simp add: sample_ledgers pending_def sample_files_def)

text \<open>
  C29. A database whose history disagrees with the build is refused before any migration runs: a ledger row of a version the
  build does not embed is reported as \<open>ErrDatabaseAhead\<close>, and otherwise a row whose checksum differs as \<open>ErrChecksumMismatch\<close>. Nothing but the
  empty ledger table may have been created, and no result is reported.
\<close>

theorem Migrate_refuses:
  assumes load: "loadMigrations sha256 files = Inr ms" and key: "distinct (map am_version (ledger_rows (ss_others session cl)))"
    and start: "admitted fuel session opts cl opts'" and bad: "\<not> history_ok ms (ledger_rows (ss_others session cl))"
  shows "\<exists>e conn. Migrate fuel sha256 tmpl run files (Some session) opts cl = Some ((no_migration, Some e), Some conn, bootstrap (ss_others session cl))
    \<and> Is e (if \<exists>a \<in> set (ledger_rows (ss_others session cl)). am_version a \<notin> {1..length files} then ErrDatabaseAhead else ErrChecksumMismatch)"
proof -
  obtain conn ue where fin: "finishMigrationSession True (ss_unlock session) = (conn, ue)" by (rule prod.exhaust)
  let ?e = "if ahead ms (ledger_rows (ss_others session cl)) then ErrDatabaseAhead else ErrChecksumMismatch"
  have "checkHistory ms (ledger_rows (ss_others session cl)) = Some ?e" using checkHistory_passes[OF key, of ms] bad by simp
  from Migrate_admitted[OF load start migrate_locked_refused[OF this] fin, of tmpl run]
  have "Migrate fuel sha256 tmpl run files (Some session) opts cl = Some ((no_migration, join_errs [Some ?e, ue]), Some conn, bootstrap (ss_others session cl))"
    by simp
  moreover obtain es where "join_errs [Some ?e, ue] = Some (Join (?e # es))" by (cases ue) (simp_all add: join_errs_def)
  moreover have "ahead ms (ledger_rows (ss_others session cl)) \<longleftrightarrow> (\<exists>a \<in> set (ledger_rows (ss_others session cl)). am_version a \<notin> {1..length files})"
    unfolding ahead_def loaded_versions(3)[OF load] by blast
  ultimately show ?thesis by (auto split: if_splits)
qed

theorem Migrate_refuses_witness:
  "\<exists>e conn. Migrate 2 (\<lambda>s. ''new'') sample_tmpl sample_run sample_files (Some sample_session) sample_options sample_migrated
     = Some ((no_migration, Some e), Some conn, sample_migrated) \<and> Is e ErrChecksumMismatch"
proof -
  let ?ms = "map (\<lambda>m. m\<lparr>mg_checksum := ''new''\<rparr>) sample_migrations"
  let ?opts = "\<lparr>mo_VectorDimensions = 4, mo_TextSearchConfig = ''english'', mo_ExtensionSchema = ''public'', mo_LockTimeout = Minute\<rparr>"
  have load: "loadMigrations (\<lambda>s. ''new'') sample_files = Inr ?ms" by code_simp
  have "MigrateOptions_validate sample_options = Inr (?opts\<lparr>mo_ExtensionSchema := ''''\<rparr>)"
    "resolveExtensionSchema (?opts\<lparr>mo_ExtensionSchema := ''''\<rparr>) (inspect sample_migrated) = Inr ?opts"
    "checkVersion (inspect sample_migrated) = None" "checkTextSearchConfig sample_migrated ''english'' = None"
    "acquireMigrationLock 2 (ss_env sample_session) Minute = Some None" by code_simp+
  then have ad: "admitted 2 sample_session sample_options sample_migrated ?opts" unfolding admitted_def by auto
  have "bootstrap sample_migrated = sample_migrated" by (rule bootstrap_id) (simp add: sample_migrated_def)
  then show ?thesis
    using Migrate_refuses[OF load _ ad, of sample_tmpl sample_run]
    by (simp add: sample_ledgers sample_migrations_def row_of_def history_ok_def sample_files_def)
qed

subsection \<open>Running again, and connecting\<close>

lemma pending_complete:
  assumes "am_version ` set rows = mg_version ` set ms"
  shows "pending rows ms = []"
  using assms by (auto simp: pending_def filter_empty_conv)

lemma pending_distinct:
  assumes "distinct (map am_version rows)" "distinct (map mg_version ms)"
  shows "distinct (map am_version (rows @ map row_of (pending rows ms)))"
proof -
  have "map am_version (map row_of (pending rows ms)) = map mg_version (pending rows ms)" by (simp add: row_of_def)
  moreover have "distinct (map mg_version (pending rows ms))" using assms(2) unfolding pending_def by (rule distinct_map_filter)
  moreover have "am_version ` set rows \<inter> mg_version ` set (pending rows ms) = {}"
    by (auto simp: pending_def image_iff)
  ultimately show ?thesis using assms(1) by (simp only: map_append distinct_append set_map)
qed

lemma migrate_loop_skips:
  assumes "\<And>m. m \<in> set ms \<Longrightarrow> applied (mg_version m) \<noteq> None"
  shows "migrate_loop tmpl run opts info applied ms res cl = (Inr (res\<lparr>mr_Version := (if ms = [] then mr_Version res else mg_version (last ms))\<rparr>), cl)"
  using assms by (induction ms arbitrary: res) auto

lemma migrate_locked_current:
  assumes "c_ledger cl = Some rows" "checkHistory ms rows = None" "mg_version ` set ms \<subseteq> am_version ` set rows" "checkSchemaConfig cl opts = None" "ms \<noteq> []"
  shows "migrate_locked tmpl run ms opts info cl = (Inr \<lparr>mr_Applied = [], mr_Version = mg_version (last ms), mr_ExtensionSchema = mo_ExtensionSchema opts\<rparr>, cl)"
proof -
  have "bootstrap cl = cl" using assms(1) by (simp add: bootstrap_id)
  moreover have "appliedMigrations cl (mg_version m) \<noteq> None" if "m \<in> set ms" for m
    using that assms(1,3) unfolding appliedMigrations_iff by auto
  ultimately show ?thesis using assms by (simp add: migrate_locked_def migrate_loop_skips no_migration_def)
qed

text \<open>
  C30. Migrating a current database changes nothing. After a run that reported no error, another run with the same options by a session that gets the
  lock (the server still knows the text search configuration and holds the vector extension where the first run reported it) applies no migration, reports
  the same version and leaves the database exactly as it was.
\<close>

theorem Migrate_idempotent:
  assumes load: "loadMigrations sha256 files = Inr ms" and keeps: "keeps_ledger run"
    and key: "distinct (map am_version (ledger_rows (ss_others session cl)))"
    and first: "Migrate fuel sha256 tmpl run files (Some session) opts cl = Some ((res, None), conn, cl')"
    and server: "MinServerVersionNum \<le> c_versionNum cl'"
      "(if mo_TextSearchConfig opts = '''' then DefaultTextSearchConfig else mo_TextSearchConfig opts) \<in> set (c_tsconfigs cl')"
      "si_extensionSchema (inspect cl') = mr_ExtensionSchema res"
    and lock: "0 < fuel'" "le_try (ss_env session') 0 = Inr True" "ss_others session' cl' = cl'" "ss_unlock session' = Inr True"
  shows "Migrate fuel' sha256 tmpl run files (Some session') opts cl' = Some ((res\<lparr>mr_Applied := []\<rparr>, None), Some Released, cl')"
proof -
  obtain v opts1 where s: "MigrateOptions_validate opts = Inr v" "resolveExtensionSchema v (inspect cl) = Inr opts1"
    "history_ok ms (ledger_rows (ss_others session cl))"
    "c_ledger cl' = Some (ledger_rows (ss_others session cl) @ map row_of (pending (ledger_rows (ss_others session cl)) ms))"
    "c_config cl' = Some (Some (mo_VectorDimensions opts1, mo_TextSearchConfig opts1))"
    and res: "res = \<lparr>mr_Applied = map mg_version (pending (ledger_rows (ss_others session cl)) ms), mr_Version = length files, mr_ExtensionSchema = mo_ExtensionSchema opts1\<rparr>"
    by (rule Migrate_success[OF load keeps key first])
  let ?opts = "v\<lparr>mo_ExtensionSchema := mo_ExtensionSchema opts1\<rparr>"
  note v = validate_options[OF s(1)] and r = resolve_options[OF s(2)]
  have ne: "mo_ExtensionSchema opts1 \<noteq> ''''" using r(3) by (auto simp: validateIdentifier_def)
  have same: "mo_ExtensionSchema v \<noteq> '''' \<Longrightarrow> mo_ExtensionSchema opts1 = mo_ExtensionSchema v"
    using s(2) by (auto simp: resolveExtensionSchema_def Let_def split: if_splits option.splits)
  have res2: "resolveExtensionSchema v (inspect cl') = Inr ?opts"
    using server(3) res ne same r(3) by (cases "mo_ExtensionSchema v = ''''") (simp_all add: resolveExtensionSchema_def config_error_def)
  have acquired: "acquireMigrationLock fuel' (ss_env session') timeout = Some None" for timeout
    using lock(1,2) by (cases fuel') (simp_all add: acquireMigrationLock_def)
  have "distinct (map am_version (ledger_rows cl'))" using pending_distinct[OF key loaded_versions(4)[OF load]] s(4) by simp
  note current = checkHistory_passes[OF this, of ms]
  have ad: "admitted fuel' session' opts cl' ?opts"
    unfolding admitted_def using s(1) res2 server(1,2) acquired v(4)
    by (simp add: checkVersion_def inspect_def Let_def checkTextSearchConfig_def)
  have full: "history_ok ms (ledger_rows cl')" "mg_version ` set ms = am_version ` set (ledger_rows cl')"
    using complete_history[OF s(3) loaded_versions(4)[OF load]] s(4) by simp_all
  then have none: "checkHistory ms (ledger_rows cl') = None" using current by (auto simp: ahead_def)
  have config: "checkSchemaConfig cl' ?opts = None" using s(5) r(1,2) by (simp add: checkSchemaConfig_def)
  have "migrate_locked tmpl run ms ?opts (inspect cl') (ss_others session' cl')
      = (Inr \<lparr>mr_Applied = [], mr_Version = length files, mr_ExtensionSchema = mo_ExtensionSchema opts1\<rparr>, cl')"
    using migrate_locked_current[OF _ none _ config loaded_versions(1)[OF load]] full(2) s(4) lock(3) loaded_versions(2)[OF load] by simp
  moreover have "finishMigrationSession True (ss_unlock session') = (Released, None)" using lock(4) by (simp add: finishMigrationSession_def)
  ultimately show ?thesis using Migrate_admitted[OF load ad] res by (simp add: join_errs_def)
qed

text \<open>
  C32. What a migrated database is good for: once \<open>Migrate\<close> has reported no error and the server holds the required extensions at a supported version,
  \<open>New\<close> succeeds on it, with the dimensions and the language that were asked for; and an embedder is accepted exactly when its width is that dimension.
\<close>

theorem Store_New_after_Migrate:
  assumes load: "loadMigrations sha256 files = Inr ms" and keeps: "keeps_ledger run"
    and key: "distinct (map am_version (ledger_rows (ss_others session cl)))"
    and first: "Migrate fuel sha256 tmpl run files (Some session) opts cl = Some ((res, None), conn, cl')"
    and server: "MinServerVersionNum \<le> c_versionNum cl'" "si_missing (inspect cl') = []" "checkVectorVersion (inspect cl') = None"
      "si_extensionSchema (inspect cl') = mr_ExtensionSchema res"
  shows "\<exists>s. Store_New (Some cl') = Inr s \<and> Store_Dimensions s = mo_VectorDimensions opts
    \<and> Store_TextSearchConfig s = (if mo_TextSearchConfig opts = '''' then DefaultTextSearchConfig else mo_TextSearchConfig opts)
    \<and> Store_ExtensionSchema s = mr_ExtensionSchema res
    \<and> (\<forall>emb. VerifyEmbedder s (Some emb) = None \<longleftrightarrow> em_Dimensions emb = mo_VectorDimensions opts)"
proof -
  obtain v opts1 where s: "MigrateOptions_validate opts = Inr v" "resolveExtensionSchema v (inspect cl) = Inr opts1"
    "c_config cl' = Some (Some (mo_VectorDimensions opts1, mo_TextSearchConfig opts1))"
    and res: "res = \<lparr>mr_Applied = map mg_version (pending (ledger_rows (ss_others session cl)) ms), mr_Version = length files, mr_ExtensionSchema = mo_ExtensionSchema opts1\<rparr>"
    by (rule Migrate_success[OF load keeps key first])
  note v = validate_options[OF s(1)] and r = resolve_options[OF s(2)]
  have "checkVersion (inspect cl') = None" using server(1) by (simp add: checkVersion_def inspect_def Let_def)
  moreover have "readSchemaConfig cl' = Inr (mo_VectorDimensions opts, mo_TextSearchConfig v)"
    using s(3) v(1,2,5) r(1,2) by (simp add: readSchemaConfig_def)
  moreover have "validateIdentifier (si_extensionSchema (inspect cl')) = None" using server(4) res r(3) by simp
  ultimately show ?thesis
    using server(2-4) v(4)
    by (simp add: Store_New_def Let_def Store_Dimensions_def Store_TextSearchConfig_def Store_ExtensionSchema_def VerifyEmbedder_def)
qed

theorem Migrate_idempotent_witness:
  "Migrate 1 (\<lambda>s. s) sample_tmpl sample_run sample_files (Some (sample_session\<lparr>ss_env := (ss_env sample_session)\<lparr>le_try := \<lambda>_. Inr True\<rparr>\<rparr>))
     sample_options sample_migrated = Some ((\<lparr>mr_Applied = [], mr_Version = 2, mr_ExtensionSchema = ''public''\<rparr>, None), Some Released, sample_migrated)"
proof -
  have "MinServerVersionNum \<le> c_versionNum sample_migrated" "''english'' \<in> set (c_tsconfigs sample_migrated)" "si_extensionSchema (inspect sample_migrated) = ''public''"
    by code_simp+
  then show ?thesis
    using Migrate_idempotent[OF sample_load sample_keeps _ sample_Migrate, of 1 "sample_session\<lparr>ss_env := (ss_env sample_session)\<lparr>le_try := \<lambda>_. Inr True\<rparr>\<rparr>"]
    by (simp add: sample_ledgers sample_options_def DefaultTextSearchConfig_def sample_session_def)
qed

theorem Store_New_after_Migrate_witness:
  "\<exists>s. Store_New (Some sample_migrated) = Inr s \<and> Store_Dimensions s = 4 \<and> Store_TextSearchConfig s = ''english''"
proof -
  have "MinServerVersionNum \<le> c_versionNum sample_migrated" "si_missing (inspect sample_migrated) = []" "checkVectorVersion (inspect sample_migrated) = None"
    "si_extensionSchema (inspect sample_migrated) = ''public''"
    by code_simp+
  then show ?thesis
    using Store_New_after_Migrate[OF sample_load sample_keeps _ sample_Migrate]
    by (auto simp: sample_ledgers sample_options_def DefaultTextSearchConfig_def)
qed

subsection \<open>Waiting for the lock\<close>

definition next_backoff :: "int \<Rightarrow> int" where
  "next_backoff b = (if b < lockPollMax then min (b * 2) lockPollMax else b)"

definition pause_ok :: "int \<Rightarrow> bool" where
  "pause_ok b \<longleftrightarrow> lockPollInterval \<le> b \<and> b \<le> lockPollMax"

lemma pause_ok_next: "pause_ok b \<Longrightarrow> pause_ok (next_backoff b)"
  by (auto simp: pause_ok_def next_backoff_def lockPollInterval_def lockPollMax_def)

text \<open>What ends a poll at its \<open>n\<close>-th try.\<close>

definition poll_ends :: "lock_env \<Rightarrow> int \<Rightarrow> nat \<Rightarrow> err option \<Rightarrow> bool" where
  "poll_ends env deadline n r \<longleftrightarrow>
     (case le_try env n of
        Inl e \<Rightarrow> r = Some e
      | Inr True \<Rightarrow> r = None
      | Inr False \<Rightarrow> r = Some ErrLockTimeout \<and> deadline \<le> le_now env n + lockPollMax \<or> r \<noteq> None \<and> le_ctx env n = r)"

lemma poll_lock_returns:
  assumes "\<And>n. le_start env + int n * lockPollInterval \<le> le_now env n" "deadline \<le> le_start env + int (n + fuel) * lockPollInterval"
    "pause_ok b" "0 < fuel"
  shows "\<exists>r k. poll_lock fuel env deadline n b = Some r \<and> n \<le> k \<and> (\<forall>i. n \<le> i \<and> i < k \<longrightarrow> le_try env i = Inr False) \<and> poll_ends env deadline k r"
  using assms(2-4)
proof (induction fuel arbitrary: n b)
  case (Suc fuel)
  consider e where "le_try env n = Inl e" | "le_try env n = Inr True" | "le_try env n = Inr False" by (cases "le_try env n") auto
  then show ?case
  proof cases
    case 3
    show ?thesis
    proof (cases "le_now env n + b < deadline \<and> le_ctx env n = None")
      case True
      have "0 < fuel"
      proof (rule ccontr)
        assume "\<not> 0 < fuel"
        then have "deadline \<le> le_start env + int n * lockPollInterval + lockPollInterval" using Suc.prems(1) by (simp add: algebra_simps)
        then show False using True assms(1)[of n] Suc.prems(2) by (simp add: pause_ok_def)
      qed
      then obtain r k where k: "poll_lock fuel env deadline (n + 1) (next_backoff b) = Some r" "n + 1 \<le> k" "\<forall>i. n + 1 \<le> i \<and> i < k \<longrightarrow> le_try env i = Inr False" "poll_ends env deadline k r"
        using Suc.IH[of "n + 1" "next_backoff b"] Suc.prems(1,2) pause_ok_next by (auto simp: algebra_simps)
      then have "\<forall>i. n \<le> i \<and> i < k \<longrightarrow> le_try env i = Inr False" using 3 by (metis Suc_eq_plus1 Suc_leI le_neq_implies_less)
      then show ?thesis using k True 3 by (intro exI[of _ r] exI[of _ k]) (simp add: next_backoff_def)
    next
      case False
      then show ?thesis using 3 Suc.prems(2)
        by (intro exI[of _ "if le_now env n + b < deadline then le_ctx env n else Some ErrLockTimeout"] exI[of _ n]) (auto simp: poll_ends_def pause_ok_def)
    qed
  qed (auto simp: poll_ends_def intro!: exI[of _ n])
qed simp

text \<open>
  C31. Waiting for the migration lock ends. With a clock that advances by at least the shortest pause between two tries, a timeout of \<open>n\<close> shortest
  pauses is over after \<open>n\<close> tries at the latest (and there is at least one). The lock is reported as held exactly when the server granted it at the last try, having refused every earlier one;
  a timeout is reported no sooner than the longest pause before the deadline, and only after every try was refused.
\<close>

theorem acquireMigrationLock_returns:
  assumes clock: "\<And>n. le_start env + int n * lockPollInterval \<le> le_now env n" and fuel: "0 < fuel" "timeout \<le> int fuel * lockPollInterval"
  shows "\<exists>r n. acquireMigrationLock fuel env timeout = Some r \<and> (\<forall>i<n. le_try env i = Inr False)
    \<and> (case le_try env n of
         Inl e \<Rightarrow> r = Some e
       | Inr True \<Rightarrow> r = None
       | Inr False \<Rightarrow> r = Some ErrLockTimeout \<and> le_start env + timeout \<le> le_now env n + lockPollMax \<or> r \<noteq> None \<and> le_ctx env n = r)"
  using poll_lock_returns[OF clock, of "le_start env + timeout" 0 fuel lockPollInterval] fuel
  by (simp add: acquireMigrationLock_def poll_ends_def pause_ok_def lockPollInterval_def lockPollMax_def)

theorem acquireMigrationLock_returns_witness:
  "\<exists>r n. acquireMigrationLock 3 (ss_env sample_session) 100000000 = Some r \<and> (\<forall>i<n. le_try (ss_env sample_session) i = Inr False)"
  using acquireMigrationLock_returns[of "ss_env sample_session" 3 100000000]
  by (simp add: sample_session_def lockPollInterval_def) blast

subsection \<open>Quoted identifiers\<close>

text \<open>How the server reads a delimited identifier after its opening quote: a doubled quote is one, a single one ends it.\<close>

fun read_quoted :: "string \<Rightarrow> (string \<times> string) option" where
  "read_quoted [] = None"
| "read_quoted (c # s) =
     (if c \<noteq> CHR 0x22 then map_option (\<lambda>(a, b). (c # a, b)) (read_quoted s)
      else if s \<noteq> [] \<and> hd s = CHR 0x22 then map_option (\<lambda>(a, b). (CHR 0x22 # a, b)) (read_quoted (tl s))
      else Some ([], s))"

lemma read_quoted_body:
  assumes "rest = [] \<or> hd rest \<noteq> CHR 0x22"
  shows "read_quoted (concat (map (\<lambda>c. if c = CHR 0x22 then [CHR 0x22, CHR 0x22] else [c]) name) @ CHR 0x22 # rest) = Some (name, rest)"
  using assms by (induction name) auto

text \<open>
  A quoted identifier is read back by the server as exactly the name that was quoted, whatever characters it holds, and what follows it is read as what follows it: a name
  cannot end its quotes early.
\<close>

theorem quoteIdentifier_round_trip:
  assumes "rest = [] \<or> hd rest \<noteq> CHR 0x22"
  shows "\<exists>body. quoteIdentifier name @ rest = CHR 0x22 # body \<and> read_quoted body = Some (name, rest)"
  using read_quoted_body[OF assms, of name] by (simp add: quoteIdentifier_def)

theorem quoteIdentifier_round_trip_witness:
  "\<exists>body. quoteIdentifier [CHR ''a'', CHR 0x22, CHR '';''] @ ''.vector'' = CHR 0x22 # body \<and> read_quoted body = Some ([CHR ''a'', CHR 0x22, CHR '';''], ''.vector'')"
  by (rule quoteIdentifier_round_trip) simp

text \<open>
  The extension schema is resolved before the lock is taken: a process that waited while another one installed the extensions elsewhere
  reports, without an error, a schema the extensions are not in.
\<close>

theorem Migrate_reports_stale_schema:
  "\<exists>session. \<exists>cl'. Migrate 2 (\<lambda>s. s) sample_tmpl sample_run sample_files (Some session) sample_options sample_cluster
     = Some ((\<lparr>mr_Applied = [], mr_Version = 2, mr_ExtensionSchema = ''public''\<rparr>, None), Some Released, cl')
   \<and> si_extensionSchema (inspect cl') = ''ext''"
proof -
  let ?other = "sample_migrated\<lparr>c_extensions := map (\<lambda>e. (e, ''ext'', ''0.8.1'')) requiredExtensions\<rparr>"
  have "Migrate 2 (\<lambda>s. s) sample_tmpl sample_run sample_files (Some (sample_session\<lparr>ss_others := \<lambda>_. ?other\<rparr>)) sample_options sample_cluster
     = Some ((\<lparr>mr_Applied = [], mr_Version = 2, mr_ExtensionSchema = ''public''\<rparr>, None), Some Released, ?other)"
    "si_extensionSchema (inspect ?other) = ''ext''" by code_simp+
  then show ?thesis by blast
qed

end
