(* ===== verification/Store_Machine.thy ===== *)
theory Store_Machine
  imports Worker
begin

section \<open>The store as a machine, and the log it implements\<close>

text \<open>
  Every operation that changes the database, as one labelled step relation over the definitions of the other theories, and an abstract log:
  per scope a list of numbered entries and the last number handed out. Appending adds consecutive entries at the end of one scope, erasing takes entries
  out, and nothing else touches it. The lemmas show that every reachable database is well formed and that the store refines the log: each step of the
  store is a step of the log under \<open>abs_log\<close>, and \<open>Replay\<close> reads the log.

  A refused operation is no step: the model returns an error and no new state. One append carries fewer than \<open>2\<^sup>3\<^sup>1\<close> episodes, the
  width of the count it sends.
\<close>

subsection \<open>Steps\<close>

datatype store_op =
    OpAppend AppendCommand
  | OpPutEncoding Encoding
  | OpEnqueue NewJob gotime
  | OpLease LeaseRequest
  | OpSucceed JobID WorkerID gotime
  | OpFail JobID WorkerID "string option" gotime gotime
  | OpReclaim gotime
  | OpRetry JobID gotime
  | OpPurge PurgeRequest
  | OpApplyExtraction ExtractCommand
  | OpForget ForgetRequest

inductive store_step :: "(string \<Rightarrow> bool) \<Rightarrow> (string \<Rightarrow> string \<Rightarrow> bool) \<Rightarrow> store_op \<Rightarrow> db \<Rightarrow> db \<Rightarrow> bool"
  for text_ok coll where
  do_Append: "Append text_ok mint_e mint_j cmd d = Inr (res, d') \<Longrightarrow> length (ac_Episodes cmd) < 2 ^ 31 \<Longrightarrow> store_step text_ok coll (OpAppend cmd) d d'"
| do_PutEncoding: "PutEncoding text_ok enc d = Inr (u, d') \<Longrightarrow> store_step text_ok coll (OpPutEncoding enc) d d'"
| do_Enqueue: "Enqueue text_ok mint job now d = Inr (j, d') \<Longrightarrow> store_step text_ok coll (OpEnqueue job now) d d'"
| do_Lease: "Lease text_ok locked lreq d = Inr (js, d') \<Longrightarrow> store_step text_ok coll (OpLease lreq) d d'"
| do_Succeed: "Succeed text_ok i w t d = Inr (u, d') \<Longrightarrow> store_step text_ok coll (OpSucceed i w t) d d'"
| do_Fail: "Fail text_ok i w cause t retryAt d = Inr (u, d') \<Longrightarrow> store_step text_ok coll (OpFail i w cause t retryAt) d d'"
| do_Reclaim: "Reclaim now d = Inr (n, d') \<Longrightarrow> store_step text_ok coll (OpReclaim now) d d'"
| do_Retry: "Retry i now d = Inr (j, d') \<Longrightarrow> store_step text_ok coll (OpRetry i now) d d'"
| do_Purge: "Purge preq d = Inr (n, d') \<Longrightarrow> store_step text_ok coll (OpPurge preq) d d'"
| do_ApplyExtraction: "ApplyExtraction text_ok coll mint xcmd d = Inr (fs, d') \<Longrightarrow> store_step text_ok coll (OpApplyExtraction xcmd) d d'"
| do_Forget: "Forget freq d = Inr (fres, d') \<Longrightarrow> store_step text_ok coll (OpForget freq) d d'"

inductive_cases store_step_cases: "store_step text_ok coll act d d'"

inductive runs :: "('o \<Rightarrow> 's \<Rightarrow> 's \<Rightarrow> bool) \<Rightarrow> 'o list \<Rightarrow> 's \<Rightarrow> 's \<Rightarrow> bool"
  for step where
  runs_nil: "runs step [] s s"
| runs_snoc: "runs step os s t \<Longrightarrow> step act t u \<Longrightarrow> runs step (os @ [act]) s u"

subsection \<open>Refinement\<close>

text \<open>A forward simulation, step by step, along an invariant.\<close>

locale simulation =
  fixes step :: "'o \<Rightarrow> 's \<Rightarrow> 's \<Rightarrow> bool" and spec :: "'o \<Rightarrow> 'a \<Rightarrow> 'a \<Rightarrow> bool"
    and inv :: "'s \<Rightarrow> bool" and abst :: "'s \<Rightarrow> 'a"
  assumes keeps: "inv s \<Longrightarrow> step act s t \<Longrightarrow> inv t"
    and simulates: "inv s \<Longrightarrow> step act s t \<Longrightarrow> spec act (abst s) (abst t)"
begin

lemma runs_inv: "runs step os s t \<Longrightarrow> inv s \<Longrightarrow> inv t"
  by (induction rule: runs.induct) (auto intro: keeps)

lemma runs_refine: "runs step os s t \<Longrightarrow> inv s \<Longrightarrow> runs spec os (abst s) (abst t)"
proof (induction rule: runs.induct)
  case (runs_snoc os s t act u)
  then show ?case by (blast intro: runs.runs_snoc simulates runs_inv)
qed (rule runs.runs_nil)

end

subsection \<open>The abstract log\<close>

record log =
  lg_entries :: "ScopeID \<Rightarrow> episode_row list"
  lg_last :: "ScopeID \<Rightarrow> int"

definition log_empty :: log where
  "log_empty = \<lparr>lg_entries = (\<lambda>_. []), lg_last = (\<lambda>_. 0)\<rparr>"

definition log_add :: "EpisodeID list \<Rightarrow> NewEpisode list \<Rightarrow> log \<Rightarrow> log" where
  "log_add ids eps l =
     (let sc = ne_Scope (hd eps); new = map2 (\<lambda>k (i, ep). new_episode_row i sc (lg_last l sc + int k + 1) ep) [0..<length eps] (zip ids eps)
      in l\<lparr>lg_entries := (lg_entries l)(sc := lg_entries l sc @ new), lg_last := (lg_last l)(sc := lg_last l sc + int (length eps))\<rparr>)"

definition log_erase :: "ForgetRequest \<Rightarrow> log \<Rightarrow> log" where
  "log_erase req l =
     (if fr_Episodes req = [] then l\<lparr>lg_entries := (lg_entries l)(fr_Scope req := []), lg_last := (lg_last l)(fr_Scope req := 0)\<rparr>
      else l\<lparr>lg_entries := (lg_entries l)(fr_Scope req := filter (\<lambda>r. er_id r \<notin> set (fr_Episodes req)) (lg_entries l (fr_Scope req)))\<rparr>)"

inductive log_step :: "store_op \<Rightarrow> log \<Rightarrow> log \<Rightarrow> bool" where
  log_append: "ac_Episodes cmd \<noteq> [] \<Longrightarrow> length ids = length (ac_Episodes cmd) \<Longrightarrow> distinct ids \<Longrightarrow>
    (\<forall>sc. set ids \<inter> er_id ` set (lg_entries l sc) = {}) \<Longrightarrow> log_step (OpAppend cmd) l (log_add ids (ac_Episodes cmd) l)"
| log_forget: "log_step (OpForget req) l (log_erase req l)"
| log_other: "(\<And>cmd. act \<noteq> OpAppend cmd) \<Longrightarrow> (\<And>req. act \<noteq> OpForget req) \<Longrightarrow> log_step act l l"

definition abs_log :: "db \<Rightarrow> log" where
  "abs_log d = \<lparr>lg_entries = (\<lambda>sc. sort_by (le_key er_seq) (filter (\<lambda>r. er_scope r = sc) (episodes d))), lg_last = scope_last_seq d\<rparr>"

subsection \<open>Every step keeps the database well formed\<close>

lemmas step_invs = PutEncoding_inv Enqueue_inv Lease_inv Succeed_inv Fail_inv Reclaim_inv Retry_inv Purge_inv ApplyExtraction_inv Forget_inv

lemma store_step_inv:
  assumes "store_step text_ok coll act d d'" "db_inv d"
  shows "db_inv d'"
  using assms(1)
proof cases
  case (do_Append mint_e mint_j cmd res)
  show ?thesis by (rule Append_inv[OF assms(2) do_Append(3,2)])
qed (blast intro: step_invs[OF assms(2)])+

subsection \<open>The simulation\<close>

lemma entries_key:
  assumes "db_inv d"
  shows "inj_on er_seq (set (filter (\<lambda>r. er_scope r = sc) (episodes d)))"
proof -
  have "inj_on (\<lambda>r. (er_scope r, er_seq r)) (set (episodes d))"
    using assms by (simp add: db_inv_def episodes_ok_def distinct_map)
  then show ?thesis by (auto simp: inj_on_def)
qed

text \<open>With distinct numbers there is one sorted arrangement.\<close>

lemma sorted_by_seq_unique:
  assumes "inj_on er_seq (set xs)" "mset ys = mset xs" "sorted_wrt (le_key er_seq) ys"
  shows "sort_by (le_key er_seq) xs = ys"
proof -
  have "sort_by (le_key er_seq) xs = sort_by (le_key er_seq) ys"
    by (rule by_seq.sort_by_perm) (use assms(1,2) in \<open>auto simp: le_key_def inj_on_def\<close>)
  also have "\<dots> = ys" by (rule by_seq.sort_by_sorted[OF assms(3)])
  finally show ?thesis .
qed

lemma entries_filter:
  assumes "db_inv d"
  shows "sort_by (le_key er_seq) (filter P (filter (\<lambda>r. er_scope r = sc) (episodes d)))
    = filter P (sort_by (le_key er_seq) (filter (\<lambda>r. er_scope r = sc) (episodes d)))"
proof (rule sorted_by_seq_unique)
  show "inj_on er_seq (set (filter P (filter (\<lambda>r. er_scope r = sc) (episodes d))))"
    by (rule inj_on_subset[OF entries_key[OF assms, of sc]]) auto
  show "mset (filter P (sort_by (le_key er_seq) (filter (\<lambda>r. er_scope r = sc) (episodes d)))) = mset (filter P (filter (\<lambda>r. er_scope r = sc) (episodes d)))"
    by (simp only: mset_filter mset_sort_by)
  show "sorted_wrt (le_key er_seq) (filter P (sort_by (le_key er_seq) (filter (\<lambda>r. er_scope r = sc) (episodes d))))"
    by (rule sorted_wrt_filter[OF by_seq.sorted_sort_by])
qed

lemma entries_append:
  assumes "db_inv d" "db_inv d'" "episodes d' = episodes d @ append_rows mint_e sc (scope_last_seq d sc) eps"
  shows "sort_by (le_key er_seq) (filter (\<lambda>r. er_scope r = s) (episodes d')) =
    (if s = sc then sort_by (le_key er_seq) (filter (\<lambda>r. er_scope r = sc) (episodes d)) @ append_rows mint_e sc (scope_last_seq d sc) eps
     else sort_by (le_key er_seq) (filter (\<lambda>r. er_scope r = s) (episodes d)))"
proof -
  let ?new = "append_rows mint_e sc (scope_last_seq d sc) eps"
  have own: "filter (\<lambda>r. er_scope r = s) ?new = (if s = sc then ?new else [])"
    using in_append_rows[of _ mint_e sc "scope_last_seq d sc" eps] by (auto intro!: filter_True filter_False)
  show ?thesis
  proof (cases "s = sc")
    case True
    have "le_key er_seq r q" if "r \<in> set (episodes d)" "er_scope r = sc" "q \<in> set ?new" for r q
      using seq_le_last[OF assms(1) that(1)] that(2) in_append_rows[OF that(3)] by (auto simp: le_key_def)
    then have "sorted_wrt (le_key er_seq) (sort_by (le_key er_seq) (filter (\<lambda>r. er_scope r = sc) (episodes d)) @ ?new)"
      by (auto simp: sorted_wrt_append by_seq.sorted_sort_by append_rows_sorted)
    moreover have "filter (\<lambda>r. er_scope r = sc) (episodes d') = filter (\<lambda>r. er_scope r = sc) (episodes d) @ ?new"
      using own True by (simp only: assms(3) filter_append if_True simp_thms)
    ultimately have "sort_by (le_key er_seq) (filter (\<lambda>r. er_scope r = sc) (episodes d')) = sort_by (le_key er_seq) (filter (\<lambda>r. er_scope r = sc) (episodes d)) @ ?new"
      using entries_key[OF assms(2), of sc] by (intro sorted_by_seq_unique) simp_all
    then show ?thesis using True by simp
  qed (simp add: assms(3) own)
qed

lemma last_seq_upsert:
  assumes "scopes d' = upsert_scope sc n ts (scopes d)"
  shows "scope_last_seq d' s = (if s = sc then scope_last_seq d sc + n else scope_last_seq d s)"
proof (cases "sc \<in> sc_id ` set (scopes d)")
  case True
  then obtain r where r: "find (\<lambda>r. sc_id r = sc) (scopes d) = Some r" by (cases "find (\<lambda>r. sc_id r = sc) (scopes d)") (auto simp: find_None_iff)
  have upd: "find (\<lambda>r. sc_id r = s) (update_where (\<lambda>r. sc_id r = sc) (\<lambda>r. r\<lparr>sc_last_seq := sc_last_seq r + n\<rparr>) rows)
      = map_option (\<lambda>r. if s = sc then r\<lparr>sc_last_seq := sc_last_seq r + n\<rparr> else r) (find (\<lambda>r. sc_id r = s) rows)" for rows
    by (induction rows) (auto simp: update_where_def)
  have "scopes d' = update_where (\<lambda>r. sc_id r = sc) (\<lambda>r. r\<lparr>sc_last_seq := sc_last_seq r + n\<rparr>) (scopes d)"
    unfolding assms upsert_scope_def using True by (rule if_P)
  then have "scope_last_seq d' s = (case map_option (\<lambda>r. if s = sc then r\<lparr>sc_last_seq := sc_last_seq r + n\<rparr> else r) (find (\<lambda>r. sc_id r = s) (scopes d)) of None \<Rightarrow> 0 | Some r \<Rightarrow> sc_last_seq r)"
    by (simp only: scope_last_seq_def upd)
  also have "\<dots> = (if s = sc then scope_last_seq d sc + n else scope_last_seq d s)"
    using r by (cases "find (\<lambda>r. sc_id r = s) (scopes d)") (auto simp: scope_last_seq_def)
  finally show ?thesis .
next
  case False
  then have none: "find (\<lambda>r. sc_id r = sc) (scopes d) = None" by (auto simp: find_None_iff)
  have snoc: "find (\<lambda>r. sc_id r = s) (rows @ [x]) = (case find (\<lambda>r. sc_id r = s) rows of None \<Rightarrow> if sc_id x = s then Some x else None | Some r \<Rightarrow> Some r)" for rows and x :: scope_row
    by (induction rows) auto
  have "scopes d' = scopes d @ [\<lparr>sc_id = sc, sc_last_seq = n, sc_created_at = ts\<rparr>]"
    unfolding assms upsert_scope_def using False by (rule if_not_P)
  then show ?thesis using none by (cases "find (\<lambda>r. sc_id r = s) (scopes d)") (auto simp: scope_last_seq_def snoc)
qed

lemma append_rows_zip:
  "append_rows mint_e sc base eps = map2 (\<lambda>k (i, ep). new_episode_row i sc (base + int k + 1) ep) [0..<length eps] (zip (map mint_e [0..<length eps]) eps)"
  by (rule nth_equalityI) (simp_all add: append_rows_def)

lemma append_simulates:
  assumes inv: "db_inv d" and ok: "Append text_ok mint_e mint_j cmd d = Inr (res, d')" and len: "length (ac_Episodes cmd) < 2 ^ 31"
  shows "log_step (OpAppend cmd) (abs_log d) (abs_log d')"
proof -
  let ?eps = "ac_Episodes cmd" and ?sc = "ne_Scope (hd (ac_Episodes cmd))" and ?ids = "map mint_e [0..<length (ac_Episodes cmd)]"
  have inv': "db_inv d'" by (rule Append_inv[OF inv len ok])
  obtain rows js where A: "appendSQL text_ok mint_e mint_j ?sc (int (length ?eps)) (ne_IngestedAt (hd ?eps)) ?eps (ac_Jobs cmd) d = Inr ((rows, js), d')"
    using Append_Inr(2)[OF ok] len by auto
  have d': "d' = append_db mint_e mint_j ?sc (int (length ?eps)) (ne_IngestedAt (hd ?eps)) ?eps (ac_Jobs cmd) d" by (rule appendSQL_Inr(4)[OF A])
  have eps': "episodes d' = episodes d @ append_rows mint_e ?sc (scope_last_seq d ?sc) ?eps" and sc': "scopes d' = upsert_scope ?sc (int (length ?eps)) (instant (ne_IngestedAt (hd ?eps))) (scopes d)"
    by (simp_all add: d' append_db_def Let_def)
  have ids: "distinct (map er_id (episodes d) @ ?ids)"
    using inv' eps' er_id_append_rows[of mint_e ?sc "scope_last_seq d ?sc" ?eps] by (simp add: db_inv_def episodes_ok_def)
  have "abs_log d' = log_add ?ids ?eps (abs_log d)"
    using entries_append[OF inv inv' eps'] last_seq_upsert[OF sc']
    by (simp add: abs_log_def log_add_def Let_def fun_eq_iff append_rows_zip)
  moreover have "set ?ids \<inter> er_id ` set (lg_entries (abs_log d) sc) = {}" for sc
    using ids by (auto simp: abs_log_def)
  ultimately show ?thesis using log_append[of cmd ?ids "abs_log d"] ids validateAppend_None(1)[OF Append_Inr(1)[OF ok]] by simp
qed

lemma forget_simulates:
  assumes "db_inv d"
  shows "abs_log (erased req d) = log_erase req (abs_log d)"
proof -
  have eps: "filter (\<lambda>r. er_scope r = sc) (episodes (erased req d)) = filter (\<lambda>r. \<not> covers_episode req r) (filter (\<lambda>r. er_scope r = sc) (episodes d))" for sc
    by (simp add: delete_where_def conj_commute)
  have "lg_entries (abs_log (erased req d)) sc = filter (\<lambda>r. \<not> covers_episode req r) (lg_entries (abs_log d) sc)" for sc
    unfolding abs_log_def log.simps eps by (rule entries_filter[OF assms])
  moreover have "filter (\<lambda>r. \<not> covers_episode req r) (lg_entries (abs_log d) sc) = lg_entries (log_erase req (abs_log d)) sc" for sc
  proof -
    have "er_scope r = sc" if "r \<in> set (lg_entries (abs_log d) sc)" for r using that by (auto simp: abs_log_def)
    then show ?thesis by (cases "sc = fr_Scope req") (auto simp: log_erase_def covers_episode_def filter_empty_conv intro!: filter_cong filter_True)
  qed
  moreover have "lg_last (abs_log (erased req d)) sc = lg_last (log_erase req (abs_log d)) sc" for sc
  proof -
    have "find (\<lambda>r. sc_id r = sc) (delete_where (covers_scope req) rows) = (if fr_Episodes req = [] \<and> sc = fr_Scope req then None else find (\<lambda>r. sc_id r = sc) rows)" for rows
      by (induction rows) (auto simp: delete_where_def covers_scope_def)
    then show ?thesis by (simp add: abs_log_def log_erase_def scope_last_seq_def)
  qed
  ultimately show ?thesis by (intro log.equality) (simp_all add: fun_eq_iff)
qed

lemma jobs_only_same_log: "d' = d\<lparr>jobs := js\<rparr> \<Longrightarrow> same_log d d'"
  by (simp add: same_log_def)

lemma Enqueue_same_log:
  assumes "Enqueue text_ok mint job now d = Inr (j, d')"
  shows "same_log d d'"
  by (rule Enqueue_Inr[OF assms]) (auto simp: enqueueSQL_def stmt_def same_log_def split: option.splits if_splits)

lemma Retry_same_log: "Retry i now d = Inr (j, d') \<Longrightarrow> same_log d d'"
  by (auto simp: Retry_def same_log_def split: if_splits option.splits sum.splits)

lemma Purge_same_log: "Purge req d = Inr (n, d') \<Longrightarrow> same_log d d'"
  by (auto simp: Purge_def Let_def same_log_def split: if_splits option.splits)

lemma abs_log_same: "same_log d d' \<Longrightarrow> abs_log d' = abs_log d"
  by (simp add: same_log_def abs_log_def scope_last_seq_def fun_eq_iff)

definition served :: "nat \<Rightarrow> db \<Rightarrow> bool" where
  "served dims d \<longleftrightarrow> db_inv d \<and> db_ready d \<and> db_dims d = dims"

lemma served_empty: "served dims (empty_db dims)"
  by (simp add: served_def db_inv_empty) (simp add: empty_db_def)

text \<open>Every step, read once for all: what it does to the log, and that the store stays in service.\<close>

lemma store_step_cases3:
  assumes "store_step text_ok coll act d d'" "db_inv d"
  obtains mint_e mint_j cmd res where "act = OpAppend cmd" "Append text_ok mint_e mint_j cmd d = Inr (res, d')" "length (ac_Episodes cmd) < 2 ^ 31"
    | req where "act = OpForget req" "d' = erased req d"
    | "\<And>cmd. act \<noteq> OpAppend cmd" "\<And>req. act \<noteq> OpForget req" "same_log d d'"
  using assms(1)
proof cases
  case (do_Forget freq fres)
  then show thesis using that(2) Forget_Inr(2)[OF assms(2)] by blast
next
  case (do_PutEncoding enc u)
  then show thesis using that(3) PutEncoding_frame(1) by blast
next
  case (do_ApplyExtraction mint xcmd fs)
  then show thesis using that(3) ApplyExtraction_frame(1)[OF assms(2)] by blast
next
  case (do_Lease locked lreq js)
  then show thesis using that(3) jobs_only_same_log[OF Lease_Inr] by blast
next
  case (do_Succeed i w t u)
  then show thesis using that(3) jobs_only_same_log[OF Succeed_Inr(1)] by blast
next
  case (do_Fail i w cause t retryAt u)
  then show thesis using that(3) jobs_only_same_log[OF Fail_Inr(1)] by blast
next
  case (do_Reclaim now n)
  then show thesis using that(3) jobs_only_same_log[OF Reclaim_Inr(1)] by blast
next
  case (do_Enqueue mint job now j)
  then show thesis using that(3) Enqueue_same_log by blast
next
  case (do_Retry i now j)
  then show thesis using that(3) Retry_same_log by blast
next
  case (do_Purge preq n)
  then show thesis using that(3) Purge_same_log by blast
next
  case (do_Append mint_e mint_j cmd res)
  then show thesis using that(1) by blast
qed

lemma store_step_served:
  assumes "served dims d" "store_step text_ok coll act d d'"
  shows "served dims d'"
proof -
  have inv: "db_inv d" "db_ready d" "db_dims d = dims" using assms(1) by (auto simp: served_def)
  have "db_ready d' \<and> db_dims d' = dims"
    using assms(2) inv(1)
  proof (cases rule: store_step_cases3)
    case 1
    then show ?thesis using Append_prefix(6,7) inv(3) by metis
  qed (use inv in \<open>simp_all add: same_log_def\<close>)
  then show ?thesis using store_step_inv[OF assms(2) inv(1)] by (simp add: served_def)
qed

lemma store_step_simulates:
  assumes "served dims d" "store_step text_ok coll act d d'"
  shows "log_step act (abs_log d) (abs_log d')"
proof -
  have inv: "db_inv d" using assms(1) by (auto simp: served_def)
  from assms(2) inv show ?thesis
  proof (cases rule: store_step_cases3)
    case 1
    then show ?thesis using append_simulates[OF inv] by simp
  next
    case 2
    then show ?thesis using forget_simulates[OF inv] log_forget by simp
  next
    case 3
    then show ?thesis using abs_log_same log_other by metis
  qed
qed

interpretation pg_log: simulation "store_step text_ok coll" log_step "served dims" abs_log
  by unfold_locales (blast intro: store_step_served store_step_simulates)+

lemma abs_log_empty: "abs_log (empty_db dims) = log_empty"
  by (simp add: abs_log_def log_empty_def empty_db_def scope_last_seq_def fun_eq_iff)

lemma Replay_reads_log:
  assumes "served dims d"
  shows "Replay scope afterSeq limit d =
    (case first_err [ScopeID_Validate scope, reject_if (afterSeq < 0) ErrInvalidConfig, reject_if (limit \<le> 0) ErrInvalidConfig] of
       Some e \<Rightarrow> Inl e
     | None \<Rightarrow> traverse scanEpisode (take (nat limit) (filter (\<lambda>r. afterSeq < er_seq r) (lg_entries (abs_log d) scope))))"
proof -
  have d: "db_inv d" "db_ready d" using assms by (auto simp: served_def)
  have "filter (\<lambda>r. er_scope r = scope \<and> afterSeq < er_seq r) (episodes d) = filter (\<lambda>r. afterSeq < er_seq r) (filter (\<lambda>r. er_scope r = scope) (episodes d))"
    by (simp add: conj_commute)
  then show ?thesis using entries_filter[OF d(1), of "\<lambda>r. afterSeq < er_seq r" scope] d(2)
    by (simp add: Replay_def abs_log_def del: first_err_None cong: option.case_cong)
qed

lemma log_strict:
  assumes "db_inv d"
  shows "sorted_wrt (\<lambda>r s. er_seq r < er_seq s) (lg_entries (abs_log d) sc)" "\<forall>r \<in> set (lg_entries (abs_log d) sc). er_seq r \<le> lg_last (abs_log d) sc"
proof -
  let ?xs = "lg_entries (abs_log d) sc"
  have sorted: "sorted_wrt (le_key er_seq) ?xs" by (simp add: abs_log_def by_seq.sorted_sort_by)
  have "mset ?xs = mset (filter (\<lambda>r. er_scope r = sc) (episodes d))" by (simp add: abs_log_def)
  moreover have "distinct (map er_seq (filter (\<lambda>r. er_scope r = sc) (episodes d)))"
    using assms entries_key[OF assms, of sc] by (auto simp: distinct_map db_inv_def episodes_ok_def)
  ultimately have "distinct (map er_seq ?xs)" by (metis mset_eq_imp_distinct_iff mset_map)
  then show "sorted_wrt (\<lambda>r s. er_seq r < er_seq s) ?xs"
    using sorted by (auto simp: sorted_wrt_iff_nth_less le_key_def distinct_conv_nth) (metis less_irrefl nless_le order.strict_trans)
  show "\<forall>r \<in> set ?xs. er_seq r \<le> lg_last (abs_log d) sc" using seq_le_last[OF assms] by (auto simp: abs_log_def)
qed

text \<open>
  C6. Every database the store can reach is well formed. Starting from a freshly migrated database, after any sequence of appends, encodings, enqueues, leases, completions, failures, reclaims, retries, purges, extractions and erasures,
  with whatever arguments and generated ids, every row passes the checks of its table, keys are unique, every reference points at a row of the same scope, windows of one claim do not overlap, and every stored vector has the declared width.
\<close>

theorem reachable_well_formed:
  assumes "runs (store_step text_ok coll) os (empty_db dims) d"
  shows "db_inv d \<and> db_ready d \<and> db_dims d = dims"
  using pg_log.runs_inv[OF assms served_empty] by (simp add: served_def)

text \<open>
  C5. The store refines an append-only log. Any sequence of store operations from a freshly migrated database is, seen through \<open>abs_log\<close>, the same sequence of
  operations on the abstract log: an append adds its episodes at the end of its scope, numbered on from the last number of that scope and under new ids; an erasure takes out exactly what it names
  (a whole scope starts again from nothing); every other operation leaves the log alone. Entries are numbered strictly upwards, and \<open>Replay\<close> reads exactly the entries after the position it is given.
\<close>

theorem store_refines_log:
  assumes "runs (store_step text_ok coll) os (empty_db dims) d"
  shows "runs log_step os log_empty (abs_log d)
    \<and> (\<forall>sc. sorted_wrt (\<lambda>r s. er_seq r < er_seq s) (lg_entries (abs_log d) sc) \<and> (\<forall>r \<in> set (lg_entries (abs_log d) sc). er_seq r \<le> lg_last (abs_log d) sc))
    \<and> (\<forall>scope afterSeq limit. ScopeID_Validate scope = None \<and> 0 \<le> afterSeq \<and> 0 < limit \<longrightarrow>
         Replay scope afterSeq limit d = traverse scanEpisode (take (nat limit) (filter (\<lambda>r. afterSeq < er_seq r) (lg_entries (abs_log d) scope))))"
proof (intro conjI allI impI)
  have served: "served dims d" by (rule pg_log.runs_inv[OF assms served_empty])
  show "runs log_step os log_empty (abs_log d)" using pg_log.runs_refine[OF assms served_empty] by (simp add: abs_log_empty)
  show "sorted_wrt (\<lambda>r s. er_seq r < er_seq s) (lg_entries (abs_log d) sc)" "\<forall>r \<in> set (lg_entries (abs_log d) sc). er_seq r \<le> lg_last (abs_log d) sc" for sc
    using log_strict served by (auto simp: served_def)
  show "Replay scope afterSeq limit d = traverse scanEpisode (take (nat limit) (filter (\<lambda>r. afterSeq < er_seq r) (lg_entries (abs_log d) scope)))"
    if "ScopeID_Validate scope = None \<and> 0 \<le> afterSeq \<and> 0 < limit" for scope afterSeq limit
    using that by (simp add: Replay_reads_log[OF served])
qed

text \<open>A run: the two sample episodes are appended, then their scope is erased.\<close>

lemma sample_run: "\<exists>d. runs (store_step ValidString coll) [OpAppend sample_command, OpForget \<lparr>fr_Scope = ''user:1'', fr_Episodes = []\<rparr>] (empty_db 3) d"
proof -
  obtain res d where ap: "Append ValidString (\<lambda>k. of_nat k + 1) (\<lambda>k. of_nat k + 9) sample_command (empty_db 3) = Inr (res, d)"
    using Append_ok[OF sample_valid db_inv_empty sample_admissible] by blast
  have len: "length (ac_Episodes sample_command) < 2 ^ 31" by (simp add: sample_command_def)
  have d: "db_inv d" "db_ready d" using Append_inv[OF db_inv_empty len ap] Append_prefix(7)[OF ap] by auto
  have "ForgetRequest_Validate \<lparr>fr_Scope = ''user:1'', fr_Episodes = []\<rparr> = None"
    by (simp add: ForgetRequest_Validate_def ScopeID_Validate_None limit_defs ascii_simps)
  from Forget_eq[OF d this] obtain r d' where "Forget \<lparr>fr_Scope = ''user:1'', fr_Episodes = []\<rparr> d = Inr (r, d')" by blast
  then have "runs (store_step ValidString coll) (([] @ [OpAppend sample_command]) @ [OpForget \<lparr>fr_Scope = ''user:1'', fr_Episodes = []\<rparr>]) (empty_db 3) d'"
    using runs.runs_snoc[where step = "store_step ValidString coll"] runs.runs_nil do_Append[OF ap len] do_Forget by metis
  then show ?thesis by auto
qed

theorem reachable_well_formed_witness:
  "\<exists>d. runs (store_step ValidString (\<le>)) [OpAppend sample_command, OpForget \<lparr>fr_Scope = ''user:1'', fr_Episodes = []\<rparr>] (empty_db 3) d \<and> db_inv d \<and> db_dims d = 3"
  using sample_run reachable_well_formed by blast

theorem store_refines_log_witness:
  "\<exists>d. runs log_step [OpAppend sample_command, OpForget \<lparr>fr_Scope = ''user:1'', fr_Episodes = []\<rparr>] log_empty (abs_log d)"
  using sample_run store_refines_log by blast

end
