(* ===== verification/Http.thy ===== *)
theory Http
  imports Extract
begin

section \<open>HTTP and JSON as the provider adapters use them\<close>

text \<open>
  What the three adapters (\<^verbatim>\<open>embed/openai\<close>, \<^verbatim>\<open>extract/openai\<close>, \<^verbatim>\<open>extract/anthropic\<close>) share of Go's library. An HTTP client is a
  function of the request and of a state \<open>'s\<close>, as the other models behind the ports are: it answers with a status
  and a body, or fails (a malformed URL, a refused connection, a cancelled context, a body that cannot be read).
\<close>

record http_request =
  hq_URL :: string
  hq_Header :: "(string \<times> string) list"
  hq_Body :: string

type_synonym 's http = "http_request \<Rightarrow> 's \<Rightarrow> err + int \<times> string"

definition StatusOK :: int where "StatusOK = 200"

text \<open>\<^verbatim>\<open>strings.TrimSuffix(base, "/")\<close>: one trailing slash at most.\<close>

definition TrimSlash :: "string \<Rightarrow> string" where
  "TrimSlash s = (if s \<noteq> [] \<and> last s = CHR ''/'' then butlast s else s)"

definition bearer :: "string \<Rightarrow> (string \<times> string) list" where
  "bearer key = (''Content-Type'', ''application/json'') # (if key \<noteq> '''' then [(''Authorization'', ''Bearer '' @ key)] else [])"

text \<open>A JSON document; the keys of an object are distinct.\<close>

datatype json = JNull | JBool bool | JNum rat | JStr string | JArr "json list" | JObj "(string \<times> json) list"

definition json_put :: "string \<Rightarrow> json \<Rightarrow> (string \<times> json) list \<Rightarrow> (string \<times> json) list" where
  "json_put k v kvs = (if k \<in> fst ` set kvs then map (\<lambda>(k', v'). (k', if k' = k then v else v')) kvs else kvs @ [(k, v)])"

lemma map_of_json_put: "map_of (json_put k v kvs) = (map_of kvs)(k \<mapsto> v)"
proof (cases "k \<in> fst ` set kvs")
  case True
  have "map_of (map (\<lambda>(k', v'). (k', if k' = k then v else v')) kvs) x = (if x = k then map_option (\<lambda>_. v) (map_of kvs k) else map_of kvs x)" for x
    by (induction kvs) auto
  moreover obtain w where "map_of kvs k = Some w" using True by (cases "map_of kvs k") (auto simp: map_of_eq_None_iff)
  ultimately show ?thesis using True by (auto simp: json_put_def)
next
  case False
  then have "map_of kvs k = None" by (simp add: map_of_eq_None_iff)
  with False show ?thesis by (auto simp: json_put_def map_add_def fun_eq_iff split: option.splits)
qed

lemma keys_json_put: "set (map fst (json_put k v kvs)) = insert k (set (map fst kvs))"
  by (force simp: json_put_def)

end
