(* ===== verification/Embed_OpenAI.thy ===== *)
theory Embed_OpenAI
  imports Http
begin

section \<open>The embeddings adapter\<close>

text \<open>
  \<^verbatim>\<open>embed/openai/openai.go\<close>: an \<open>Embedder\<close> over an embeddings endpoint. Parameters: the HTTP client, the JSON codec of
  the request and the reply, the hash behind the model id and the environment variable. The lemmas show that what it returns has one vector per text, each
  of the declared width, whatever the endpoint answers; that over an endpoint that labels its
  answers properly every text gets its own vector in whatever order they arrive; and that a reply
  that repeats a label is accepted as it is.
\<close>

definition embed_DefaultBaseURL :: string where "embed_DefaultBaseURL = ''https://api.openai.com/v1''"
definition DefaultMaxBatch :: int where "DefaultMaxBatch = 64"

record EmbedConfig =
  ec_Model :: string
  ec_Dimensions :: int
  ec_RequestDimensions :: bool
  ec_QueryPrefix :: string
  ec_BaseURL :: string
  ec_APIKey :: string
  ec_MaxBatch :: int

record embeddingsRequest =
  eq_Model :: string
  eq_Input :: "string list"
  eq_Dimensions :: int

record embedding_item =
  ei_Index :: int
  ei_Embedding :: Vector

record embeddingsResponse =
  ew_Data :: "embedding_item list"
  ew_Error :: "(string \<times> string) option"

record embed_codec =
  ek_Marshal :: "embeddingsRequest \<Rightarrow> string option"
  ek_Unmarshal :: "string \<Rightarrow> embeddingsResponse option"
  ek_sha256 :: "string \<Rightarrow> string"

record 's HTTPEmbedder =
  oe_client :: "'s http"
  oe_url :: string
  oe_apiKey :: string
  oe_model :: string
  oe_id :: ModelID
  oe_dimensions :: int
  oe_sendDims :: bool
  oe_queryPrefix :: string
  oe_maxBatch :: int

definition embed_id :: "embed_codec \<Rightarrow> EmbedConfig \<Rightarrow> ModelID" where
  "embed_id k cfg = ec_Model cfg @ (if ec_QueryPrefix cfg \<noteq> '''' then ''+q:'' @ take 8 (ek_sha256 k (ec_QueryPrefix cfg)) else '''')"

definition Embed_New :: "embed_codec \<Rightarrow> string \<Rightarrow> 's http \<Rightarrow> EmbedConfig \<Rightarrow> err + 's HTTPEmbedder" where
  "Embed_New k env client cfg =
     (case first_err [reject_if (ec_Model cfg = '''') ErrInvalidConfig, reject_if (ec_Dimensions cfg \<le> 0) ErrInvalidConfig,
                      reject_if (ec_MaxBatch cfg < 0) ErrInvalidConfig] of
        Some e \<Rightarrow> Inl e
      | None \<Rightarrow>
          Inr \<lparr>oe_client = client,
               oe_url = TrimSlash (if ec_BaseURL cfg = '''' then embed_DefaultBaseURL else ec_BaseURL cfg) @ ''/embeddings'',
               oe_apiKey = (if ec_APIKey cfg = '''' then env else ec_APIKey cfg),
               oe_model = ec_Model cfg, oe_id = embed_id k cfg, oe_dimensions = ec_Dimensions cfg,
               oe_sendDims = ec_RequestDimensions cfg, oe_queryPrefix = ec_QueryPrefix cfg,
               oe_maxBatch = (if ec_MaxBatch cfg = 0 then DefaultMaxBatch else ec_MaxBatch cfg)\<rparr>)"

text \<open>The comparison of the sort is a 64-bit difference. Go leaves the order of equal indexes open; here they keep theirs, as a short slice does.\<close>

definition index_le :: "embedding_item \<Rightarrow> embedding_item \<Rightarrow> bool" where
  "index_le a b \<longleftrightarrow> int64_of (ei_Index a - ei_Index b) \<le> 0"

definition embed_item :: "int \<Rightarrow> embedding_item \<Rightarrow> err + Vector" where
  "embed_item dims item = (if int (length (ei_Embedding item)) \<noteq> dims then Inl ErrDimensionMismatch else Inr (ei_Embedding item))"

definition embed_request :: "'s HTTPEmbedder \<Rightarrow> string list \<Rightarrow> embeddingsRequest" where
  "embed_request e texts = \<lparr>eq_Model = oe_model e, eq_Input = texts, eq_Dimensions = (if oe_sendDims e then oe_dimensions e else 0)\<rparr>"

definition embed_post :: "embed_codec \<Rightarrow> 's HTTPEmbedder \<Rightarrow> string list \<Rightarrow> 's \<Rightarrow> err + Vector list" where
  "embed_post k e texts s =
     (case ek_Marshal k (embed_request e texts) of None \<Rightarrow> Inl (Foreign ''json'') | Some body \<Rightarrow>
      case oe_client e \<lparr>hq_URL = oe_url e, hq_Header = bearer (oe_apiKey e), hq_Body = body\<rparr> s of Inl err \<Rightarrow> Inl err
      | Inr (status, raw) \<Rightarrow>
          if status \<noteq> StatusOK then Inl (Foreign ''status'')
          else case ek_Unmarshal k raw of None \<Rightarrow> Inl (Foreign ''json'')
          | Some parsed \<Rightarrow>
              if ew_Error parsed \<noteq> None then Inl (Foreign ''provider'')
              else if length (ew_Data parsed) \<noteq> length texts then Inl (Foreign ''count'')
              else traverse (embed_item (oe_dimensions e)) (sort_by index_le (ew_Data parsed)))"

text \<open>The loop over the chunks; \<open>Embed_New\<close> never makes the chunk size zero.\<close>

function embed_loop :: "(string list \<Rightarrow> err + Vector list) \<Rightarrow> nat \<Rightarrow> string list \<Rightarrow> Vector list \<Rightarrow> err + Vector list" where
  "embed_loop post k texts out =
     (if texts = [] \<or> k = 0 then Inr out
      else case post (take k texts) of Inl e \<Rightarrow> Inl e | Inr vs \<Rightarrow> embed_loop post k (drop k texts) (out @ vs))"
  by auto
termination by (relation "measure (\<lambda>(post, k, texts, out). length texts)") auto

declare embed_loop.simps [simp del]

definition HTTP_EmbedDocuments :: "embed_codec \<Rightarrow> 's HTTPEmbedder \<Rightarrow> string list \<Rightarrow> 's \<Rightarrow> err + Vector list" where
  "HTTP_EmbedDocuments k e texts s =
     (if length texts = 0 then Inr [] else embed_loop (\<lambda>ts. embed_post k e ts s) (nat (oe_maxBatch e)) texts [])"

definition HTTP_EmbedQuery :: "embed_codec \<Rightarrow> 's HTTPEmbedder \<Rightarrow> string \<Rightarrow> 's \<Rightarrow> err + Vector" where
  "HTTP_EmbedQuery k e text s =
     (case embed_post k e [oe_queryPrefix e @ text] s of Inl err \<Rightarrow> Inl err | Inr vs \<Rightarrow> Inr (vs ! 0))"

text \<open>The port it fills.\<close>

definition http_embedder :: "embed_codec \<Rightarrow> 's HTTPEmbedder \<Rightarrow> 's Embedder" where
  "http_embedder k e =
     \<lparr>em_EmbedDocuments = HTTP_EmbedDocuments k e, em_EmbedQuery = HTTP_EmbedQuery k e, em_Dimensions = oe_dimensions e, em_Model = oe_id e\<rparr>"

subsection \<open>The contract of an embedder\<close>

lemma embed_post_Inr:
  assumes "embed_post k e texts s = Inr vs"
  shows "length vs = length texts" "\<forall>v \<in> set vs. int (length v) = oe_dimensions e"
proof -
  obtain xs where xs: "length xs = length texts" "traverse (embed_item (oe_dimensions e)) (sort_by index_le xs) = Inr vs"
    using assms by (auto simp: embed_post_def split: option.splits sum.splits if_splits)
  show "length vs = length texts" using traverse_length[OF xs(2)] xs(1) by simp
  show "\<forall>v \<in> set vs. int (length v) = oe_dimensions e" using traverse_set[OF xs(2)] by (auto simp: embed_item_def split: if_splits)
qed

lemma embed_loop_Inr:
  assumes "embed_loop post k texts out = Inr vs" "0 < k" "\<And>ts us. post ts = Inr us \<Longrightarrow> length us = length ts \<and> (\<forall>v \<in> set us. P v)"
  shows "\<exists>us. vs = out @ us \<and> length us = length texts \<and> (\<forall>v \<in> set us. P v)"
  using assms(1)
proof (induction texts arbitrary: out rule: length_induct)
  case (1 texts)
  show ?case
  proof (cases "texts = []")
    case True
    then show ?thesis using "1.prems" by (simp add: embed_loop.simps)
  next
    case False
    then obtain us where us: "post (take k texts) = Inr us" "embed_loop post k (drop k texts) (out @ us) = Inr vs"
      using "1.prems" assms(2) by (subst (asm) embed_loop.simps) (auto split: sum.splits)
    have "length (drop k texts) < length texts" using False assms(2) by simp
    then obtain ws where "vs = (out @ us) @ ws" "length ws = length (drop k texts)" "\<forall>v \<in> set ws. P v" using "1.IH" us(2) by blast
    then show ?thesis using assms(3)[OF us(1)] by (intro exI[of _ "us @ ws"]) auto
  qed
qed

lemma embed_loop_map:
  assumes "\<And>ts. length ts \<le> length texts \<Longrightarrow> post ts = Inr (map f ts)" "0 < k"
  shows "embed_loop post k texts out = Inr (out @ map f texts)"
  using assms(1)
proof (induction texts arbitrary: out rule: length_induct)
  case (1 texts)
  show ?case
  proof (cases "texts = []")
    case False
    have "length (drop k texts) < length texts" using False assms(2) by simp
    then have "embed_loop post k (drop k texts) (out @ map f (take k texts)) = Inr ((out @ map f (take k texts)) @ map f (drop k texts))"
      using "1.IH" "1.prems" by simp
    moreover have "map f (take k texts) @ map f (drop k texts) = map f texts" by (metis append_take_drop_id map_append)
    ultimately show ?thesis using "1.prems"[of "take k texts"] False assms(2) by (subst embed_loop.simps) simp
  qed (simp add: embed_loop.simps)
qed

lemma New_maxBatch:
  assumes "Embed_New k env client cfg = Inr e"
  shows "0 < oe_maxBatch e" "0 < oe_dimensions e" "oe_dimensions e = ec_Dimensions cfg" "oe_queryPrefix e = ec_QueryPrefix cfg"
  using assms by (auto simp: Embed_New_def DefaultMaxBatch_def split: option.splits)

lemma sort_by_cong_on:
  assumes "\<And>x y. x \<in> set xs \<Longrightarrow> y \<in> set xs \<Longrightarrow> le x y = le' x y"
  shows "sort_by le xs = sort_by le' xs"
proof -
  have ins: "insert_by le x ys = insert_by le' x ys" if "\<And>y. y \<in> set ys \<Longrightarrow> le x y = le' x y" for x ys
    using that by (induction ys) auto
  show ?thesis using assms
  proof (induction xs)
    case (Cons a xs)
    have "sort_by le xs = sort_by le' xs" by (rule Cons.IH) (use Cons.prems in auto)
    moreover have "insert_by le a (sort_by le' xs) = insert_by le' a (sort_by le' xs)" by (rule ins) (use Cons.prems in auto)
    ultimately show ?case by simp
  qed simp
qed

definition labelled :: "Vector list \<Rightarrow> embedding_item list" where
  "labelled vs = map (\<lambda>i. \<lparr>ei_Index = int i, ei_Embedding = vs ! i\<rparr>) [0..<length vs]"

lemma sort_labelled:
  assumes "mset xs = mset (labelled vs)" "length vs < 2 ^ 63"
  shows "sort_by index_le xs = labelled vs"
proof -
  have mem: "x \<in> set xs \<longleftrightarrow> x \<in> set (labelled vs)" for x using assms(1) by (metis set_mset_mset)
  have le: "index_le x y = le_key ei_Index x y" if "x \<in> set xs" "y \<in> set xs" for x y
    using that assms(2) unfolding mem index_le_def le_key_def labelled_def by (subst int64_of_id) auto
  have "sort_by index_le xs = sort_by (le_key ei_Index) xs" by (rule sort_by_cong_on[OF le])
  also have "\<dots> = sort_by (le_key ei_Index) (labelled vs)"
    by (rule total_preorder.sort_by_perm[OF total_preorder_le_key assms(1)]) (auto simp: mem labelled_def le_key_def)
  also have "\<dots> = labelled vs"
    by (rule total_preorder.sort_by_sorted[OF total_preorder_le_key]) (auto simp: labelled_def le_key_def sorted_wrt_iff_nth_less)
  finally show ?thesis .
qed

text \<open>An endpoint that keeps its promise: each text gets its vector, labelled with the position of the text, in any order.\<close>

definition serves :: "embed_codec \<Rightarrow> 's HTTPEmbedder \<Rightarrow> (string \<Rightarrow> Vector) \<Rightarrow> 's \<Rightarrow> string list \<Rightarrow> bool" where
  "serves k e emb s texts \<longleftrightarrow>
     (\<exists>body raw reply. ek_Marshal k (embed_request e texts) = Some body
        \<and> oe_client e \<lparr>hq_URL = oe_url e, hq_Header = bearer (oe_apiKey e), hq_Body = body\<rparr> s = Inr (StatusOK, raw)
        \<and> ek_Unmarshal k raw = Some reply \<and> ew_Error reply = None \<and> mset (ew_Data reply) = mset (labelled (map emb texts)))"

lemma embed_post_serves:
  assumes "serves k e emb s texts" "length texts < 2 ^ 63" "\<And>t. int (length (emb t)) = oe_dimensions e"
  shows "embed_post k e texts s = Inr (map emb texts)"
proof -
  obtain body raw reply where r: "ek_Marshal k (embed_request e texts) = Some body"
    "oe_client e \<lparr>hq_URL = oe_url e, hq_Header = bearer (oe_apiKey e), hq_Body = body\<rparr> s = Inr (StatusOK, raw)"
    "ek_Unmarshal k raw = Some reply" "ew_Error reply = None" "mset (ew_Data reply) = mset (labelled (map emb texts))"
    using assms(1) by (auto simp: serves_def)
  have len: "length (ew_Data reply) = length texts" using arg_cong[OF r(5), of size] by (simp add: labelled_def)
  have "traverse (embed_item (oe_dimensions e)) (labelled (map emb texts)) = Inr (map ei_Embedding (labelled (map emb texts)))"
    by (rule traverse_Inr) (use assms(3) in \<open>auto simp: labelled_def embed_item_def\<close>)
  moreover have "map ei_Embedding (labelled (map emb texts)) = map emb texts" by (rule nth_equalityI) (simp_all add: labelled_def)
  ultimately show ?thesis using r len sort_labelled[OF r(5)] assms(2) by (simp add: embed_post_def)
qed

text \<open>
  C20. The embeddings adapter keeps the contract of an embedder. Whatever the endpoint answers, a successful call returns one vector per text and every vector
  has the declared width. Over an endpoint that answers each request with the vectors of its texts, labelled by
  position and in any order, every text gets its own vector, in order, however the texts are split into requests, and a query is embedded with its prefix.
\<close>

theorem EmbedDocuments_contract:
  assumes new: "Embed_New k env client cfg = Inr e"
  shows "(\<forall>vs. HTTP_EmbedDocuments k e texts s = Inr vs \<longrightarrow> length vs = length texts \<and> (\<forall>v \<in> set vs. int (length v) = ec_Dimensions cfg))
    \<and> (length texts < 2 ^ 63 \<and> (\<forall>ts. length ts \<le> max 1 (length texts) \<longrightarrow> serves k e emb s ts) \<and> (\<forall>t. int (length (emb t)) = ec_Dimensions cfg) \<longrightarrow>
         HTTP_EmbedDocuments k e texts s = Inr (map emb texts) \<and> HTTP_EmbedQuery k e q s = Inr (emb (ec_QueryPrefix cfg @ q)))"
proof (intro conjI allI impI)
  note N = New_maxBatch[OF new]
  fix vs assume vs: "HTTP_EmbedDocuments k e texts s = Inr vs"
  have "\<exists>us. vs = [] @ us \<and> length us = length texts \<and> (\<forall>v \<in> set us. int (length v) = oe_dimensions e)" if "texts \<noteq> []"
    by (rule embed_loop_Inr[where k = "nat (oe_maxBatch e)"]) (use vs that N(1) in \<open>auto simp: HTTP_EmbedDocuments_def dest: embed_post_Inr\<close>)
  then show "length vs = length texts" "\<forall>v \<in> set vs. int (length v) = ec_Dimensions cfg"
    using vs N(3) by (cases "texts = []"; force simp: HTTP_EmbedDocuments_def)+
next
  note N = New_maxBatch[OF new]
  assume h: "length texts < 2 ^ 63 \<and> (\<forall>ts. length ts \<le> max 1 (length texts) \<longrightarrow> serves k e emb s ts) \<and> (\<forall>t. int (length (emb t)) = ec_Dimensions cfg)"
  have post: "embed_post k e ts s = Inr (map emb ts)" if "length ts \<le> max 1 (length texts)" for ts
    by (rule embed_post_serves) (use h that N(3) in auto)
  show "HTTP_EmbedDocuments k e texts s = Inr (map emb texts)"
    using embed_loop_map[of texts "\<lambda>ts. embed_post k e ts s" emb "nat (oe_maxBatch e)" "[]"] post N(1) by (cases texts) (simp_all add: HTTP_EmbedDocuments_def)
  show "HTTP_EmbedQuery k e q s = Inr (emb (ec_QueryPrefix cfg @ q))" using post[of "[oe_queryPrefix e @ q]"] N(4) by (simp add: HTTP_EmbedQuery_def)
qed

text \<open>A concrete endpoint: a text becomes its length, and the answers come back in reverse order.\<close>

fun letter_counts :: "nat \<Rightarrow> string \<Rightarrow> nat list" where
  "letter_counts n [] = []"
| "letter_counts n (c # cs) = (if c = CHR '';'' then n # letter_counts 0 cs else letter_counts (Suc n) cs)"

lemma letter_counts_replicate: "letter_counts n (replicate m CHR ''x'' @ CHR '';'' # rest) = (n + m) # letter_counts 0 rest"
  by (induction m arbitrary: n) simp_all

definition sample_codec :: embed_codec where
  "sample_codec =
     \<lparr>ek_Marshal = (\<lambda>q. Some (concat (map (\<lambda>t. replicate (length t) CHR ''x'' @ '';'') (eq_Input q)))),
      ek_Unmarshal = (\<lambda>raw. Some \<lparr>ew_Data = rev (labelled (map (\<lambda>n. [Fin (of_nat n)]) (letter_counts 0 raw))), ew_Error = None\<rparr>),
      ek_sha256 = (\<lambda>s. s)\<rparr>"

definition sample_http_embedder :: "unit HTTPEmbedder" where
  "sample_http_embedder =
     \<lparr>oe_client = (\<lambda>q _. Inr (StatusOK, hq_Body q)), oe_url = ''http://localhost/embeddings'', oe_apiKey = '''', oe_model = ''m'', oe_id = ''m+q:?'', oe_dimensions = 1,
      oe_sendDims = False, oe_queryPrefix = ''?'', oe_maxBatch = 2\<rparr>"

definition sample_embed_config :: EmbedConfig where
  "sample_embed_config =
     \<lparr>ec_Model = ''m'', ec_Dimensions = 1, ec_RequestDimensions = False, ec_QueryPrefix = ''?'', ec_BaseURL = ''http://localhost/'', ec_APIKey = '''', ec_MaxBatch = 2\<rparr>"

lemma sample_new: "Embed_New sample_codec '''' (\<lambda>q _. Inr (StatusOK, hq_Body q)) sample_embed_config = Inr sample_http_embedder"
  by (simp add: Embed_New_def sample_embed_config_def sample_http_embedder_def embed_id_def sample_codec_def TrimSlash_def)

lemma sample_serves: "serves sample_codec sample_http_embedder (\<lambda>t. [Fin (of_nat (length t))]) () ts"
proof -
  have "letter_counts 0 (concat (map (\<lambda>t. replicate (length t) CHR ''x'' @ '';'') ts)) = map length ts"
    by (induction ts) (simp_all add: letter_counts_replicate)
  then show ?thesis by (simp add: serves_def sample_codec_def sample_http_embedder_def embed_request_def o_def)
qed

theorem EmbedDocuments_contract_witness:
  "HTTP_EmbedDocuments sample_codec sample_http_embedder [''a'', ''bcd'', ''''] () = Inr [[Fin 1], [Fin 3], [Fin 0]]
   \<and> HTTP_EmbedQuery sample_codec sample_http_embedder ''q'' () = Inr [Fin 2]"
  using EmbedDocuments_contract[OF sample_new, of "[''a'', ''bcd'', '''']" "()" "\<lambda>t. [Fin (of_nat (length t))]" "''q''"] sample_serves
  by (simp add: sample_embed_config_def)

text \<open>A reply that labels both vectors alike is not refused: the vectors are handed out in the order they came.\<close>

lemma repeated_index_accepted:
  assumes "ek_Marshal k (embed_request e [t, u]) = Some body" "oe_client e \<lparr>hq_URL = oe_url e, hq_Header = bearer (oe_apiKey e), hq_Body = body\<rparr> s = Inr (StatusOK, raw)"
    "ek_Unmarshal k raw = Some \<lparr>ew_Data = [\<lparr>ei_Index = i, ei_Embedding = v\<rparr>, \<lparr>ei_Index = i, ei_Embedding = w\<rparr>], ew_Error = None\<rparr>"
    "int (length v) = oe_dimensions e" "int (length w) = oe_dimensions e"
  shows "embed_post k e [t, u] s = Inr [v, w]"
  using assms by (simp add: embed_post_def index_le_def embed_item_def)

end
