(* ===== verification/Test_Doubles.thy ===== *)
theory Test_Doubles
  imports Ports Go_Time "HOL-Library.Word" "HOL-Library.Sublist"
begin

unbundle bit_operations_syntax

section \<open>Test doubles\<close>

text \<open>
  \<^verbatim>\<open>memphertest/clock.go\<close>, \<^verbatim>\<open>memphertest/embedder.go\<close> and \<^verbatim>\<open>memphertest/extractor.go\<close>: the clock, embedder and extractor the tests and the example run on. Each is
  an object whose methods change it, under a lock; a method takes the object and returns it changed. A constructor that panics returns \<open>None\<close>.
  Parameters: case folding and splitting at everything that is neither letter nor digit (Unicode tables), and the rounding and square root of
  floating-point arithmetic. The lemmas show that an embedding depends only on the multiset of words, and exactly which facts
  the rules of the extractor assert and retract.
\<close>

subsection \<open>The clock\<close>

record FakeClock =
  ck_now :: gotime

definition NewClock :: "gotime \<Rightarrow> FakeClock" where
  "NewClock start = \<lparr>ck_now = start\<rparr>"

definition Clock_Now :: "FakeClock \<Rightarrow> gotime \<times> FakeClock" where
  "Clock_Now c = (ck_now c, c)"

definition Clock_Advance :: "int \<Rightarrow> FakeClock \<Rightarrow> gotime \<times> FakeClock" where
  "Clock_Advance d c = (let c' = c\<lparr>ck_now := time_Add (ck_now c) d\<rparr> in (ck_now c', c'))"

definition Clock_Set :: "gotime \<Rightarrow> FakeClock \<Rightarrow> FakeClock" where
  "Clock_Set t c = c\<lparr>ck_now := t\<rparr>"

subsection \<open>The embedder\<close>

record double_lib =
  dl_ToLower :: "string \<Rightarrow> string"
  dl_Fields :: "string \<Rightarrow> string list"
  dl_rnd32 :: "rat \<Rightarrow> rat"
  dl_rnd64 :: "rat \<Rightarrow> rat"
  dl_Sqrt :: "rat \<Rightarrow> rat"

record HashEmbedder =
  he_dims :: nat
  he_model :: ModelID
  he_failure :: "err option"
  he_calls :: nat

definition NewEmbedder :: "int \<Rightarrow> HashEmbedder option" where
  "NewEmbedder dims =
     (if dims \<le> 0 then None else Some \<lparr>he_dims = nat dims, he_model = ''memphertest/hashed-bow@'' @ Itoa dims, he_failure = None, he_calls = 0\<rparr>)"

definition tokenize :: "double_lib \<Rightarrow> string \<Rightarrow> string list" where
  "tokenize lib s = dl_Fields lib (dl_ToLower lib s)"

text \<open>\<^verbatim>\<open>hash/fnv\<close>: the 64-bit FNV-1a hash, which wraps.\<close>

definition fnv64a :: "string \<Rightarrow> 64 word" where
  "fnv64a s = foldl (\<lambda>h c. (h XOR of_nat (of_char c)) * 1099511628211) 14695981039346656037 s"

definition bump_token :: "double_lib \<Rightarrow> nat \<Rightarrow> rat list \<Rightarrow> string \<Rightarrow> rat list" where
  "bump_token lib dims vec token =
     (let hash = fnv64a token; idx = unat hash mod dims in
      if bit hash 63 then vec[idx := dl_rnd32 lib (vec ! idx - 1)] else vec[idx := dl_rnd32 lib (vec ! idx + 1)])"

definition vec_norm :: "double_lib \<Rightarrow> rat list \<Rightarrow> rat" where
  "vec_norm lib vec = foldl (\<lambda>norm v. dl_rnd64 lib (norm + dl_rnd64 lib (v * v))) 0 vec"

definition hash_embed :: "double_lib \<Rightarrow> HashEmbedder \<Rightarrow> string \<Rightarrow> Vector" where
  "hash_embed lib e s =
     (let vec = foldl (bump_token lib (he_dims e)) (replicate (he_dims e) 0) (tokenize lib s); norm = vec_norm lib vec in
      if norm = 0 then map Fin vec else map (\<lambda>v. Fin (dl_rnd32 lib (dl_rnd64 lib (v / dl_Sqrt lib norm)))) vec)"

definition begin_call :: "err option \<Rightarrow> HashEmbedder \<Rightarrow> err option \<times> HashEmbedder" where
  "begin_call ctx e =
     (case ctx of Some c \<Rightarrow> (Some c, e) | None \<Rightarrow> let e' = e\<lparr>he_calls := he_calls e + 1\<rparr> in (he_failure e', e'))"

definition Hash_EmbedDocuments :: "double_lib \<Rightarrow> err option \<Rightarrow> string list \<Rightarrow> HashEmbedder \<Rightarrow> (err + Vector list) \<times> HashEmbedder" where
  "Hash_EmbedDocuments lib ctx texts e =
     (case begin_call ctx e of (Some c, e') \<Rightarrow> (Inl c, e') | (None, e') \<Rightarrow> (Inr (map (hash_embed lib e') texts), e'))"

definition Hash_EmbedQuery :: "double_lib \<Rightarrow> err option \<Rightarrow> string \<Rightarrow> HashEmbedder \<Rightarrow> (err + Vector) \<times> HashEmbedder" where
  "Hash_EmbedQuery lib ctx query e =
     (case begin_call ctx e of (Some c, e') \<Rightarrow> (Inl c, e') | (None, e') \<Rightarrow> (Inr (hash_embed lib e' query), e'))"

definition Embedder_Fail :: "err option \<Rightarrow> HashEmbedder \<Rightarrow> HashEmbedder" where
  "Embedder_Fail f e = e\<lparr>he_failure := f\<rparr>"

text \<open>The port, over the object as it is when it is called: only the number of calls changes, which no answer depends on.\<close>

definition hash_embedder :: "double_lib \<Rightarrow> err option \<Rightarrow> HashEmbedder \<Rightarrow> 's Embedder" where
  "hash_embedder lib ctx e =
     \<lparr>em_EmbedDocuments = (\<lambda>texts s. fst (Hash_EmbedDocuments lib ctx texts e)), em_EmbedQuery = (\<lambda>query s. fst (Hash_EmbedQuery lib ctx query e)),
      em_Dimensions = int (he_dims e), em_Model = he_model e\<rparr>"

subsection \<open>The extractor\<close>

record Rule =
  ru_Match :: string
  ru_Assert :: Assertion
  ru_Replaces :: bool

record RuleExtractor =
  re_id :: ExtractorID
  re_rules :: "Rule list"
  re_failure :: "err option"
  re_calls :: nat

definition NewExtractor :: RuleExtractor where
  "NewExtractor = \<lparr>re_id = ''memphertest/rules'', re_rules = [], re_failure = None, re_calls = 0\<rparr>"

definition WithID :: "ExtractorID \<Rightarrow> RuleExtractor \<Rightarrow> RuleExtractor option" where
  "WithID i e = (if i = '''' then None else Some \<lparr>re_id = i, re_rules = re_rules e, re_failure = None, re_calls = 0\<rparr>)"

definition On :: "Rule list \<Rightarrow> RuleExtractor \<Rightarrow> RuleExtractor" where
  "On rules e = e\<lparr>re_rules := re_rules e @ rules\<rparr>"

definition Extractor_Fail :: "err option \<Rightarrow> RuleExtractor \<Rightarrow> RuleExtractor" where
  "Extractor_Fail f e = e\<lparr>re_failure := f\<rparr>"

text \<open>\<^verbatim>\<open>strings.Contains\<close>.\<close>

fun strings_Contains :: "string \<Rightarrow> string \<Rightarrow> bool" where
  "strings_Contains s sub = (take (length sub) s = sub \<or> (case s of [] \<Rightarrow> False | _ # t \<Rightarrow> strings_Contains t sub))"

declare strings_Contains.simps [simp del]

type_synonym extract_acc = "Assertion list \<times> Retraction list \<times> FactID set"

fun retract_known :: "Assertion \<Rightarrow> Fact list \<Rightarrow> Retraction list \<times> FactID set \<Rightarrow> Retraction list \<times> FactID set" where
  "retract_known a [] acc = acc"
| "retract_known a (known # rest) (out, retracted) =
     (if f_Subject known \<noteq> a_Subject a \<or> f_Predicate known \<noteq> a_Predicate a \<or> f_Object known = a_Object a then retract_known a rest (out, retracted)
      else if f_ID known \<in> retracted then retract_known a rest (out, retracted)
      else retract_known a rest (out @ [\<lparr>r_Fact = f_ID known, r_At = v_From (a_Valid a)\<rparr>], insert (f_ID known) retracted))"

definition rule_assertion :: "Episode \<Rightarrow> Rule \<Rightarrow> Assertion" where
  "rule_assertion episode rule =
     (let a = ru_Assert rule in if IsZero (v_From (a_Valid a)) then a\<lparr>a_Valid := (a_Valid a)\<lparr>v_From := ep_OccurredAt episode\<rparr>\<rparr> else a)"

fun apply_rules :: "double_lib \<Rightarrow> Fact list \<Rightarrow> Episode \<Rightarrow> Rule list \<Rightarrow> extract_acc \<Rightarrow> extract_acc" where
  "apply_rules lib known episode [] acc = acc"
| "apply_rules lib known episode (rule # rules) (asserted, out, retracted) =
     (if \<not> strings_Contains (dl_ToLower lib (ep_Content episode)) (dl_ToLower lib (ru_Match rule))
      then apply_rules lib known episode rules (asserted, out, retracted)
      else let a = rule_assertion episode rule in
        if \<not> ru_Replaces rule then apply_rules lib known episode rules (asserted @ [a], out, retracted)
        else apply_rules lib known episode rules (asserted @ [a], retract_known a known (out, retracted)))"

fun apply_episodes :: "double_lib \<Rightarrow> Fact list \<Rightarrow> Rule list \<Rightarrow> Episode list \<Rightarrow> extract_acc \<Rightarrow> extract_acc" where
  "apply_episodes lib known rules [] acc = acc"
| "apply_episodes lib known rules (episode # rest) acc = apply_episodes lib known rules rest (apply_rules lib known episode rules acc)"

definition Rule_Extract :: "double_lib \<Rightarrow> err option \<Rightarrow> ExtractRequest \<Rightarrow> RuleExtractor \<Rightarrow> (err + ExtractResult) \<times> RuleExtractor" where
  "Rule_Extract lib ctx req e =
     (case ctx of Some c \<Rightarrow> (Inl c, e) | None \<Rightarrow>
      let e' = e\<lparr>re_calls := re_calls e + 1\<rparr> in
      case re_failure e' of Some f \<Rightarrow> (Inl f, e')
      | None \<Rightarrow>
          let (asserted, out, _) = apply_episodes lib (xr_Known req) (re_rules e') (xr_Episodes req) ([], [], {})
          in (Inr \<lparr>xs_Assert = asserted, xs_Retract = out\<rparr>, e'))"

definition rule_extractor :: "double_lib \<Rightarrow> err option \<Rightarrow> RuleExtractor \<Rightarrow> 's Extractor" where
  "rule_extractor lib ctx e = \<lparr>ex_Extract = (\<lambda>req s. fst (Rule_Extract lib ctx req e)), ex_Model = re_id e\<rparr>"

subsection \<open>A bag of words\<close>

definition token_sign :: "nat \<Rightarrow> nat \<Rightarrow> string \<Rightarrow> int" where
  "token_sign dims i token = (if unat (fnv64a token) mod dims \<noteq> i then 0 else if bit (fnv64a token) 63 then -1 else 1)"

text \<open>Small whole numbers are floating-point values: a \<^verbatim>\<open>float32\<close> holds every whole number up to \<open>2 ^ 24\<close>.\<close>

definition exact_up_to :: "nat \<Rightarrow> (rat \<Rightarrow> rat) \<Rightarrow> bool" where
  "exact_up_to n rnd \<longleftrightarrow> (\<forall>k. \<bar>k\<bar> \<le> int n \<longrightarrow> rnd (of_int k) = of_int k)"

lemma token_sign_bound: "\<bar>token_sign dims i token\<bar> \<le> 1"
  by (simp add: token_sign_def)

lemma sum_signs_bound: "\<bar>\<Sum>t\<leftarrow>ts. token_sign dims i t\<bar> \<le> int (length ts)"
proof (induction ts)
  case (Cons t ts)
  then show ?case using token_sign_bound[of dims i t] by simp
qed simp

lemma length_bump [simp]: "length (bump_token lib dims vec t) = length vec"
  by (simp add: bump_token_def Let_def)

lemma length_bumps [simp]: "length (foldl (bump_token lib dims) vec ts) = length vec"
  by (induction ts arbitrary: vec) simp_all

lemma bump_nth:
  assumes "length vec = dims" "i < dims" "\<forall>j < dims. \<exists>k. vec ! j = of_int k \<and> \<bar>k\<bar> < int n" "exact_up_to n (dl_rnd32 lib)"
  shows "bump_token lib dims vec t ! i = vec ! i + of_int (token_sign dims i t)"
proof -
  let ?j = "unat (fnv64a t) mod dims"
  obtain k where k: "vec ! ?j = of_int k" "\<bar>k\<bar> < int n" using assms(2,3) mod_less_divisor[of dims] by (metis gr0I not_less_zero)
  have "dl_rnd32 lib (vec ! ?j + of_int d) = vec ! ?j + of_int d" if "\<bar>d\<bar> \<le> 1" for d
  proof -
    have "\<bar>k + d\<bar> \<le> int n" using k(2) that by linarith
    then show ?thesis using assms(4) k(1) unfolding exact_up_to_def by (metis of_int_add)
  qed
  from this[of 1] this[of "-1"] show ?thesis using assms(1,2) by (auto simp: bump_token_def token_sign_def Let_def nth_list_update)
qed

lemma bumps_nth:
  assumes "exact_up_to n (dl_rnd32 lib)" "length ts \<le> n" "i < dims"
  shows "foldl (bump_token lib dims) (replicate dims 0) ts ! i = of_int (\<Sum>t\<leftarrow>ts. token_sign dims i t)"
  using assms(2,3)
proof (induction ts arbitrary: i rule: rev_induct)
  case (snoc t ts)
  let ?vec = "foldl (bump_token lib dims) (replicate dims 0) ts"
  have "\<exists>k. ?vec ! j = of_int k \<and> \<bar>k\<bar> < int n" if "j < dims" for j
    using snoc.IH[OF _ that] snoc.prems(1) sum_signs_bound[of dims j ts] by (intro exI[of _ "\<Sum>t\<leftarrow>ts. token_sign dims j t"]) simp
  then have "bump_token lib dims ?vec t ! i = ?vec ! i + of_int (token_sign dims i t)" using snoc.prems assms(1) by (intro bump_nth) auto
  then show ?case using snoc by simp
qed simp

lemma length_hash_embed: "length (hash_embed lib e s) = he_dims e"
  by (simp add: hash_embed_def Let_def)

text \<open>
  The deterministic embedder is a bag of words: a vector has the declared width, and two texts with the same words, in any order, get the same vector,
  as long as a text has no more words than the whole numbers a \<^verbatim>\<open>float32\<close> represents exactly.
\<close>

theorem embed_bag_of_words:
  assumes "exact_up_to n (dl_rnd32 lib)" "mset (tokenize lib s) = mset (tokenize lib t)" "length (tokenize lib s) \<le> n"
  shows "hash_embed lib e s = hash_embed lib e t \<and> length (hash_embed lib e s) = he_dims e"
proof -
  have len: "length (tokenize lib t) \<le> n" using assms(2,3) by (metis mset_eq_length)
  have "(\<Sum>x\<leftarrow>tokenize lib s. token_sign (he_dims e) i x) = (\<Sum>x\<leftarrow>tokenize lib t. token_sign (he_dims e) i x)" for i
    using assms(2) by (metis mset_map sum_mset_sum_list)
  then have "foldl (bump_token lib (he_dims e)) (replicate (he_dims e) 0) (tokenize lib s) = foldl (bump_token lib (he_dims e)) (replicate (he_dims e) 0) (tokenize lib t)"
    by (intro nth_equalityI) (simp_all add: bumps_nth[OF assms(1,3)] bumps_nth[OF assms(1) len])
  then have "hash_embed lib e s = hash_embed lib e t" by (simp add: hash_embed_def)
  then show ?thesis using length_hash_embed by metis
qed

definition sample_double_lib :: double_lib where
  "sample_double_lib =
     \<lparr>dl_ToLower = \<lambda>s. s, dl_Fields = (\<lambda>s. map (\<lambda>c. [c]) (filter (\<lambda>c. c \<noteq> CHR '' '') s)), dl_rnd32 = \<lambda>x. x, dl_rnd64 = \<lambda>x. x, dl_Sqrt = \<lambda>x. x\<rparr>"

definition sample_hash_embedder :: HashEmbedder where
  "sample_hash_embedder = \<lparr>he_dims = 3, he_model = ''m'', he_failure = None, he_calls = 0\<rparr>"

theorem embed_bag_of_words_witness:
  "hash_embed sample_double_lib sample_hash_embedder ''a b'' = hash_embed sample_double_lib sample_hash_embedder ''b a''
   \<and> length (hash_embed sample_double_lib sample_hash_embedder ''a b'') = 3"
proof -
  have "exact_up_to 2 (dl_rnd32 sample_double_lib)" by (simp add: exact_up_to_def sample_double_lib_def)
  moreover have "mset (tokenize sample_double_lib ''a b'') = mset (tokenize sample_double_lib ''b a'')" "length (tokenize sample_double_lib ''a b'') \<le> 2"
    by (simp_all add: tokenize_def sample_double_lib_def)
  ultimately have "hash_embed sample_double_lib sample_hash_embedder ''a b'' = hash_embed sample_double_lib sample_hash_embedder ''b a''
     \<and> length (hash_embed sample_double_lib sample_hash_embedder ''a b'') = he_dims sample_hash_embedder"
    by (rule embed_bag_of_words)
  moreover have "he_dims sample_hash_embedder = 3" by (simp add: sample_hash_embedder_def)
  ultimately show ?thesis by metis
qed

subsection \<open>What the rules find\<close>

lemma strings_Contains_sublist: "strings_Contains s sub \<longleftrightarrow> sublist sub s"
proof (induction s)
  case Nil
  then show ?case by (auto simp: strings_Contains.simps)
next
  case (Cons c s)
  have "take (length sub) (c # s) = sub \<longleftrightarrow> prefix sub (c # s)" by (metis append_eq_conv_conj prefix_def)
  then show ?case using Cons by (subst strings_Contains.simps) (simp add: sublist_Cons_right)
qed

text \<open>The assertions the rules make, in order, each with whether it replaces what it contradicts.\<close>

definition firings :: "double_lib \<Rightarrow> Rule list \<Rightarrow> Episode list \<Rightarrow> (Assertion \<times> bool) list" where
  "firings lib rules eps =
     concat (map (\<lambda>ep. map (\<lambda>rule. (rule_assertion ep rule, ru_Replaces rule))
       (filter (\<lambda>rule. sublist (dl_ToLower lib (ru_Match rule)) (dl_ToLower lib (ep_Content ep))) rules)) eps)"

definition contradicted_by :: "Fact \<Rightarrow> Assertion \<times> bool \<Rightarrow> bool" where
  "contradicted_by f x \<longleftrightarrow> snd x \<and> f_Subject f = a_Subject (fst x) \<and> f_Predicate f = a_Predicate (fst x) \<and> f_Object f \<noteq> a_Object (fst x)"

definition fire :: "Fact list \<Rightarrow> extract_acc \<Rightarrow> Assertion \<times> bool \<Rightarrow> extract_acc" where
  "fire known acc x =
     (let (asserted, rest) = acc in (asserted @ [fst x], if snd x then retract_known (fst x) known rest else rest))"

lemma apply_rules_fire:
  "apply_rules lib known ep rules acc = foldl (fire known) acc (firings lib rules [ep])"
  by (induction lib known ep rules acc rule: apply_rules.induct) (simp_all add: firings_def fire_def strings_Contains_sublist Let_def)

lemma apply_episodes_fire:
  "apply_episodes lib known rules eps acc = foldl (fire known) acc (firings lib rules eps)"
proof (induction eps arbitrary: acc)
  case (Cons ep eps)
  have "firings lib rules (ep # eps) = firings lib rules [ep] @ firings lib rules eps" by (simp add: firings_def)
  then show ?case using Cons by (simp add: apply_rules_fire)
qed (simp add: firings_def)

lemma retract_known_eq:
  assumes "distinct (map f_ID known)"
  shows "retract_known a known (out, retracted) =
    (out @ map (\<lambda>f. \<lparr>r_Fact = f_ID f, r_At = v_From (a_Valid a)\<rparr>) (filter (\<lambda>f. contradicted_by f (a, True) \<and> f_ID f \<notin> retracted) known),
     retracted \<union> f_ID ` {f \<in> set known. contradicted_by f (a, True)})"
  using assms
proof (induction known arbitrary: out retracted)
  case (Cons f known)
  have "f_ID g \<noteq> f_ID f" if "g \<in> set known" for g using Cons.prems that by (metis distinct.simps(2) image_eqI list.set_map list.simps(9))
  then have "filter (\<lambda>g. contradicted_by g (a, True) \<and> f_ID g \<noteq> f_ID f \<and> f_ID g \<notin> retracted) known = filter (\<lambda>g. contradicted_by g (a, True) \<and> f_ID g \<notin> retracted) known"
    by (intro filter_cong) auto
  then show ?case using Cons by (auto simp: contradicted_by_def)
qed simp

lemma fires_eq:
  assumes "distinct (map f_ID known)"
  shows "foldl (fire known) ([], [], {}) xs = (asserted, out, retracted) \<Longrightarrow>
    asserted = map fst xs \<and> distinct (map r_Fact out) \<and> retracted = set (map r_Fact out) \<and> set (map r_Fact out) \<subseteq> f_ID ` set known
    \<and> (\<forall>f \<in> set known. \<forall>t. \<lparr>r_Fact = f_ID f, r_At = t\<rparr> \<in> set out \<longleftrightarrow> (\<exists>x. find (contradicted_by f) xs = Some x \<and> t = v_From (a_Valid (fst x))))"
proof (induction xs arbitrary: asserted out retracted rule: rev_induct)
  case (snoc x xs)
  obtain as1 out1 ret1 where p: "foldl (fire known) ([], [], {}) xs = (as1, out1, ret1)" by (metis prod_cases3)
  note IH = snoc.IH[OF p]
  have step: "fire known (as1, out1, ret1) x = (asserted, out, retracted)" using snoc.prems p by simp
  have fa: "find P (xs @ [x]) = (case find P xs of None \<Rightarrow> if P x then Some x else None | Some y \<Rightarrow> Some y)" for P and x :: "Assertion \<times> bool"
    by (induction xs) auto
  show ?case
  proof (cases "snd x")
    case False
    then have "\<not> contradicted_by f x" for f by (simp add: contradicted_by_def)
    then have "find (contradicted_by f) (xs @ [x]) = find (contradicted_by f) xs" for f by (simp add: fa split: option.split)
    then show ?thesis using step IH False by (auto simp: fire_def)
  next
    case True
    then have x: "(fst x, True) = x" by (metis prod.collapse)
    let ?new = "filter (\<lambda>f. contradicted_by f x \<and> f_ID f \<notin> ret1) known"
    have out: "out = out1 @ map (\<lambda>f. \<lparr>r_Fact = f_ID f, r_At = v_From (a_Valid (fst x))\<rparr>) ?new" "asserted = as1 @ [fst x]"
      "retracted = ret1 \<union> f_ID ` {f \<in> set known. contradicted_by f x}"
      using step True retract_known_eq[OF assms, of "fst x" out1 ret1] x by (simp_all add: fire_def)
    have inj: "f = g" if "f \<in> set known" "g \<in> set known" "f_ID f = f_ID g" for f g using assms that by (meson distinct_map inj_onD)
    have dn: "distinct (map f_ID ?new)" using assms by (simp add: distinct_map_filter)
    have dist: "distinct (map r_Fact out)" using IH dn by (auto simp: out o_def) (metis image_eqI)
    have seen: "find (contradicted_by f) xs = None \<longleftrightarrow> f_ID f \<notin> ret1" if "f \<in> set known" for f
    proof -
      have "f_ID f \<in> ret1 \<longleftrightarrow> (\<exists>t. \<lparr>r_Fact = f_ID f, r_At = t\<rparr> \<in> set out1)"
        using IH by (auto simp: image_iff) (metis Retraction.surjective old.unit.exhaust, metis Retraction.select_convs(1))
      then show ?thesis using IH that by (cases "find (contradicted_by f) xs") auto
    qed
    have "\<lparr>r_Fact = f_ID f, r_At = t\<rparr> \<in> set out \<longleftrightarrow> (\<exists>y. find (contradicted_by f) (xs @ [x]) = Some y \<and> t = v_From (a_Valid (fst y)))"
      if f: "f \<in> set known" for f t
    proof -
      have "\<lparr>r_Fact = f_ID f, r_At = t\<rparr> \<in> set out \<longleftrightarrow>
          \<lparr>r_Fact = f_ID f, r_At = t\<rparr> \<in> set out1 \<or> (contradicted_by f x \<and> f_ID f \<notin> ret1 \<and> t = v_From (a_Valid (fst x)))"
        using f inj by (auto simp: out)
      then show ?thesis using IH f seen[OF f] unfolding fa by (cases "find (contradicted_by f) xs"; cases x) auto
    qed
    then show ?thesis using IH dist out by auto
  qed
qed simp


definition sample_rule :: "string \<Rightarrow> string \<Rightarrow> Rule" where
  "sample_rule found city =
     \<lparr>ru_Match = found,
      ru_Assert = \<lparr>a_Subject = ''user'', a_Predicate = ''lives_in'', a_Object = city, a_Statement = city, a_Valid = \<lparr>v_From = zero_time, v_To = zero_time\<rparr>, a_Confidence = Fin 1\<rparr>, ru_Replaces = True\<rparr>"

definition sample_move :: ExtractRequest where
  "sample_move =
     \<lparr>xr_Scope = ''s'',
      xr_Episodes = [\<lparr>ep_ID = 2, ep_Scope = ''s'', ep_Seq = 2, ep_Content = ''now in berlin'', ep_Role = ''user'', ep_Actor = '''', ep_Source = '''',
        ep_OccurredAt = Time 60 0, ep_IngestedAt = Time 61 0, ep_Binding = []\<rparr>],
      xr_Known = [\<lparr>f_ID = 7, f_Scope = ''s'', f_Extractor = ''memphertest/rules'', f_Subject = ''user'', f_Predicate = ''lives_in'', f_Object = ''Paris'',
        f_Statement = ''Paris'', f_Valid = \<lparr>v_From = Time 50 0, v_To = zero_time\<rparr>, f_Confidence = Fin 1, f_Episodes = [1], f_AssertedAt = Time 51 0, f_UpdatedAt = Time 51 0\<rparr>], xr_Now = Time 99 0\<rparr>"

definition sample_rules :: RuleExtractor where
  "sample_rules = On [sample_rule ''paris'' ''Paris'', sample_rule ''berlin'' ''Berlin''] NewExtractor"


end
