(* ===== verification/Embedders.thy ===== *)
theory Embedders
  imports Worker Embed_OpenAI Test_Doubles
begin

section \<open>What a worker relies on of an embedder\<close>

text \<open>
  The contract of the \<open>Embedder\<close> port: as many vectors as texts, each of the declared width. The embeddings adapter and the deterministic embedder both provide it, and the
  worker's \<open>encode\<close> is proved once against it.
\<close>

locale embedder_kind =
  fixes made :: "'e \<Rightarrow> bool" and port :: "'e \<Rightarrow> 's Embedder"
  assumes documents: "made e \<Longrightarrow> em_EmbedDocuments (port e) texts s = Inr vs \<Longrightarrow> length vs = length texts \<and> (\<forall>v \<in> set vs. int (length v) = em_Dimensions (port e))"
    and query: "made e \<Longrightarrow> em_EmbedQuery (port e) q s = Inr v \<Longrightarrow> int (length v) = em_Dimensions (port e)"
    and positive: "made e \<Longrightarrow> 0 < em_Dimensions (port e)"
begin

lemma vectors_nonempty: "made e \<Longrightarrow> em_EmbedDocuments (port e) texts s = Inr vs \<Longrightarrow> [] \<notin> set vs"
  using documents positive by fastforce

text \<open>The worker's own check of the count never fails, and it offers the store no vector of another width.\<close>

lemma encode_pairs_up:
  assumes "made e" "wk_embedder w = port e" "read_episodes w job s = Inr eps"
  shows "(\<exists>err. em_EmbedDocuments (port e) (map ep_Content eps) s = Inl err \<and> encode w job s = (Some err, s))
    \<or> (\<exists>vs. em_EmbedDocuments (port e) (map ep_Content eps) s = Inr vs \<and> map fst (zip eps vs) = eps \<and> (\<forall>v \<in> set vs. int (length v) = em_Dimensions (port e))
         \<and> encode w job s = (let (encodedAt, s1) = wk_clock w s in put_encodings w encodedAt (zip eps vs) s1))"
proof (cases "em_EmbedDocuments (port e) (map ep_Content eps) s")
  case (Inl err)
  then show ?thesis using assms by (simp add: encode_def)
next
  case (Inr vs)
  from documents[OF assms(1) Inr] show ?thesis using assms Inr by (simp add: encode_def)
qed

end

definition made_by_New :: "embed_codec \<Rightarrow> 's HTTPEmbedder \<Rightarrow> bool" where
  "made_by_New k e \<longleftrightarrow> (\<exists>env client cfg. Embed_New k env client cfg = Inr e)"

interpretation http_kind: embedder_kind "made_by_New k" "http_embedder k"
proof
  fix e :: "'s HTTPEmbedder" and texts s vs q v
  assume "made_by_New k e"
  then obtain env client cfg where new: "Embed_New k env client cfg = Inr e" by (auto simp: made_by_New_def)
  note N = New_maxBatch[OF new]
  show "0 < em_Dimensions (http_embedder k e)" using N(2) by (simp add: http_embedder_def)
  show "int (length v) = em_Dimensions (http_embedder k e)" if "em_EmbedQuery (http_embedder k e) q s = Inr v"
  proof -
    have q: "HTTP_EmbedQuery k e q s = Inr v" using that by (simp add: http_embedder_def)
    then obtain us where "embed_post k e [oe_queryPrefix e @ q] s = Inr us" "v = us ! 0"
      unfolding HTTP_EmbedQuery_def by (cases "embed_post k e [oe_queryPrefix e @ q] s") auto
    then show ?thesis using embed_post_Inr[of k e "[oe_queryPrefix e @ q]" s us] by (simp add: http_embedder_def)
  qed
  assume "em_EmbedDocuments (http_embedder k e) texts s = Inr vs"
  then have vs: "HTTP_EmbedDocuments k e texts s = Inr vs" by (simp add: http_embedder_def)
  show "length vs = length texts \<and> (\<forall>v \<in> set vs. int (length v) = em_Dimensions (http_embedder k e))"
  proof (cases "texts = []")
    case True
    then show ?thesis using vs by (simp add: HTTP_EmbedDocuments_def)
  next
    case False
    have "\<exists>us. vs = [] @ us \<and> length us = length texts \<and> (\<forall>v \<in> set us. int (length v) = oe_dimensions e)"
      by (rule embed_loop_Inr[where k = "nat (oe_maxBatch e)"]) (use vs False N(1) in \<open>auto simp: HTTP_EmbedDocuments_def dest: embed_post_Inr\<close>)
    then show ?thesis by (simp add: http_embedder_def)
  qed
qed

interpretation hash_kind: embedder_kind "\<lambda>e. \<exists>dims e0. NewEmbedder dims = Some e0 \<and> he_dims e = he_dims e0" "hash_embedder lib ctx"
proof
  fix e :: HashEmbedder and texts vs q v and s :: 's
  assume "\<exists>dims e0. NewEmbedder dims = Some e0 \<and> he_dims e = he_dims e0"
  then show "0 < em_Dimensions (hash_embedder lib ctx e)" by (auto simp: NewEmbedder_def hash_embedder_def split: if_splits)
next
  fix e :: HashEmbedder and texts vs q v and s :: 's
  show "int (length v) = em_Dimensions (hash_embedder lib ctx e)" if "em_EmbedQuery (hash_embedder lib ctx e) q s = Inr v"
    using that by (auto simp: hash_embedder_def Hash_EmbedQuery_def begin_call_def length_hash_embed Let_def split: option.splits)
  show "length vs = length texts \<and> (\<forall>v \<in> set vs. int (length v) = em_Dimensions (hash_embedder lib ctx e))" if "em_EmbedDocuments (hash_embedder lib ctx e) texts s = Inr vs"
    using that by (auto simp: hash_embedder_def Hash_EmbedDocuments_def begin_call_def length_hash_embed Let_def split: option.splits)
qed

text \<open>
  A worker over the embeddings adapter. Whatever the endpoint answers, an encode job either fails with the adapter's error and changes nothing, or pairs every one of its episodes with
  one vector of the declared width and offers exactly these to the store.
\<close>

theorem encode_over_adapter:
  assumes "Embed_New k env client cfg = Inr e" "wk_embedder w = http_embedder k e" "read_episodes w job s = Inr eps"
  shows "(\<exists>err. HTTP_EmbedDocuments k e (map ep_Content eps) s = Inl err \<and> encode w job s = (Some err, s))
    \<or> (\<exists>vs. HTTP_EmbedDocuments k e (map ep_Content eps) s = Inr vs \<and> length vs = length eps \<and> (\<forall>v \<in> set vs. int (length v) = ec_Dimensions cfg)
         \<and> encode w job s = (let (encodedAt, s1) = wk_clock w s in put_encodings w encodedAt (zip eps vs) s1))"
proof -
  have made: "made_by_New k e" using assms(1) by (auto simp: made_by_New_def)
  have dims: "em_Dimensions (http_embedder k e) = ec_Dimensions cfg" using New_maxBatch(3)[OF assms(1)] by (simp add: http_embedder_def)
  have docs: "em_EmbedDocuments (http_embedder k e) = HTTP_EmbedDocuments k e" by (simp add: http_embedder_def)
  from http_kind.documents[OF made, of "map ep_Content eps" s] http_kind.encode_pairs_up[OF made assms(2,3)]
  show ?thesis unfolding docs dims by fastforce
qed

end
