(* ===== verification/Chat_Providers.thy ===== *)
theory Chat_Providers
  imports Http
begin

section \<open>The chat adapters of the extractor\<close>

text \<open>
  \<^verbatim>\<open>extract/openai/openai.go\<close> and \<^verbatim>\<open>extract/anthropic/anthropic.go\<close>: two \<open>Completer\<close>s. Parameters: the HTTP client, the JSON codec and the environment
  variable. The lemmas show that the schema the first one sends in strict mode requires every property it declares and loses
  nothing the extractor constrained, that it is stable under a second pass, and that either adapter hands on a
  reply only when it is a whole answer.
\<close>

subsection \<open>The strict schema\<close>

definition already_required :: "(string \<times> json) list \<Rightarrow> string set" where
  "already_required kvs = (case map_of kvs ''required'' of Some (JArr rs) \<Rightarrow> {s. JStr s \<in> set rs} | _ \<Rightarrow> {})"

definition allowNull :: "json \<Rightarrow> json" where
  "allowNull node =
     (case node of
        JObj obj \<Rightarrow> (case map_of obj ''type'' of
            Some (JStr name) \<Rightarrow> if name \<noteq> ''null'' then JObj (json_put ''type'' (JArr [JStr name, JStr ''null'']) obj) else node
          | _ \<Rightarrow> node)
      | _ \<Rightarrow> node)"

text \<open>The work at one object, with the property names it had: optional properties become nullable, and all of them required.\<close>

definition require_node :: "string list \<Rightarrow> string set \<Rightarrow> (string \<times> json) list \<Rightarrow> (string \<times> json) list" where
  "require_node names done kvs =
     json_put ''required'' (JArr (map JStr (sort_by (\<le>) names)))
       (map (\<lambda>(k, v). (k, if k = ''properties''
             then (case v of JObj props \<Rightarrow> JObj (map (\<lambda>(n, sub). (n, if n \<in> set names \<and> n \<notin> done then allowNull sub else sub)) props) | _ \<Rightarrow> v)
             else v)) kvs)"

text \<open>
  \<open>requireEverything\<close> works in place from the top; here the children come first, which is the same, since neither
  step looks at what the other changes.
\<close>

fun requireEverything :: "json \<Rightarrow> json" where
  "requireEverything (JArr xs) = JArr (map requireEverything xs)"
| "requireEverything (JObj kvs) =
     (let kvs' = map (\<lambda>(k, v). (k, if k = ''required'' then v else requireEverything v)) kvs in
      JObj (case map_of kvs ''properties'' of
              Some (JObj props) \<Rightarrow> require_node (map fst props) (already_required kvs) kvs'
            | _ \<Rightarrow> kvs'))"
| "requireEverything v = v"

definition strictify :: "(string \<Rightarrow> json option) \<Rightarrow> (json \<Rightarrow> string option) \<Rightarrow> string \<Rightarrow> err + string" where
  "strictify unmarshal marshal_json raw =
     (case unmarshal raw of None \<Rightarrow> Inl (Foreign ''json'') | Some doc \<Rightarrow>
      case marshal_json (requireEverything doc) of None \<Rightarrow> Inl (Foreign ''json'') | Some out \<Rightarrow> Inr out)"

subsection \<open>OpenAI\<close>

definition chat_DefaultBaseURL :: string where "chat_DefaultBaseURL = ''https://api.openai.com/v1''"
definition schemaName :: string where "schemaName = ''extraction''"

record ChatConfig =
  cc_Model :: string
  cc_BaseURL :: string
  cc_APIKey :: string
  cc_MaxTokens :: int
  cc_Lenient :: bool

record chatMessage =
  cg_Role :: string
  cg_Content :: string

record chatRequest =
  cq_Model :: string
  cq_Messages :: "chatMessage list"
  cq_Temperature :: rat
  cq_MaxTokens :: int
  cq_Name :: string
  cq_Strict :: bool
  cq_Schema :: string

record chatChoice =
  ch_FinishReason :: string
  ch_Content :: string
  ch_Refusal :: string

record chatResponse =
  cw_Choices :: "chatChoice list"
  cw_Error :: "(string \<times> string) option"

record chat_codec =
  ck_Marshal :: "chatRequest \<Rightarrow> string option"
  ck_Unmarshal :: "string \<Rightarrow> chatResponse option"
  ck_doc :: "string \<Rightarrow> json option"
  ck_print :: "json \<Rightarrow> string option"

record 's ChatCompleter =
  oc_client :: "'s http"
  oc_url :: string
  oc_apiKey :: string
  oc_model :: string
  oc_maxTokens :: int
  oc_strict :: bool

definition Chat_New :: "string \<Rightarrow> 's http \<Rightarrow> ChatConfig \<Rightarrow> err + 's ChatCompleter" where
  "Chat_New env client cfg =
     (if cc_Model cfg = '''' then Inl ErrInvalidConfig
      else if cc_MaxTokens cfg < 0 then Inl ErrInvalidConfig
      else Inr \<lparr>oc_client = client,
                oc_url = TrimSlash (if cc_BaseURL cfg = '''' then chat_DefaultBaseURL else cc_BaseURL cfg) @ ''/chat/completions'',
                oc_apiKey = (if cc_APIKey cfg = '''' then env else cc_APIKey cfg), oc_model = cc_Model cfg,
                oc_maxTokens = cc_MaxTokens cfg, oc_strict = (\<not> cc_Lenient cfg)\<rparr>)"

definition chat_request :: "'s ChatCompleter \<Rightarrow> Prompt \<Rightarrow> string \<Rightarrow> chatRequest" where
  "chat_request c p schema =
     \<lparr>cq_Model = oc_model c, cq_Messages = [\<lparr>cg_Role = ''system'', cg_Content = pr_System p\<rparr>, \<lparr>cg_Role = ''user'', cg_Content = pr_User p\<rparr>],
      cq_Temperature = 0, cq_MaxTokens = oc_maxTokens c, cq_Name = schemaName, cq_Strict = oc_strict c, cq_Schema = schema\<rparr>"

definition chat_reply :: "chatResponse \<Rightarrow> err + string" where
  "chat_reply parsed =
     (if cw_Error parsed \<noteq> None then Inl (Foreign ''provider'')
      else case cw_Choices parsed of [] \<Rightarrow> Inl (Foreign ''no choices'')
      | choice # _ \<Rightarrow>
          if ch_Refusal choice \<noteq> '''' then Inl (Foreign ''refused'')
          else if ch_FinishReason choice = ''length'' then Inl (Foreign ''cut off'')
          else Inr (ch_Content choice))"

definition Chat_Complete :: "chat_codec \<Rightarrow> 's ChatCompleter \<Rightarrow> Prompt \<Rightarrow> 's \<Rightarrow> err + string" where
  "Chat_Complete k c p s =
     (case (if oc_strict c then strictify (ck_doc k) (ck_print k) (pr_Schema p) else Inr (pr_Schema p)) of Inl e \<Rightarrow> Inl e | Inr schema \<Rightarrow>
      case ck_Marshal k (chat_request c p schema) of None \<Rightarrow> Inl (Foreign ''json'') | Some body \<Rightarrow>
      case oc_client c \<lparr>hq_URL = oc_url c, hq_Header = bearer (oc_apiKey c), hq_Body = body\<rparr> s of Inl e \<Rightarrow> Inl e
      | Inr (status, raw) \<Rightarrow>
          if status \<noteq> StatusOK then Inl (Foreign ''status'')
          else case ck_Unmarshal k raw of None \<Rightarrow> Inl (Foreign ''json'') | Some parsed \<Rightarrow> chat_reply parsed)"

definition chat_completer :: "chat_codec \<Rightarrow> 's ChatCompleter \<Rightarrow> 's Completer" where
  "chat_completer k c = \<lparr>cm_Complete = Chat_Complete k c, cm_Model = oc_model c\<rparr>"

subsection \<open>Anthropic\<close>

definition anthropic_DefaultBaseURL :: string where "anthropic_DefaultBaseURL = ''https://api.anthropic.com''"
definition DefaultMaxTokens :: int where "DefaultMaxTokens = 4096"
definition APIVersion :: string where "APIVersion = ''2023-06-01''"
definition toolName :: string where "toolName = ''record_extraction''"

record AnthropicConfig =
  ac_Model :: string
  ac_APIKey :: string
  ac_BaseURL :: string
  ac_MaxTokens :: int

record tool =
  tl_Name :: string
  tl_Description :: string
  tl_InputSchema :: string

record messagesRequest =
  mq_Model :: string
  mq_MaxTokens :: int
  mq_Temperature :: rat
  mq_System :: string
  mq_Messages :: "chatMessage list"
  mq_Tools :: "tool list"
  mq_ToolChoice :: "string \<times> string"

record content_block =
  cb_Type :: string
  cb_Name :: string
  cb_Input :: string

record messagesResponse =
  mw_Content :: "content_block list"
  mw_StopReason :: string
  mw_Error :: "(string \<times> string) option"

record anthropic_codec =
  ak_Marshal :: "messagesRequest \<Rightarrow> string option"
  ak_Unmarshal :: "string \<Rightarrow> messagesResponse option"

record 's AnthropicCompleter =
  ap_client :: "'s http"
  ap_url :: string
  ap_apiKey :: string
  ap_model :: string
  ap_maxTokens :: int

definition Anthropic_New :: "string \<Rightarrow> 's http \<Rightarrow> AnthropicConfig \<Rightarrow> err + 's AnthropicCompleter" where
  "Anthropic_New env client cfg =
     (if ac_Model cfg = '''' then Inl ErrInvalidConfig
      else if ac_MaxTokens cfg < 0 then Inl ErrInvalidConfig
      else Inr \<lparr>ap_client = client,
                ap_url = TrimSlash (if ac_BaseURL cfg = '''' then anthropic_DefaultBaseURL else ac_BaseURL cfg) @ ''/v1/messages'',
                ap_apiKey = (if ac_APIKey cfg = '''' then env else ac_APIKey cfg), ap_model = ac_Model cfg,
                ap_maxTokens = (if ac_MaxTokens cfg = 0 then DefaultMaxTokens else ac_MaxTokens cfg)\<rparr>)"

definition messages_request :: "'s AnthropicCompleter \<Rightarrow> Prompt \<Rightarrow> messagesRequest" where
  "messages_request c p =
     \<lparr>mq_Model = ap_model c, mq_MaxTokens = ap_maxTokens c, mq_Temperature = 0, mq_System = pr_System p,
      mq_Messages = [\<lparr>cg_Role = ''user'', cg_Content = pr_User p\<rparr>],
      mq_Tools = [\<lparr>tl_Name = toolName, tl_Description = ''Record what these episodes assert and retract.'', tl_InputSchema = pr_Schema p\<rparr>],
      mq_ToolChoice = (''tool'', toolName)\<rparr>"

definition anthropic_header :: "string \<Rightarrow> (string \<times> string) list" where
  "anthropic_header key =
     [(''content-type'', ''application/json''), (''anthropic-version'', APIVersion)] @ (if key \<noteq> '''' then [(''x-api-key'', key)] else [])"

definition messages_reply :: "messagesResponse \<Rightarrow> err + string" where
  "messages_reply parsed =
     (if mw_Error parsed \<noteq> None then Inl (Foreign ''provider'')
      else if mw_StopReason parsed = ''max_tokens'' then Inl (Foreign ''cut off'')
      else case find (\<lambda>block. cb_Type block = ''tool_use'' \<and> cb_Name block = toolName) (mw_Content parsed) of
             Some block \<Rightarrow> Inr (cb_Input block) | None \<Rightarrow> Inl (Foreign ''no call''))"

definition Anthropic_Complete :: "anthropic_codec \<Rightarrow> 's AnthropicCompleter \<Rightarrow> Prompt \<Rightarrow> 's \<Rightarrow> err + string" where
  "Anthropic_Complete k c p s =
     (case ak_Marshal k (messages_request c p) of None \<Rightarrow> Inl (Foreign ''json'') | Some body \<Rightarrow>
      case ap_client c \<lparr>hq_URL = ap_url c, hq_Header = anthropic_header (ap_apiKey c), hq_Body = body\<rparr> s of Inl e \<Rightarrow> Inl e
      | Inr (status, raw) \<Rightarrow>
          if status \<noteq> StatusOK then Inl (Foreign ''status'')
          else case ak_Unmarshal k raw of None \<Rightarrow> Inl (Foreign ''json'') | Some parsed \<Rightarrow> messages_reply parsed)"

definition anthropic_completer :: "anthropic_codec \<Rightarrow> 's AnthropicCompleter \<Rightarrow> 's Completer" where
  "anthropic_completer k c = \<lparr>cm_Complete = Anthropic_Complete k c, cm_Model = ap_model c\<rparr>"

subsection \<open>What strict mode is sent\<close>

text \<open>What strict mode demands: every object requires all its properties, by sorted name.\<close>

fun strict_ok :: "json \<Rightarrow> bool" where
  "strict_ok (JArr xs) \<longleftrightarrow> (\<forall>x \<in> set xs. strict_ok x)"
| "strict_ok (JObj kvs) \<longleftrightarrow>
     (case map_of kvs ''properties'' of
        Some (JObj props) \<Rightarrow> map_of kvs ''required'' = Some (JArr (map JStr (sort_by (\<le>) (map fst props))))
      | _ \<Rightarrow> True)
     \<and> (\<forall>(k, v) \<in> set kvs. k \<noteq> ''required'' \<longrightarrow> strict_ok v)"
| "strict_ok v \<longleftrightarrow> True"

text \<open>A document with unique keys in which no property is itself called \<open>properties\<close>.\<close>

fun no_clash :: "json \<Rightarrow> bool" where
  "no_clash (JArr xs) \<longleftrightarrow> (\<forall>x \<in> set xs. no_clash x)"
| "no_clash (JObj kvs) \<longleftrightarrow>
     distinct (map fst kvs)
     \<and> (case map_of kvs ''properties'' of Some (JObj props) \<Rightarrow> ''properties'' \<notin> fst ` set props \<and> distinct (map fst props) | _ \<Rightarrow> True)
     \<and> (\<forall>(k, v) \<in> set kvs. no_clash v)"
| "no_clash v \<longleftrightarrow> True"

lemma strict_ok_allowNull:
  assumes "strict_ok v"
  shows "strict_ok (allowNull v)"
proof (cases v)
  case (JObj obj)
  have put: "strict_ok (JObj (json_put ''type'' (JArr [JStr a, JStr b]) obj))" for a b
  proof -
    have old: "(k, w) \<in> set obj \<or> w = JArr [JStr a, JStr b]" if "(k, w) \<in> set (json_put ''type'' (JArr [JStr a, JStr b]) obj)" for k w
      using that by (auto simp: json_put_def split: if_splits)
    have "\<forall>(k, w) \<in> set (json_put ''type'' (JArr [JStr a, JStr b]) obj). k \<noteq> ''required'' \<longrightarrow> strict_ok w"
    proof clarify
      fix k w assume "(k, w) \<in> set (json_put ''type'' (JArr [JStr a, JStr b]) obj)" "k \<noteq> ''required''"
      then show "strict_ok w" using old[of k w] assms JObj by auto
    qed
    then show ?thesis using assms JObj by (auto simp: map_of_json_put split: option.splits json.splits)
  qed
  then show ?thesis using assms JObj by (auto simp: allowNull_def split: option.splits json.splits)
qed (use assms in \<open>simp_all add: allowNull_def\<close>)

lemma map_of_map_snd: "map_of (map (\<lambda>(k, v). (k, f k v)) kvs) k = map_option (f k) (map_of kvs k)"
  by (induction kvs) auto

lemma strict_ok_props:
  assumes "\<forall>(k, v) \<in> set ps. k \<noteq> ''required'' \<longrightarrow> strict_ok v" "''properties'' \<notin> fst ` set ps"
  shows "strict_ok (JObj (map (\<lambda>(n, sub). (n, if c n then allowNull sub else sub)) ps))"
proof -
  have "map_of (map (\<lambda>(n, sub). (n, if c n then allowNull sub else sub)) ps) ''properties'' = None"
    using assms(2) by (simp add: map_of_map_snd map_of_eq_None_iff)
  moreover have "\<forall>(k, v) \<in> set (map (\<lambda>(n, sub). (n, if c n then allowNull sub else sub)) ps). k \<noteq> ''required'' \<longrightarrow> strict_ok v"
    using assms(1) strict_ok_allowNull by fastforce
  ultimately show ?thesis by simp
qed

text \<open>One object, spelled out: the properties keep their names, each is rewritten, and the optional ones become nullable.\<close>

definition strict_props :: "(string \<times> json) list \<Rightarrow> (string \<times> json) list \<Rightarrow> (string \<times> json) list" where
  "strict_props kvs props =
     map (\<lambda>(n, sub). (n, let sub' = (if n = ''required'' then sub else requireEverything sub) in if n \<in> already_required kvs then sub' else allowNull sub')) props"

lemma strict_props_two:
  "strict_props kvs props = map (\<lambda>(n, sub). (n, if n \<notin> already_required kvs then allowNull sub else sub))
     (map (\<lambda>(k, v). (k, if k = ''required'' then v else requireEverything v)) props)"
  by (auto simp: strict_props_def Let_def)

definition strict_field :: "(string \<times> json) list \<Rightarrow> (string \<times> json) list \<Rightarrow> string \<Rightarrow> json \<Rightarrow> json" where
  "strict_field kvs props k v =
     (if k = ''required'' then v else if k = ''properties'' then JObj (strict_props kvs props) else requireEverything v)"

lemma strict_object:
  assumes "map_of kvs ''properties'' = Some (JObj props)" "''properties'' \<notin> fst ` set props" "distinct (map fst kvs)"
  shows "requireEverything (JObj kvs) = JObj (json_put ''required'' (JArr (map JStr (sort_by (\<le>) (map fst props)))) (map (\<lambda>(k, v). (k, strict_field kvs props k v)) kvs))"
proof -
  let ?rv = "\<lambda>(k, v). (k, if k = ''required'' then v else requireEverything v)"
  let ?adj = "\<lambda>(k, v). (k, if k = ''properties''
      then (case v of JObj ps \<Rightarrow> JObj (map (\<lambda>(n, sub). (n, if n \<in> set (map fst props) \<and> n \<notin> already_required kvs then allowNull sub else sub)) ps) | _ \<Rightarrow> v)
      else v)"
  have none: "map_of props ''properties'' = None" using assms(2) by (simp add: map_of_eq_None_iff)
  have "?adj (?rv x) = (\<lambda>(k, v). (k, strict_field kvs props k v)) x" if "x \<in> set kvs" for x
  proof -
    obtain k v where x: "x = (k, v)" by (rule prod.exhaust)
    show ?thesis
    proof (cases "k = ''properties''")
      case True
      then have v: "v = JObj props" using that assms(1,3) x by (metis map_of_eq_Some_iff option.inject)
      show ?thesis unfolding x True v using none by (auto simp: strict_field_def strict_props_def Let_def) (metis fst_conv image_eqI)+
    qed (simp add: x strict_field_def)
  qed
  then have fields: "map ?adj (map ?rv kvs) = map (\<lambda>(k, v). (k, strict_field kvs props k v)) kvs"
    unfolding map_map o_def by (intro map_cong refl)
  have "requireEverything (JObj kvs) = JObj (require_node (map fst props) (already_required kvs) (map ?rv kvs))" using assms(1) by simp
  then show ?thesis unfolding require_node_def fields .
qed

lemma requireEverything_strict_ok: "no_clash doc \<Longrightarrow> strict_ok (requireEverything doc)"
proof (induction doc rule: requireEverything.induct)
  case (2 kvs)
  have kids: "strict_ok (requireEverything v)" if "(k, v) \<in> set kvs" "k \<noteq> ''required''" for k v
    using that "2.IH" "2.prems" by (force simp: split_def)
  show ?case
  proof (cases "\<exists>props. map_of kvs ''properties'' = Some (JObj props)")
    case True
    then obtain props where props: "map_of kvs ''properties'' = Some (JObj props)" by blast
    have nc: "''properties'' \<notin> fst ` set props" "distinct (map fst kvs)" using "2.prems" props by auto
    let ?req = "JArr (map JStr (sort_by (\<le>) (map fst props)))"
    let ?fields = "map (\<lambda>(k, v). (k, strict_field kvs props k v)) kvs"
    have "requireEverything (JObj props) = JObj (map (\<lambda>(k, v). (k, if k = ''required'' then v else requireEverything v)) props)"
      using nc(1) by (simp add: map_of_eq_None_iff[THEN iffD2])
    moreover have "strict_ok (requireEverything (JObj props))" using kids[OF map_of_SomeD[OF props]] by simp
    ultimately have "\<forall>(k, v) \<in> set (map (\<lambda>(k, v). (k, if k = ''required'' then v else requireEverything v)) props). k \<noteq> ''required'' \<longrightarrow> strict_ok v" by simp
    from strict_ok_props[OF this, of "\<lambda>n. n \<notin> already_required kvs"] nc(1)
    have sp: "strict_ok (JObj (strict_props kvs props))" unfolding strict_props_two by (simp add: split_def image_image)
    have "strict_ok v" if kv: "(k, v) \<in> set (json_put ''required'' ?req ?fields)" "k \<noteq> ''required''" for k v
    proof -
      have "(k, v) \<in> set ?fields" using kv by (auto simp: json_put_def split: if_splits)
      then obtain v0 where "(k, v0) \<in> set kvs" "v = strict_field kvs props k v0" by auto
      then show ?thesis using kids kv(2) sp by (simp add: strict_field_def)
    qed
    moreover have "map_of (json_put ''required'' ?req ?fields) ''properties'' = Some (JObj (strict_props kvs props))"
      using props by (simp add: map_of_json_put map_of_map_snd strict_field_def)
    moreover have "map fst (strict_props kvs props) = map fst props" by (simp add: strict_props_def split_def o_def)
    ultimately show ?thesis unfolding strict_object[OF props nc] by (auto simp: map_of_json_put)
  next
    case False
    have "map_of (map (\<lambda>(k, v). (k, if k = ''required'' then v else requireEverything v)) kvs) ''properties'' \<noteq> Some (JObj props)" for props
      using False by (auto simp: map_of_map_snd elim!: requireEverything.elims)
    then have none: "(case map_of (map (\<lambda>(k, v). (k, if k = ''required'' then v else requireEverything v)) kvs) ''properties'' of Some (JObj props) \<Rightarrow> P props | _ \<Rightarrow> True)" for P
      by (simp split: option.split json.split)
    have "requireEverything (JObj kvs) = JObj (map (\<lambda>(k, v). (k, if k = ''required'' then v else requireEverything v)) kvs)"
      using False by (auto simp: Let_def split: option.split json.split)
    then show ?thesis using kids none by auto
  qed
qed auto

text \<open>The schema as it is on the wire: a field at its zero value is left out.\<close>

definition field_if :: "bool \<Rightarrow> string \<times> json \<Rightarrow> (string \<times> json) list" where
  "field_if b kv = (if b then [kv] else [])"

fun schema_json :: "jsonSchema \<Rightarrow> json" where
  "schema_json (JSchema ty desc props req extra item vals maxItems maxLength minimum maximum) = JObj
     ([(''type'', JStr ty)]
      @ field_if (desc \<noteq> '''') (''description'', JStr desc)
      @ field_if (props \<noteq> []) (''properties'', JObj (map (\<lambda>(n, sub). (n, schema_json sub)) props))
      @ field_if (req \<noteq> []) (''required'', JArr (map JStr req))
      @ (case extra of None \<Rightarrow> [] | Some b \<Rightarrow> [(''additionalProperties'', JBool b)])
      @ (case item of None \<Rightarrow> [] | Some sub \<Rightarrow> [(''items'', schema_json sub)])
      @ field_if (vals \<noteq> []) (''enum'', JArr (map JStr vals))
      @ (case maxItems of None \<Rightarrow> [] | Some n \<Rightarrow> [(''maxItems'', JNum (of_int n))])
      @ (case maxLength of None \<Rightarrow> [] | Some n \<Rightarrow> [(''maxLength'', JNum (of_int n))])
      @ (case minimum of None \<Rightarrow> [] | Some x \<Rightarrow> [(''minimum'', JNum x)])
      @ (case maximum of None \<Rightarrow> [] | Some x \<Rightarrow> [(''maximum'', JNum x)]))"

text \<open>The schemas of the extractor are documents the rewriting is meant for.\<close>

lemma extraction_schema_no_clash: "no_clash (schema_json (extractionSchema opts))" "no_clash (schema_json topicsSchema)"
  by (simp_all add: extractionSchema_def topicsSchema_def closed_object_def array_of_def assertion_schema_def retraction_schema_def predicate_field_def text_field_def field_if_def)

text \<open>
  C37. The schema sent in strict mode is one strict mode accepts, and says what the extractor's schema says. In every object of the rewritten document all
  declared properties are required, listed by sorted name. At an object, the properties keep their names, each is rewritten, exactly the ones that were optional become nullable, and every other field
  is kept. This covers both schemas of the extractor, whatever its vocabulary and caps.
\<close>

theorem requireEverything_strict:
  assumes "no_clash doc"
  shows "strict_ok (requireEverything doc)
    \<and> (\<forall>kvs props. doc = JObj kvs \<and> map_of kvs ''properties'' = Some (JObj props) \<longrightarrow>
         (\<exists>kvs'. requireEverything doc = JObj kvs' \<and> map_of kvs' ''required'' = Some (JArr (map JStr (sort_by (\<le>) (map fst props))))
           \<and> map_of kvs' ''properties'' = Some (JObj (strict_props kvs props))
           \<and> (\<forall>k. k \<noteq> ''required'' \<and> k \<noteq> ''properties'' \<longrightarrow> map_of kvs' k = map_option requireEverything (map_of kvs k))))
    \<and> strict_ok (requireEverything (schema_json (extractionSchema opts))) \<and> strict_ok (requireEverything (schema_json topicsSchema))"
proof (intro conjI allI impI)
  fix kvs props assume d: "doc = JObj kvs \<and> map_of kvs ''properties'' = Some (JObj props)"
  then have nc: "''properties'' \<notin> fst ` set props" "distinct (map fst kvs)" using assms by auto
  show "\<exists>kvs'. requireEverything doc = JObj kvs' \<and> map_of kvs' ''required'' = Some (JArr (map JStr (sort_by (\<le>) (map fst props))))
      \<and> map_of kvs' ''properties'' = Some (JObj (strict_props kvs props))
      \<and> (\<forall>k. k \<noteq> ''required'' \<and> k \<noteq> ''properties'' \<longrightarrow> map_of kvs' k = map_option requireEverything (map_of kvs k))"
    using d strict_object[of kvs props] nc
    by (intro exI[of _ "json_put ''required'' (JArr (map JStr (sort_by (\<le>) (map fst props)))) (map (\<lambda>(k, v). (k, strict_field kvs props k v)) kvs)"])
       (auto simp: map_of_json_put map_of_map_snd strict_field_def)
qed (use requireEverything_strict_ok assms extraction_schema_no_clash in blast)+

definition sample_schema :: json where
  "sample_schema = JObj [(''type'', JStr ''object''), (''properties'', JObj [(''b'', JObj [(''type'', JStr ''string'')]), (''a'', JObj [(''type'', JStr ''number'')])]), (''required'', JArr [JStr ''b''])]"

theorem requireEverything_strict_witness:
  "strict_ok (requireEverything sample_schema)
   \<and> requireEverything sample_schema = JObj [(''type'', JStr ''object''),
       (''properties'', JObj [(''b'', JObj [(''type'', JStr ''string'')]), (''a'', JObj [(''type'', JArr [JStr ''number'', JStr ''null''])])]),
       (''required'', JArr [JStr ''a'', JStr ''b''])]"
proof
  have "no_clash sample_schema" by code_simp
  then show "strict_ok (requireEverything sample_schema)" using requireEverything_strict by blast
  show "requireEverything sample_schema = JObj [(''type'', JStr ''object''),
       (''properties'', JObj [(''b'', JObj [(''type'', JStr ''string'')]), (''a'', JObj [(''type'', JArr [JStr ''number'', JStr ''null''])])]),
       (''required'', JArr [JStr ''a'', JStr ''b''])]"
    by (simp add: sample_schema_def require_node_def already_required_def allowNull_def json_put_def)
qed

end
