(* ===== verification/Eval.thy ===== *)
theory Eval
  imports Store_Machine Go_Time
begin

section \<open>The evaluation harness\<close>

text \<open>
  \<^verbatim>\<open>eval/eval.go\<close>, \<^verbatim>\<open>eval/metrics.go\<close> and \<^verbatim>\<open>eval/longmemeval.go\<close>: labelled questions in, scored retrieval out, over the memory and the worker of
  the other theories. Floating point is as in rank fusion: rational numbers, rounded by \<open>rnd\<close> after every operation; \<open>lg n\<close> is \<^verbatim>\<open>math.Log2\<close> of the integer \<open>n\<close>.
  Elapsed times are parameters. The progress callback, the printed table and reading the file are left out; a question arrives decoded.

  The lemmas show that every score lies between zero and one and is one for a perfect ranking, that the
  loader labels exactly the episodes that carry the answer, and that after ingestion the
  sequence numbers are the positions the labels refer to.
\<close>

subsection \<open>Questions and results\<close>

record Question =
  qn_ID :: string
  qn_Type :: string
  qn_Query :: string
  qn_Answer :: string
  qn_Asked :: gotime
  qn_Haystack :: "AppendRequest list"
  qn_Relevant :: "nat list"

record Dataset =
  ds_Name :: string
  ds_Questions :: "(err + Question) list"

record Result =
  rs_ID :: string
  rs_Type :: string
  rs_Relevant :: nat
  rs_Returned :: nat
  rs_Hit :: bool
  rs_Recall :: rat
  rs_ReciprocalRank :: rat
  rs_NDCG :: rat
  rs_Channels :: "ChannelReport list"
  rs_Ingest :: int
  rs_Latency :: int

record 's Variant =
  va_Name :: string
  va_Channels :: "Channel list"
  va_Memory :: "'s Memory option"

record 's EvalConfig =
  vc_Memory :: "'s Memory option"
  vc_Store :: "'s Store option"
  vc_Worker :: "'s Worker option"
  vc_Variants :: "'s Variant list"
  vc_Limit :: int
  vc_BoundByQuestionTime :: bool

definition DefaultLimit :: int where "DefaultLimit = DefaultRecallLimit"

subsection \<open>Scoring\<close>

definition gain_at :: "(rat \<Rightarrow> rat) \<Rightarrow> (nat \<Rightarrow> rat) \<Rightarrow> nat \<Rightarrow> rat" where
  "gain_at rnd lg rank = rnd (1 / lg (rank + 2))"

fun idcg_loop :: "(rat \<Rightarrow> rat) \<Rightarrow> (nat \<Rightarrow> rat) \<Rightarrow> nat \<Rightarrow> nat \<Rightarrow> rat \<Rightarrow> rat" where
  "idcg_loop rnd lg i 0 ideal = ideal"
| "idcg_loop rnd lg i (Suc n) ideal = idcg_loop rnd lg (i + 1) n (rnd (ideal + gain_at rnd lg i))"

definition idcg :: "(rat \<Rightarrow> rat) \<Rightarrow> (nat \<Rightarrow> rat) \<Rightarrow> nat \<Rightarrow> rat" where
  "idcg rnd lg n = idcg_loop rnd lg 0 n 0"

record tally_state =
  ty_found :: nat
  ty_hit :: bool
  ty_rr :: rat
  ty_gain :: rat

fun score_loop :: "(rat \<Rightarrow> rat) \<Rightarrow> (nat \<Rightarrow> rat) \<Rightarrow> int set \<Rightarrow> nat \<Rightarrow> RecalledEpisode list \<Rightarrow> tally_state \<Rightarrow> tally_state" where
  "score_loop rnd lg relevant rank [] st = st"
| "score_loop rnd lg relevant rank (recalled # rest) st =
     (if ep_Seq (re_Episode recalled) - 1 \<notin> relevant then score_loop rnd lg relevant (rank + 1) rest st
      else score_loop rnd lg relevant (rank + 1) rest
        \<lparr>ty_found = ty_found st + 1, ty_hit = True,
         ty_rr = (if \<not> ty_hit st then rnd (1 / of_nat (rank + 1)) else ty_rr st),
         ty_gain = rnd (ty_gain st + gain_at rnd lg rank)\<rparr>)"

definition score :: "(rat \<Rightarrow> rat) \<Rightarrow> (nat \<Rightarrow> rat) \<Rightarrow> Question \<Rightarrow> Recollection \<Rightarrow> int \<Rightarrow> Result" where
  "score rnd lg q rec limit =
     (let relevant = int ` set (qn_Relevant q);
          st = score_loop rnd lg relevant 0 (rc_Episodes rec) \<lparr>ty_found = 0, ty_hit = False, ty_rr = 0, ty_gain = 0\<rparr>;
          ideal = idcg rnd lg (nat (min (int (card relevant)) limit))
      in \<lparr>rs_ID = qn_ID q, rs_Type = qn_Type q, rs_Relevant = card relevant, rs_Returned = length (rc_Episodes rec),
          rs_Hit = ty_hit st, rs_Recall = rnd (of_nat (ty_found st) / of_nat (card relevant)), rs_ReciprocalRank = ty_rr st,
          rs_NDCG = (if ideal > 0 then rnd (ty_gain st / ideal) else 0), rs_Channels = [], rs_Ingest = 0, rs_Latency = 0\<rparr>)"

subsection \<open>Aggregating\<close>

record TypeSummary =
  ts_Type :: string
  ts_Questions :: nat
  ts_Hits :: nat
  ts_HitRate :: rat
  ts_Recall :: rat
  ts_MRR :: rat
  ts_NDCG :: rat
  ts_recall :: rat
  ts_rr :: rat
  ts_ndcg :: rat

record Summary =
  sm_Dataset :: string
  sm_Variant :: string
  sm_Channels :: "Channel list"
  sm_Limit :: int
  sm_Questions :: nat
  sm_Skipped :: nat
  sm_Hits :: nat
  sm_Empty :: nat
  sm_HitRate :: rat
  sm_EmptyRate :: rat
  sm_Recall :: rat
  sm_MRR :: rat
  sm_NDCG :: rat
  sm_ByType :: "(string \<times> TypeSummary) list"
  sm_P50 :: int
  sm_P95 :: int
  sm_Ingested :: int
  sm_recall :: rat
  sm_rr :: rat
  sm_ndcg :: rat
  sm_latencies :: "int list"

definition new_summary :: "string \<Rightarrow> string \<Rightarrow> Channel list \<Rightarrow> int \<Rightarrow> Summary" where
  "new_summary dataset variant channels limit =
     \<lparr>sm_Dataset = dataset, sm_Variant = variant, sm_Channels = channels, sm_Limit = limit, sm_Questions = 0, sm_Skipped = 0, sm_Hits = 0,
      sm_Empty = 0, sm_HitRate = 0, sm_EmptyRate = 0, sm_Recall = 0, sm_MRR = 0, sm_NDCG = 0, sm_ByType = [], sm_P50 = 0, sm_P95 = 0,
      sm_Ingested = 0, sm_recall = 0, sm_rr = 0, sm_ndcg = 0, sm_latencies = []\<rparr>"

definition type_add :: "(rat \<Rightarrow> rat) \<Rightarrow> Result \<Rightarrow> TypeSummary \<Rightarrow> TypeSummary" where
  "type_add rnd r t =
     t\<lparr>ts_Questions := ts_Questions t + 1, ts_Hits := (if rs_Hit r then ts_Hits t + 1 else ts_Hits t),
       ts_recall := rnd (ts_recall t + rs_Recall r), ts_rr := rnd (ts_rr t + rs_ReciprocalRank r), ts_ndcg := rnd (ts_ndcg t + rs_NDCG r)\<rparr>"

definition new_type :: "string \<Rightarrow> TypeSummary" where
  "new_type name =
     \<lparr>ts_Type = name, ts_Questions = 0, ts_Hits = 0, ts_HitRate = 0, ts_Recall = 0, ts_MRR = 0, ts_NDCG = 0, ts_recall = 0, ts_rr = 0, ts_ndcg = 0\<rparr>"

definition by_type :: "'t \<Rightarrow> ('t \<Rightarrow> 't) \<Rightarrow> string \<Rightarrow> (string \<times> 't) list \<Rightarrow> (string \<times> 't) list" where
  "by_type fresh f name ts =
     (case map_of ts name of None \<Rightarrow> ts @ [(name, f fresh)] | Some _ \<Rightarrow> map (\<lambda>(n, t). (n, if n = name then f t else t)) ts)"

definition summary_add :: "(rat \<Rightarrow> rat) \<Rightarrow> Result \<Rightarrow> Summary \<Rightarrow> Summary" where
  "summary_add rnd r s =
     s\<lparr>sm_Questions := sm_Questions s + 1, sm_Hits := (if rs_Hit r then sm_Hits s + 1 else sm_Hits s),
       sm_Empty := (if rs_Returned r = 0 then sm_Empty s + 1 else sm_Empty s),
       sm_recall := rnd (sm_recall s + rs_Recall r), sm_rr := rnd (sm_rr s + rs_ReciprocalRank r), sm_ndcg := rnd (sm_ndcg s + rs_NDCG r),
       sm_latencies := sm_latencies s @ [rs_Latency r], sm_Ingested := sm_Ingested s + rs_Ingest r,
       sm_ByType := by_type (new_type (rs_Type r)) (type_add rnd r) (rs_Type r) (sm_ByType s)\<rparr>"

text \<open>\<open>pct\<close> is the rounded constant, and the index is truncated.\<close>

definition percentile :: "(rat \<Rightarrow> rat) \<Rightarrow> int list \<Rightarrow> rat \<Rightarrow> int" where
  "percentile rnd xs pct =
     (if length xs = 0 then 0 else xs ! nat (floor (rnd (rnd pct * of_nat (length xs - 1)))))"

definition type_finish :: "(rat \<Rightarrow> rat) \<Rightarrow> TypeSummary \<Rightarrow> TypeSummary" where
  "type_finish rnd t =
     (if ts_Questions t = 0 then t
      else let n = of_nat (ts_Questions t) in
        t\<lparr>ts_HitRate := rnd (of_nat (ts_Hits t) / n), ts_Recall := rnd (ts_recall t / n), ts_MRR := rnd (ts_rr t / n), ts_NDCG := rnd (ts_ndcg t / n)\<rparr>)"

definition summary_finish :: "(rat \<Rightarrow> rat) \<Rightarrow> Summary \<Rightarrow> Summary" where
  "summary_finish rnd s =
     (let n = of_nat (sm_Questions s);
          s1 = (if sm_Questions s > 0
                then s\<lparr>sm_HitRate := rnd (of_nat (sm_Hits s) / n), sm_EmptyRate := rnd (of_nat (sm_Empty s) / n), sm_Recall := rnd (sm_recall s / n),
                       sm_MRR := rnd (sm_rr s / n), sm_NDCG := rnd (sm_ndcg s / n)\<rparr>
                else s);
          latencies = sort_by (\<le>) (sm_latencies s)
      in s1\<lparr>sm_ByType := map (\<lambda>(name, t). (name, type_finish rnd t)) (sm_ByType s1), sm_latencies := latencies,
            sm_P50 := percentile rnd latencies (1 / 2), sm_P95 := percentile rnd latencies (95 / 100)\<rparr>)"

subsection \<open>Running\<close>

text \<open>\<open>ingest\<close>: full batches, every request moved into the scope.\<close>

function ingest :: "'s Memory \<Rightarrow> ScopeID \<Rightarrow> AppendRequest list \<Rightarrow> 's \<Rightarrow> err option \<times> 's" where
  "ingest mem scope haystack s =
     (if haystack = [] then (None, s)
      else case AppendBatch mem (map (\<lambda>r. r\<lparr>ar_Scope := scope\<rparr>) (take MaxAppendBatch haystack)) s of
             (Inl e, s') \<Rightarrow> (Some e, s')
           | (Inr _, s') \<Rightarrow> ingest mem scope (drop MaxAppendBatch haystack) s')"
  by auto
termination by (relation "measure (\<lambda>(mem, scope, haystack, s). length haystack)") (auto simp: limit_defs)

declare ingest.simps [simp del]

definition maxDrainPasses :: nat where "maxDrainPasses = 1000"

fun drain_passes :: "nat \<Rightarrow> (Job \<Rightarrow> err \<Rightarrow> string) \<Rightarrow> (nat \<Rightarrow> err option) \<Rightarrow> 's Worker \<Rightarrow> 's \<Rightarrow> err option \<times> 's" where
  "drain_passes 0 render ctx worker s = (Some (Foreign ''the queue did not empty''), s)"
| "drain_passes (Suc n) render ctx worker s =
     (let ((finished, err), s') = DrainOnce render ctx worker s in
      case err of Some e \<Rightarrow> (Some e, s') | None \<Rightarrow> if finished = 0 then (None, s') else drain_passes n render ctx worker s')"

definition drain :: "(Job \<Rightarrow> err \<Rightarrow> string) \<Rightarrow> (nat \<Rightarrow> err option) \<Rightarrow> 's Worker \<Rightarrow> 's \<Rightarrow> err option \<times> 's" where
  "drain render ctx worker s = drain_passes maxDrainPasses render ctx worker s"

text \<open>What a run depends on beside the configuration: arithmetic, what the channels see while they run, the context, and elapsed times.\<close>

record 's eval_env =
  ee_rnd :: "rat \<Rightarrow> rat"
  ee_lg :: "nat \<Rightarrow> rat"
  ee_views :: "string \<Rightarrow> nat \<Rightarrow> nat \<Rightarrow> 's"
  ee_elapsed :: "string \<Rightarrow> nat \<Rightarrow> nat \<Rightarrow> int"
  ee_render :: "Job \<Rightarrow> err \<Rightarrow> string"
  ee_ctx :: "nat \<Rightarrow> err option"
  ee_ctx_err :: "err option"
  ee_ingested :: "string \<Rightarrow> int"
  ee_recalled :: "string \<Rightarrow> nat \<Rightarrow> int"

definition eval_request :: "'s EvalConfig \<Rightarrow> Question \<Rightarrow> ScopeID \<Rightarrow> int \<Rightarrow> 's Variant \<Rightarrow> RecallRequest" where
  "eval_request cfg q scope limit variant =
     \<lparr>rr_Scope = scope, rr_Query = qn_Query q, rr_AsOf = zero_time, rr_OccurredFrom = zero_time,
      rr_OccurredTo = (if vc_BoundByQuestionTime cfg then qn_Asked q else zero_time), rr_Binding = [], rr_Roles = [],
      rr_Channels = va_Channels variant, rr_CandidatesPerChannel = 0, rr_Limit = limit, rr_FactLimit = 0, rr_MinFactConfidence = Fin 0,
      rr_Subjects = [], rr_MaxTokens = 0\<rparr>"

fun run_variants ::
  "'s eval_env \<Rightarrow> 's EvalConfig \<Rightarrow> Question \<Rightarrow> ScopeID \<Rightarrow> int \<Rightarrow> nat \<Rightarrow> ('s Memory \<times> 's Variant) list \<Rightarrow> 's \<Rightarrow> (err + Result list) \<times> 's" where
  "run_variants env cfg q scope limit i [] s = (Inr [], s)"
| "run_variants env cfg q scope limit i ((mem, variant) # rest) s =
     (case Recall (ee_rnd env) (ee_views env (qn_ID q) i) (ee_elapsed env (qn_ID q) i) (ee_ctx_err env) mem (eval_request cfg q scope limit variant) s of
        (Inl e, s') \<Rightarrow> (Inl e, s')
      | (Inr recollection, s') \<Rightarrow>
          let result = (score (ee_rnd env) (ee_lg env) q recollection limit)
            \<lparr>rs_Channels := rc_Channels recollection, rs_Latency := ee_recalled env (qn_ID q) i, rs_Ingest := (if i = 0 then ee_ingested env (qn_ID q) else 0)\<rparr>
          in (case run_variants env cfg q scope limit (i + 1) rest s' of
                (Inl e, s'') \<Rightarrow> (Inl e, s'') | (Inr results, s'') \<Rightarrow> (Inr (result # results), s'')))"

definition run_question ::
  "'s eval_env \<Rightarrow> 's EvalConfig \<Rightarrow> 's Memory \<Rightarrow> Question \<Rightarrow> int \<Rightarrow> ('s Memory \<times> 's Variant) list \<Rightarrow> 's \<Rightarrow> (err + Result list) \<times> 's" where
  "run_question env cfg mem q limit variants s =
     (let scope = ''eval:'' @ qn_ID q in
      case ingest mem scope (qn_Haystack q) s of (Some e, s1) \<Rightarrow> (Inl e, s1) | (None, s1) \<Rightarrow>
      case (case vc_Worker cfg of None \<Rightarrow> (None, s1) | Some worker \<Rightarrow> drain (ee_render env) (ee_ctx env) worker s1) of
        (Some e, s2) \<Rightarrow> (Inl e, s2) | (None, s2) \<Rightarrow>
      case run_variants env cfg q scope limit 0 variants s2 of (Inl e, s3) \<Rightarrow> (Inl e, s3) | (Inr results, s3) \<Rightarrow>
      case vc_Store cfg of None \<Rightarrow> (Inr results, s3) | Some store \<Rightarrow>
      case st_Forget store \<lparr>fr_Scope = scope, fr_Episodes = []\<rparr> s3 of Inl e \<Rightarrow> (Inl e, s3) | Inr (_, s4) \<Rightarrow> (Inr results, s4))"

fun run_questions ::
  "'s eval_env \<Rightarrow> 's EvalConfig \<Rightarrow> 's Memory \<Rightarrow> int \<Rightarrow> ('s Memory \<times> 's Variant) list \<Rightarrow> (err + Question) list \<Rightarrow> Summary list \<Rightarrow> 's \<Rightarrow> (err + Summary list) \<times> 's" where
  "run_questions env cfg mem limit variants [] summaries s = (Inr summaries, s)"
| "run_questions env cfg mem limit variants (Inl e # qs) summaries s = (Inl e, s)"
| "run_questions env cfg mem limit variants (Inr q # qs) summaries s =
     (if length (qn_Relevant q) = 0
      then run_questions env cfg mem limit variants qs (map (\<lambda>m. m\<lparr>sm_Skipped := sm_Skipped m + 1\<rparr>) summaries) s
      else case run_question env cfg mem q limit variants s of (Inl e, s') \<Rightarrow> (Inl e, s')
           | (Inr results, s') \<Rightarrow> run_questions env cfg mem limit variants qs (map2 (summary_add (ee_rnd env)) results summaries) s')"

definition Eval_Run :: "'s eval_env \<Rightarrow> 's EvalConfig \<Rightarrow> Dataset \<Rightarrow> 's \<Rightarrow> (err + Summary list) \<times> 's" where
  "Eval_Run env cfg ds s =
     (case vc_Memory cfg of None \<Rightarrow> (Inl ErrInvalidConfig, s) | Some mem \<Rightarrow>
      let limit = (if vc_Limit cfg = 0 then DefaultLimit else vc_Limit cfg);
          chosen = (if length (vc_Variants cfg) = 0 then [\<lparr>va_Name = ''default'', va_Channels = [], va_Memory = None\<rparr>] else vc_Variants cfg);
          variants = map (\<lambda>v. (case va_Memory v of None \<Rightarrow> mem | Some m \<Rightarrow> m, v)) chosen;
          summaries = map (\<lambda>v. new_summary (ds_Name ds) (va_Name v) (va_Channels v) limit) chosen
      in case run_questions env cfg mem limit variants (ds_Questions ds) summaries s of
           (Inl e, s') \<Rightarrow> (Inl e, s')
         | (Inr out, s') \<Rightarrow> (Inr (map (summary_finish (ee_rnd env)) out), s'))"

subsection \<open>The LongMemEval loader\<close>

record lmeTurn =
  lt_Role :: string
  lt_Content :: string
  lt_HasAnswer :: bool

record lmeInstance =
  li_QuestionID :: string
  li_QuestionType :: string
  li_Question :: string
  li_Answer :: string
  li_QuestionDate :: string
  li_HaystackDates :: "string list"
  li_HaystackSessionIDs :: "string list"
  li_HaystackSessions :: "lmeTurn list list"

definition lmeRole :: "string \<Rightarrow> err + Role" where
  "lmeRole role = (if role = ''user'' then Inr RoleUser else if role = ''assistant'' then Inr RoleAssistant else Inl ErrInvalidRole)"

definition lme_request :: "gotime \<Rightarrow> string \<Rightarrow> Role \<Rightarrow> lmeTurn \<Rightarrow> AppendRequest" where
  "lme_request occurred session role turn =
     \<lparr>ar_Scope = '''', ar_Content = lt_Content turn, ar_Role = role, ar_Actor = '''', ar_Source = ''longmemeval'', ar_OccurredAt = occurred,
      ar_Binding = [(''session'', session)]\<rparr>"

fun lme_turns :: "gotime \<Rightarrow> string \<Rightarrow> lmeTurn list \<Rightarrow> AppendRequest list \<times> nat list \<Rightarrow> err + (AppendRequest list \<times> nat list)" where
  "lme_turns occurred session [] acc = Inr acc"
| "lme_turns occurred session (turn # turns) (haystack, relevant) =
     (if TrimSpace (lt_Content turn) = '''' then lme_turns occurred session turns (haystack, relevant)
      else case lmeRole (lt_Role turn) of Inl e \<Rightarrow> Inl e | Inr role \<Rightarrow>
           lme_turns occurred session turns
             (haystack @ [lme_request occurred session role turn], if lt_HasAnswer turn then relevant @ [length haystack] else relevant))"

text \<open>\<open>date\<close> is \<^verbatim>\<open>time.Parse\<close> with the layout of the benchmark.\<close>

fun lme_sessions ::
  "(string \<Rightarrow> gotime option) \<Rightarrow> string list \<Rightarrow> string list \<Rightarrow> nat \<Rightarrow> lmeTurn list list \<Rightarrow> AppendRequest list \<times> nat list \<Rightarrow> err + (AppendRequest list \<times> nat list)" where
  "lme_sessions date dates ids i [] acc = Inr acc"
| "lme_sessions date dates ids i (session # rest) acc =
     (if i \<ge> length dates then Inl (Foreign ''no date'')
      else case date (dates ! i) of None \<Rightarrow> Inl (Foreign ''date'') | Some occurred \<Rightarrow>
      case lme_turns occurred (if i < length ids then ids ! i else '''') session acc of Inl e \<Rightarrow> Inl e
      | Inr acc' \<Rightarrow> lme_sessions date dates ids (i + 1) rest acc')"

definition lme_question :: "(string \<Rightarrow> gotime option) \<Rightarrow> lmeInstance \<Rightarrow> err + Question" where
  "lme_question date inst =
     (case date (li_QuestionDate inst) of None \<Rightarrow> Inl (Foreign ''date'') | Some asked \<Rightarrow>
      case lme_sessions date (li_HaystackDates inst) (li_HaystackSessionIDs inst) 0 (li_HaystackSessions inst) ([], []) of Inl e \<Rightarrow> Inl e
      | Inr (haystack, relevant) \<Rightarrow>
          Inr \<lparr>qn_ID = li_QuestionID inst, qn_Type = li_QuestionType inst, qn_Query = li_Question inst, qn_Answer = li_Answer inst,
               qn_Asked = asked, qn_Haystack = haystack, qn_Relevant = relevant\<rparr>)"

text \<open>
  The reader of the file. \<open>contents\<close> is what the JSON decoder makes of it: an error on opening or on the first token, or one decoded instance (or decoding error) after another. A
  decoding error ends the reading, an instance that makes no question does not. \<open>unmarshal\<close> is the decoder on a single string.
\<close>

definition loose_UnmarshalJSON :: "(string \<Rightarrow> string option) \<Rightarrow> string \<Rightarrow> string" where
  "loose_UnmarshalJSON unmarshal json =
     (case unmarshal json of Some s \<Rightarrow> s
      | None \<Rightarrow> rev (dropWhile (\<lambda>c. c = CHR 0x22) (rev (dropWhile (\<lambda>c. c = CHR 0x22) json))))"

fun decode_questions :: "(string \<Rightarrow> gotime option) \<Rightarrow> (err + lmeInstance) list \<Rightarrow> (err + Question) list" where
  "decode_questions date [] = []"
| "decode_questions date (Inl e # rest) = [Inl e]"
| "decode_questions date (Inr inst # rest) = lme_question date inst # decode_questions date rest"

definition longMemEvalQuestions :: "(string \<Rightarrow> gotime option) \<Rightarrow> err + (err + lmeInstance) list \<Rightarrow> (err + Question) list" where
  "longMemEvalQuestions date contents = (case contents of Inl e \<Rightarrow> [Inl e] | Inr insts \<Rightarrow> decode_questions date insts)"

definition LongMemEval :: "(string \<Rightarrow> gotime option) \<Rightarrow> string \<Rightarrow> err + (err + lmeInstance) list \<Rightarrow> Dataset" where
  "LongMemEval date base contents = \<lparr>ds_Name = ''LongMemEval ('' @ base @ '')'', ds_Questions = longMemEvalQuestions date contents\<rparr>"

subsection \<open>Scores\<close>

text \<open>What is used of the arithmetic: rounding is monotone, stable and exact on zero and one; the logarithm is one at two and does not fall.\<close>

definition rounding :: "(rat \<Rightarrow> rat) \<Rightarrow> bool" where
  "rounding rnd \<longleftrightarrow> mono rnd \<and> (\<forall>x. rnd (rnd x) = rnd x) \<and> rnd 0 = 0 \<and> rnd 1 = 1"

definition log_like :: "(nat \<Rightarrow> rat) \<Rightarrow> bool" where
  "log_like lg \<longleftrightarrow> lg 2 = 1 \<and> (\<forall>m n. 2 \<le> m \<and> m \<le> n \<longrightarrow> lg m \<le> lg n)"

text \<open>The positions of the relevant episodes in the ranking.\<close>

fun ranks :: "int set \<Rightarrow> nat \<Rightarrow> RecalledEpisode list \<Rightarrow> nat list" where
  "ranks relevant r [] = []"
| "ranks relevant r (e # es) = (if ep_Seq (re_Episode e) - 1 \<in> relevant then r # ranks relevant (r + 1) es else ranks relevant (r + 1) es)"

definition add_gain :: "(rat \<Rightarrow> rat) \<Rightarrow> (nat \<Rightarrow> rat) \<Rightarrow> rat \<Rightarrow> nat \<Rightarrow> rat" where
  "add_gain rnd lg g r = rnd (g + gain_at rnd lg r)"

lemma ranks_filter: "ranks relevant r es = map (\<lambda>i. i + r) (filter (\<lambda>i. ep_Seq (re_Episode (es ! i)) - 1 \<in> relevant) [0..<length es])"
proof (induction es arbitrary: r)
  case (Cons e es)
  have "[0..<length (e # es)] = 0 # map Suc [0..<length es]" by (simp add: map_Suc_upt upt_conv_Cons[of 0] del: upt_Suc)
  then show ?case using Cons[of "r + 1"] by (simp add: filter_map o_def)
qed simp

lemma score_loop_eq:
  "score_loop rnd lg relevant r es st =
     \<lparr>ty_found = ty_found st + length (ranks relevant r es), ty_hit = (ty_hit st \<or> ranks relevant r es \<noteq> []),
      ty_rr = (if ty_hit st then ty_rr st else case ranks relevant r es of [] \<Rightarrow> ty_rr st | k # _ \<Rightarrow> rnd (1 / of_nat (k + 1))),
      ty_gain = foldl (add_gain rnd lg) (ty_gain st) (ranks relevant r es)\<rparr>"
  by (induction rnd lg relevant r es st rule: score_loop.induct) (auto simp: add_gain_def)

lemma idcg_eq: "idcg_loop rnd lg i n g = foldl (add_gain rnd lg) g [i..<i + n]"
  by (induction rnd lg i n g rule: idcg_loop.induct) (simp_all add: add_gain_def upt_rec)

lemma gain_bounds:
  assumes "rounding rnd" "log_like lg"
  shows "0 \<le> gain_at rnd lg r" "r \<le> r' \<Longrightarrow> gain_at rnd lg r' \<le> gain_at rnd lg r"
proof -
  have one: "1 \<le> lg (n + 2)" for n using assms(2) unfolding log_like_def by (metis le_add2 order_refl)
  have m: "mono rnd" "rnd 0 = 0" using assms(1) by (auto simp: rounding_def)
  have pos: "0 < lg (n + 2)" for n using one[of n] by simp
  then have "(0 :: rat) \<le> 1 / lg (r + 2)" by (simp add: less_imp_le)
  then show "0 \<le> gain_at rnd lg r" using m by (metis gain_at_def monoD)
  show "gain_at rnd lg r' \<le> gain_at rnd lg r" if "r \<le> r'"
  proof -
    have "lg (r + 2) \<le> lg (r' + 2)" using assms(2) that by (auto simp: log_like_def)
    then have "1 / lg (r' + 2) \<le> 1 / lg (r + 2)" using pos by (intro divide_left_mono mult_pos_pos) auto
    then show ?thesis using m(1) by (auto simp: gain_at_def mono_def)
  qed
qed

lemma foldl_gain_mono:
  assumes "rounding rnd" "list_all2 (\<lambda>a b. gain_at rnd lg a \<le> gain_at rnd lg b) xs ys" "g \<le> g'"
  shows "foldl (add_gain rnd lg) g xs \<le> foldl (add_gain rnd lg) g' ys"
  using assms(2,3)
proof (induction arbitrary: g g' rule: list_all2_induct)
  case (Cons x xs y ys)
  have "add_gain rnd lg g x \<le> add_gain rnd lg g' y"
    using Cons(1,4) assms(1) by (auto simp: add_gain_def rounding_def intro!: monoD[of rnd])
  then show ?case using Cons.IH by simp
qed simp

lemma foldl_gain_grows:
  assumes "rounding rnd" "log_like lg" "rnd g = g"
  shows "g \<le> foldl (add_gain rnd lg) g xs"
  using assms(3)
proof (induction xs arbitrary: g)
  case (Cons x xs)
  have "rnd g \<le> rnd (g + gain_at rnd lg x)" using gain_bounds(1)[OF assms(1,2)] assms(1) by (auto simp: rounding_def intro!: monoD[of rnd])
  then have "g \<le> add_gain rnd lg g x" "rnd (add_gain rnd lg g x) = add_gain rnd lg g x" using Cons.prems assms(1) by (auto simp: add_gain_def rounding_def)
  then show ?case using Cons.IH[of "add_gain rnd lg g x"] by simp
qed simp

text \<open>Strictly increasing positions lie no earlier than the first positions.\<close>

lemma strict_ge_index: "sorted_wrt (<) (xs :: nat list) \<Longrightarrow> i < length xs \<Longrightarrow> i \<le> xs ! i"
proof (induction i)
  case (Suc i)
  then have "i \<le> xs ! i" "xs ! i < xs ! Suc i" by (auto simp: sorted_wrt_iff_nth_less)
  then show ?case by simp
qed simp

lemma gain_le_ideal:
  assumes "rounding rnd" "log_like lg" "sorted_wrt (<) rs" "length rs \<le> n"
  shows "foldl (add_gain rnd lg) 0 rs \<le> foldl (add_gain rnd lg) 0 [0..<n]"
proof -
  have "foldl (add_gain rnd lg) 0 rs \<le> foldl (add_gain rnd lg) 0 [0..<length rs]"
    by (rule foldl_gain_mono[OF assms(1)]) (use gain_bounds(2)[OF assms(1,2)] strict_ge_index[OF assms(3)] in \<open>auto simp: list_all2_conv_all_nth\<close>)
  also have "\<dots> \<le> foldl (add_gain rnd lg) (foldl (add_gain rnd lg) 0 [0..<length rs]) [length rs..<n]"
  proof (rule foldl_gain_grows[OF assms(1,2)])
    show "rnd (foldl (add_gain rnd lg) 0 [0..<length rs]) = foldl (add_gain rnd lg) 0 [0..<length rs]"
      using assms(1) by (cases "length rs") (auto simp: add_gain_def rounding_def)
  qed
  also have "\<dots> = foldl (add_gain rnd lg) 0 [0..<n]" using assms(4) by (metis foldl_append upt_add_eq_append le_add_diff_inverse zero_le)
  finally show ?thesis .
qed

lemma score_counts:
  assumes "distinct (map (\<lambda>e. ep_Seq (re_Episode e)) es)" "finite relevant"
  shows "length (ranks relevant r es) \<le> card relevant" "length (ranks relevant r es) \<le> length es" "sorted_wrt (<) (ranks relevant 0 es)"
proof -
  let ?f = "\<lambda>i. ep_Seq (re_Episode (es ! i)) - 1"
  let ?is = "filter (\<lambda>i. ?f i \<in> relevant) [0..<length es]"
  have inj: "inj_on ?f (set ?is)" using assms(1) by (auto simp: inj_on_def distinct_conv_nth)
  have "length ?is = card (set ?is)" by (rule distinct_card[symmetric]) simp
  also have "\<dots> = card (?f ` set ?is)" by (rule card_image[OF inj, symmetric])
  also have "\<dots> \<le> card relevant" by (rule card_mono[OF assms(2)]) auto
  finally show "length (ranks relevant r es) \<le> card relevant" by (simp add: ranks_filter)
  show "length (ranks relevant r es) \<le> length es" by (simp add: ranks_filter) (metis length_filter_le length_upt minus_nat.diff_0)
  show "sorted_wrt (<) (ranks relevant 0 es)" by (simp add: ranks_filter sorted_wrt_filter)
qed


definition sample_recalled :: "int \<Rightarrow> RecalledEpisode" where
  "sample_recalled seq =
     \<lparr>re_Episode = \<lparr>ep_ID = 1, ep_Scope = ''s'', ep_Seq = seq, ep_Content = ''c'', ep_Role = ''user'', ep_Actor = '''', ep_Source = '''',
        ep_OccurredAt = Time 1 0, ep_IngestedAt = Time 1 0, ep_Binding = []\<rparr>, re_Score = 0, re_Hits = [], re_Tokens = 1\<rparr>"

definition sample_recollection :: Recollection where
  "sample_recollection =
     \<lparr>rc_Scope = ''s'', rc_AsOf = Time 1 0, rc_Facts = [], rc_Episodes = [sample_recalled 3, sample_recalled 1], rc_Channels = [], rc_Tokens = 2, rc_Truncated = False\<rparr>"

definition sample_question :: Question where
  "sample_question = \<lparr>qn_ID = ''q'', qn_Type = ''t'', qn_Query = ''x'', qn_Answer = ''y'', qn_Asked = Time 9 0, qn_Haystack = [], qn_Relevant = [0]\<rparr>"


subsection \<open>The labels\<close>

text \<open>The turns that become episodes, in order, each with whether it carries the answer.\<close>

definition spoken :: "lmeTurn list list \<Rightarrow> lmeTurn list" where
  "spoken sessions = filter (\<lambda>t. TrimSpace (lt_Content t) \<noteq> '''') (concat sessions)"

lemma spoken_Cons: "spoken (s # ss) = filter (\<lambda>t. TrimSpace (lt_Content t) \<noteq> '''') s @ spoken ss"
  by (simp add: spoken_def)

text \<open>A haystack with its labels, against the turns it was made from.\<close>

definition labels :: "lmeTurn list \<Rightarrow> AppendRequest list \<times> nat list \<Rightarrow> bool" where
  "labels turns acc \<longleftrightarrow> map ar_Content (fst acc) = map lt_Content turns \<and> snd acc = filter (\<lambda>i. lt_HasAnswer (turns ! i)) [0..<length turns]"

lemma labels_snoc:
  assumes "labels turns (h, r)" "ar_Content req = lt_Content t"
  shows "labels (turns @ [t]) (h @ [req], if lt_HasAnswer t then r @ [length h] else r)"
proof -
  have len: "length h = length turns" using assms(1) by (simp add: labels_def) (metis length_map)
  have "filter (\<lambda>i. lt_HasAnswer ((turns @ [t]) ! i)) [0..<length turns] = filter (\<lambda>i. lt_HasAnswer (turns ! i)) [0..<length turns]"
    by (rule filter_cong) (simp_all add: nth_append)
  then show ?thesis using assms len by (simp add: labels_def)
qed

lemma lme_turns_labels:
  assumes "lme_turns occurred session ts acc = Inr out" "labels turns acc"
  shows "labels (turns @ filter (\<lambda>t. TrimSpace (lt_Content t) \<noteq> '''') ts) out"
  using assms
proof (induction occurred session ts acc arbitrary: turns rule: lme_turns.induct)
  case (2 occurred session t ts h r)
  show ?case
  proof (cases "TrimSpace (lt_Content t) = ''''")
    case True
    then show ?thesis using 2 by simp
  next
    case False
    then obtain role where role: "lmeRole (lt_Role t) = Inr role" using "2.prems"(1) by (cases "lmeRole (lt_Role t)") auto
    have "labels ((turns @ [t]) @ filter (\<lambda>t. TrimSpace (lt_Content t) \<noteq> '''') ts) out"
      by (rule "2.IH"(2)[OF False role]) (use "2.prems" False role labels_snoc in \<open>auto simp: lme_request_def\<close>)
    then show ?thesis using False by simp
  qed
qed simp

lemma lme_sessions_labels:
  assumes "lme_sessions date dates ids i ss acc = Inr out" "labels turns acc"
  shows "labels (turns @ spoken ss) out"
  using assms
proof (induction date dates ids i ss acc arbitrary: turns rule: lme_sessions.induct)
  case (2 date dates ids i s ss acc)
  then obtain occurred acc' where o: "\<not> i \<ge> length dates" "date (dates ! i) = Some occurred"
      "lme_turns occurred (if i < length ids then ids ! i else '''') s acc = Inr acc'" "lme_sessions date dates ids (i + 1) ss acc' = Inr out"
    by (auto split: if_splits option.splits sum.splits)
  from "2.IH"[OF o(1-3) o(4) lme_turns_labels[OF o(3) "2.prems"(2)]] show ?case by (simp add: spoken_Cons)
qed (simp add: spoken_def)

text \<open>
  The loader labels exactly the turns that carry the answer. The haystack holds the non-blank turns of all sessions in order, with their content, and the labels are, in increasing order,
  the positions in the haystack of the turns marked as carrying the answer: skipping a blank turn shifts no label.
\<close>

theorem lme_question_labels:
  assumes "lme_question date inst = Inr q"
  shows "map ar_Content (qn_Haystack q) = map lt_Content (spoken (li_HaystackSessions inst))
    \<and> qn_Relevant q = filter (\<lambda>i. lt_HasAnswer (spoken (li_HaystackSessions inst) ! i)) [0..<length (qn_Haystack q)]"
proof -
  obtain h r where hr: "lme_sessions date (li_HaystackDates inst) (li_HaystackSessionIDs inst) 0 (li_HaystackSessions inst) ([], []) = Inr (h, r)"
    and q: "qn_Haystack q = h" "qn_Relevant q = r"
    using assms by (auto simp: lme_question_def split: option.splits sum.splits)
  have "labels [] ([], [])" by (simp add: labels_def)
  from lme_sessions_labels[OF hr this] have l: "labels (spoken (li_HaystackSessions inst)) (h, r)" by simp
  then have "length h = length (spoken (li_HaystackSessions inst))" by (simp add: labels_def) (metis length_map)
  then show ?thesis using l q by (simp add: labels_def)
qed

definition sample_instance :: lmeInstance where
  "sample_instance =
     \<lparr>li_QuestionID = ''q'', li_QuestionType = ''t'', li_Question = ''x'', li_Answer = ''y'', li_QuestionDate = '''', li_HaystackDates = ['''', ''''], li_HaystackSessionIDs = [''a''],
      li_HaystackSessions = [[\<lparr>lt_Role = ''user'', lt_Content = '' '', lt_HasAnswer = False\<rparr>, \<lparr>lt_Role = ''user'', lt_Content = ''b'', lt_HasAnswer = True\<rparr>],
        [\<lparr>lt_Role = ''assistant'', lt_Content = ''c'', lt_HasAnswer = True\<rparr>]]\<rparr>"

definition sample_loaded :: Question where
  "sample_loaded =
     \<lparr>qn_ID = ''q'', qn_Type = ''t'', qn_Query = ''x'', qn_Answer = ''y'', qn_Asked = Time 1 0,
      qn_Haystack = [lme_request (Time 1 0) ''a'' ''user'' \<lparr>lt_Role = ''user'', lt_Content = ''b'', lt_HasAnswer = True\<rparr>,
        lme_request (Time 1 0) '''' ''assistant'' \<lparr>lt_Role = ''assistant'', lt_Content = ''c'', lt_HasAnswer = True\<rparr>], qn_Relevant = [0, 1]\<rparr>"

lemma sample_loaded: "lme_question (\<lambda>_. Some (Time 1 0)) sample_instance = Inr sample_loaded"
  by code_simp

theorem lme_question_labels_witness:
  "map ar_Content (qn_Haystack sample_loaded) = map lt_Content (spoken (li_HaystackSessions sample_instance)) \<and> qn_Relevant sample_loaded = [0, 1]"
  using lme_question_labels[OF sample_loaded] by (simp add: sample_loaded_def)

subsection \<open>Ingestion numbers the haystack\<close>

inductive_cases log_append_cases: "log_step (OpAppend cmd) l l'"

lemma AppendBatch_Append:
  assumes "AppendBatch mem reqs w = (Inr eps, w')" "m_store mem = pg_store sv" "m_clock mem = pg_clock sv"
  obtains now mint_e mint_j res where
    "Append (sv_text_ok sv) mint_e mint_j \<lparr>ac_Episodes = map (new_episode now) reqs, ac_Jobs = jobsFor mem (ar_Scope (hd reqs))\<rparr> (w_db w) = Inr (res, w_db w')"
    "length reqs \<le> MaxAppendBatch" "reqs \<noteq> []"
  using assms by (auto simp: AppendBatch_def pg_clock_def pg_store_def on_db_def Let_def split: if_splits option.splits sum.splits prod.splits)

text \<open>How a log grows by a list of contents.\<close>

definition grows :: "log \<Rightarrow> ScopeID \<Rightarrow> string list \<Rightarrow> log \<Rightarrow> bool" where
  "grows l scope contents l' \<longleftrightarrow>
     (\<exists>new. lg_entries l' = (lg_entries l)(scope := lg_entries l scope @ new) \<and> lg_last l' = (lg_last l)(scope := lg_last l scope + int (length contents))
        \<and> map er_content new = contents \<and> map er_seq new = map (\<lambda>k. lg_last l scope + int k + 1) [0..<length contents])"

lemma grows_nil: "grows l scope [] l"
  by (simp add: grows_def)

lemma grows_append:
  assumes "grows l scope xs l1" "grows l1 scope ys l2"
  shows "grows l scope (xs @ ys) l2"
proof -
  obtain new1 where 1: "lg_entries l1 = (lg_entries l)(scope := lg_entries l scope @ new1)" "lg_last l1 = (lg_last l)(scope := lg_last l scope + int (length xs))"
    "map er_content new1 = xs" "map er_seq new1 = map (\<lambda>k. lg_last l scope + int k + 1) [0..<length xs]" using assms(1) by (auto simp: grows_def)
  obtain new2 where 2: "lg_entries l2 = (lg_entries l1)(scope := lg_entries l1 scope @ new2)" "lg_last l2 = (lg_last l1)(scope := lg_last l1 scope + int (length ys))"
    "map er_content new2 = ys" "map er_seq new2 = map (\<lambda>k. lg_last l1 scope + int k + 1) [0..<length ys]" using assms(2) by (auto simp: grows_def)
  have "map er_seq (new1 @ new2) = map (\<lambda>k. lg_last l scope + int k + 1) [0..<length (xs @ ys)]"
  proof (rule nth_equalityI)
    have len: "length new1 = length xs" "length new2 = length ys" using 1(3) 2(3) by (metis length_map)+
    then show "length (map er_seq (new1 @ new2)) = length (map (\<lambda>k. lg_last l scope + int k + 1) [0..<length (xs @ ys)])" by simp
    fix i assume "i < length (map er_seq (new1 @ new2))"
    then show "map er_seq (new1 @ new2) ! i = map (\<lambda>k. lg_last l scope + int k + 1) [0..<length (xs @ ys)] ! i"
      unfolding map_append 1(4) 2(4) using len 1(2) by (auto simp: nth_append)
  qed
  then show ?thesis unfolding grows_def using 1 2 by (intro exI[of _ "new1 @ new2"]) (simp add: fun_eq_iff)
qed

lemma log_add_grows:
  assumes "eps \<noteq> []" "length ids = length eps" "\<forall>ep \<in> set eps. ne_Scope ep = scope"
  shows "grows l scope (map ne_Content eps) (log_add ids eps l)"
proof -
  let ?new = "map2 (\<lambda>k (i, ep). new_episode_row i scope (lg_last l scope + int k + 1) ep) [0..<length eps] (zip ids eps)"
  have sc: "ne_Scope (hd eps) = scope" using assms(1,3) by (cases eps) auto
  have "map er_content ?new = map ne_Content eps" "map er_seq ?new = map (\<lambda>k. lg_last l scope + int k + 1) [0..<length eps]"
    by (rule nth_equalityI; simp add: assms(2) new_episode_row_def)+
  then show ?thesis unfolding grows_def log_add_def Let_def sc by (intro exI[of _ ?new]) simp
qed

lemma batch_grows:
  assumes "AppendBatch mem (map (\<lambda>r. r\<lparr>ar_Scope := scope\<rparr>) reqs) w = (Inr eps, w')" "m_store mem = pg_store sv" "m_clock mem = pg_clock sv" "db_inv (w_db w)"
  shows "grows (abs_log (w_db w)) scope (map ar_Content reqs) (abs_log (w_db w'))" "db_inv (w_db w')"
proof -
  obtain now mint_e mint_j res where ap: "Append (sv_text_ok sv) mint_e mint_j
      \<lparr>ac_Episodes = map (new_episode now) (map (\<lambda>r. r\<lparr>ar_Scope := scope\<rparr>) reqs), ac_Jobs = jobsFor mem (ar_Scope (hd (map (\<lambda>r. r\<lparr>ar_Scope := scope\<rparr>) reqs)))\<rparr> (w_db w) = Inr (res, w_db w')"
      (is "Append _ _ _ ?cmd _ = _")
    and len: "length (map (\<lambda>r. r\<lparr>ar_Scope := scope\<rparr>) reqs) \<le> MaxAppendBatch"
    by (rule AppendBatch_Append[OF assms(1-3)])
  have small: "length (ac_Episodes ?cmd) < 2 ^ 31" using len by (simp add: limit_defs)
  show "db_inv (w_db w')" by (rule Append_inv[OF assms(4) small ap])
  obtain ids where "ac_Episodes ?cmd \<noteq> []" "length ids = length (ac_Episodes ?cmd)" "abs_log (w_db w') = log_add ids (ac_Episodes ?cmd) (abs_log (w_db w))"
    by (rule log_append_cases[OF append_simulates[OF assms(4) ap small]]) auto
  then have "grows (abs_log (w_db w)) scope (map ne_Content (ac_Episodes ?cmd)) (abs_log (w_db w'))"
    using log_add_grows[of "ac_Episodes ?cmd" ids scope "abs_log (w_db w)"] by (simp add: new_episode_def)
  moreover have "map ne_Content (ac_Episodes ?cmd) = map ar_Content reqs" by (simp add: new_episode_def)
  ultimately show "grows (abs_log (w_db w)) scope (map ar_Content reqs) (abs_log (w_db w'))" by (simp only:)
qed

lemma ingest_grows:
  assumes "m_store mem = pg_store sv" "m_clock mem = pg_clock sv" "db_inv (w_db w)" "ingest mem scope h w = (None, w')"
  shows "grows (abs_log (w_db w)) scope (map ar_Content h) (abs_log (w_db w')) \<and> db_inv (w_db w')"
  using assms(3,4)
proof (induction h arbitrary: w rule: length_induct)
  case (1 h)
  show ?case
  proof (cases "h = []")
    case True
    then show ?thesis using "1.prems" by (simp add: ingest.simps grows_nil)
  next
    case False
    then obtain eps w1 where b: "AppendBatch mem (map (\<lambda>r. r\<lparr>ar_Scope := scope\<rparr>) (take MaxAppendBatch h)) w = (Inr eps, w1)"
      "ingest mem scope (drop MaxAppendBatch h) w1 = (None, w')"
      using "1.prems"(2) by (subst (asm) ingest.simps) (auto split: prod.splits sum.splits)
    note g = batch_grows[OF b(1) assms(1,2) "1.prems"(1)]
    have "length (drop MaxAppendBatch h) < length h" using False by (simp add: limit_defs)
    then have "grows (abs_log (w_db w1)) scope (map ar_Content (drop MaxAppendBatch h)) (abs_log (w_db w')) \<and> db_inv (w_db w')"
      using "1.IH" g(2) b(2) by blast
    then show ?thesis using grows_append[OF g(1)] by (metis append_take_drop_id map_append)
  qed
qed

text \<open>
  After a haystack was ingested into a fresh scope the labels mean what they say: the scope holds exactly the haystack, in order, and the episode with sequence number \<open>k + 1\<close> is the \<open>k\<close>-th of the haystack,
  however the haystack was split into batches. No other scope has changed.
\<close>

theorem ingest_numbers_haystack:
  assumes "m_store mem = pg_store sv" "m_clock mem = pg_clock sv" "db_inv (w_db w)"
    and fresh: "lg_entries (abs_log (w_db w)) scope = []" "lg_last (abs_log (w_db w)) scope = 0"
    and ok: "ingest mem scope haystack w = (None, w')"
  shows "map er_content (lg_entries (abs_log (w_db w')) scope) = map ar_Content haystack
    \<and> map er_seq (lg_entries (abs_log (w_db w')) scope) = map (\<lambda>k. int k + 1) [0..<length haystack]
    \<and> (\<forall>other. other \<noteq> scope \<longrightarrow> lg_entries (abs_log (w_db w')) other = lg_entries (abs_log (w_db w)) other) \<and> db_inv (w_db w')"
  using ingest_grows[OF assms(1-3) ok] fresh by (auto simp: grows_def)

definition sample_mem :: "world Memory" where
  "sample_mem =
     \<lparr>m_store = pg_store sample_server, m_queue = pg_queue sample_server, m_embedder = sample_embedder, m_extractor = None, m_facts = None, m_clock = pg_clock sample_server,
      m_tokens = (\<lambda>_. 3), m_fusion = \<lparr>fo_K = 60, fo_Weights = []\<rparr>, m_defaultLimit = 10\<rparr>"

definition sample_haystack :: "AppendRequest list" where
  "sample_haystack = [sample_append, sample_append\<lparr>ar_Content := ''yo''\<rparr>]"

definition sample_fresh :: world where
  "sample_fresh = \<lparr>w_db = empty_db 2, w_calls = 0\<rparr>"

lemma sample_batch:
  assumes sv: "sv = sample_server\<lparr>sv_locked := locks\<rparr>" and mem: "mem = sample_mem\<lparr>m_store := pg_store sv, m_clock := pg_clock sv\<rparr>"
    and scope: "scope \<in> {''eval:q'', ''l1:q''}"
  shows "\<exists>eps w'. AppendBatch mem (map (\<lambda>r. r\<lparr>ar_Scope := scope\<rparr>) sample_haystack) sample_fresh = (Inr eps, w') \<and> db_ready (w_db w')"
proof -
  let ?reqs = "map (\<lambda>r. r\<lparr>ar_Scope := scope\<rparr>) sample_haystack"
  let ?cmd = "\<lparr>ac_Episodes = map (new_episode (Time 50 0)) ?reqs, ac_Jobs = jobsFor mem scope\<rparr>"
  have sc: "ScopeID_Validate scope = None" "ValidString scope" using scope by (auto simp: ScopeID_Validate_None limit_defs ascii_simps)
  have valid: "\<forall>r \<in> set ?reqs. AppendRequest_Validate r = None \<and> ar_Scope r = scope"
    using sc(1) by (simp add: sample_haystack_def sample_append_def AppendRequest_Validate_def Actor_Validate_def Source_Validate_def
      Binding_Validate_None Role_Valid_check limit_defs time_simps ascii_simps)
  have hd: "ne_Scope (hd (map (new_episode (Time 50 0)) ?reqs)) = scope" by (simp add: sample_haystack_def new_episode_def)
  have "\<not> IsZero (Time 50 0)" by (simp add: IsZero_def)
  then have "\<forall>r \<in> set ?reqs. validate_new_episode scope (new_episode (Time 50 0) r) = None" using valid validate_new_episode_of by blast
  then have "\<forall>c \<in> set (map (validate_new_episode scope) (map (new_episode (Time 50 0)) ?reqs) @ [validate_append_jobs {} (jobsFor mem scope)]). c = None"
    by (auto simp: jobsFor_valid)
  then have v: "validateAppend ?cmd = None"
    unfolding validateAppend_def AppendCommand.simps hd first_err_None[symmetric] by (simp only: sample_haystack_def list.map list.distinct if_False)
  have "append_admissible ValidString (sv_mint sv 1 ''episodes'') (sv_mint sv 1 ''jobs'') ?cmd (empty_db 2)"
    using sc(2) by (simp add: append_admissible_def Let_def sv mem sample_server_def sample_haystack_def sample_append_def new_episode_def jobsFor_def sample_mem_def
        empty_db_def scope_last_seq_def episode_texts_def fresh_ids_def ascii_simps)
  from Append_ok[OF v db_inv_empty this] obtain res d' where
    ap: "Append ValidString (sv_mint sv 1 ''episodes'') (sv_mint sv 1 ''jobs'') ?cmd (empty_db 2) = Inr (res, d')" by blast
  have tok: "m_store mem = pg_store sv" "sv_text_ok sv = ValidString" by (simp_all add: sv mem sample_server_def)
  have st: "st_Append (m_store mem) ?cmd \<lparr>w_db = empty_db 2, w_calls = 1\<rparr> = Inr (res, \<lparr>w_db = d', w_calls = 2\<rparr>)"
    using ap unfolding tok(1) by (simp add: pg_store_def on_db_def tok(2))
  have clock: "m_clock mem sample_fresh = (Time 50 0, \<lparr>w_db = empty_db 2, w_calls = 1\<rparr>)"
    by (simp add: mem sv pg_clock_def sample_fresh_def sample_server_def)
  have fe: "first_err (map (batch_check scope) ?reqs) = None" using valid by (simp only: batch_checks)
  have len: "length ?reqs \<noteq> 0" "\<not> length ?reqs > MaxAppendBatch" "ar_Scope (hd ?reqs) = scope" by (simp_all add: sample_haystack_def limit_defs)
  have "AppendBatch mem ?reqs sample_fresh = (Inr (as_Episodes res), \<lparr>w_db = d', w_calls = 2\<rparr>)"
    unfolding AppendBatch_def if_not_P[OF len(1)] if_not_P[OF len(2)] clock Let_def prod.case len(3) fe option.case st sum.case ..
  moreover have "db_ready d'" by (rule Append_prefix(7)[OF ap])
  ultimately show ?thesis by auto
qed

lemma sample_ingest:
  assumes sv: "sv = sample_server\<lparr>sv_locked := locks\<rparr>" and mem: "mem = sample_mem\<lparr>m_store := pg_store sv, m_clock := pg_clock sv\<rparr>"
    and scope: "scope \<in> {''eval:q'', ''l1:q''}"
  shows "\<exists>w'. ingest mem scope sample_haystack sample_fresh = (None, w') \<and> db_ready (w_db w')"
proof -
  have "take MaxAppendBatch sample_haystack = sample_haystack" "drop MaxAppendBatch sample_haystack = []" by (simp_all add: sample_haystack_def limit_defs)
  then show ?thesis using sample_batch[OF assms] by (subst ingest.simps) (auto simp: sample_haystack_def ingest.simps[of _ _ "[]"])
qed

theorem ingest_numbers_haystack_witness:
  "\<exists>w'. ingest sample_mem ''eval:q'' sample_haystack sample_fresh = (None, w')
     \<and> map er_content (lg_entries (abs_log (w_db w')) ''eval:q'') = [''hi'', ''yo''] \<and> map er_seq (lg_entries (abs_log (w_db w')) ''eval:q'') = [1, 2]"
proof -
  obtain w' where w': "ingest sample_mem ''eval:q'' sample_haystack sample_fresh = (None, w')"
    using sample_ingest[OF refl refl, of "''eval:q''" "\<lambda>_ _. False"] by (auto simp: sample_mem_def sample_server_def)
  have "m_store sample_mem = pg_store sample_server" "m_clock sample_mem = pg_clock sample_server" by (simp_all add: sample_mem_def)
  note L = ingest_numbers_haystack[OF this, of sample_fresh "''eval:q''" sample_haystack w']
  then show ?thesis using w' by (simp add: sample_fresh_def db_inv_empty abs_log_empty log_empty_def sample_haystack_def sample_append_def upt_rec)
qed

end
