(* ===== verification/Eval_L1.thy ===== *)
theory Eval_L1
  imports Eval
begin

section \<open>Measuring extraction\<close>

text \<open>
  \<^verbatim>\<open>eval/l1.go\<close>: whether extracted facts are true, and whether they supersede. Parameters beside those of the retrieval harness: case folding, splitting into
  words at everything that is neither letter nor digit (Unicode tables), the text of a fact id, and the instants read from the system clock.
  The lemmas show that a haystack is split into its conversations without losing or reordering anything, and when a queue counts as drained.
\<close>

record 's l1_env = "'s eval_env" +
  ln_lower :: "string \<Rightarrow> string"
  ln_words :: "string \<Rightarrow> string list"
  ln_fact :: "FactID \<Rightarrow> string"
  ln_now :: "string \<Rightarrow> nat \<Rightarrow> gotime"
  ln_duration :: "string \<Rightarrow> int"

record 's L1Config =
  lc_Memory :: "'s Memory option"
  lc_Worker :: "'s Worker option"
  lc_Facts :: "'s FactStore option"
  lc_Extractor :: "'s Extractor option"
  lc_Store :: "'s Store option"
  lc_Replay :: bool

record L1Result =
  lr_ID :: string
  lr_Type :: string
  lr_Episodes :: nat
  lr_Facts :: nat
  lr_Open :: nat
  lr_Closed :: nat
  lr_Contradictions :: nat
  lr_AnswerCovered :: bool
  lr_ReplayStable :: "bool option"
  lr_Duration :: int

record L1TypeSummary =
  lt_Type :: string
  lt_Questions :: nat
  lt_SupersessionRate :: rat
  lt_ContradictionRate :: rat
  lt_AnswerCoverage :: rat
  lt_superseded :: nat
  lt_contradicted :: nat
  lt_covered :: nat

record L1Summary =
  ls_Dataset :: string
  ls_Questions :: nat
  ls_Skipped :: nat
  ls_FactsPerEpisode :: rat
  ls_SupersessionRate :: rat
  ls_ContradictionRate :: rat
  ls_AnswerCoverage :: rat
  ls_ReplayStability :: rat
  ls_Replayed :: nat
  ls_ByType :: "(string \<times> L1TypeSummary) list"
  ls_P50 :: int
  ls_P95 :: int
  ls_episodes :: nat
  ls_facts :: nat
  ls_superseded :: nat
  ls_contradicted :: nat
  ls_covered :: nat
  ls_stable :: nat
  ls_durations :: "int list"

subsection \<open>Conversations, answers and claims\<close>

definition session_of :: "AppendRequest \<Rightarrow> string" where
  "session_of r = (case map_of (ar_Binding r) ''session'' of None \<Rightarrow> '''' | Some i \<Rightarrow> i)"

fun sessions_loop :: "AppendRequest list \<Rightarrow> string \<Rightarrow> AppendRequest list list \<Rightarrow> AppendRequest list list" where
  "sessions_loop [] current out = out"
| "sessions_loop (request # rest) current out =
     (let i = session_of request in
      if length out = 0 \<or> i \<noteq> current then sessions_loop rest i (out @ [[request]])
      else sessions_loop rest current (butlast out @ [last out @ [request]]))"

definition sessions :: "AppendRequest list \<Rightarrow> AppendRequest list list" where
  "sessions haystack = sessions_loop haystack '''' []"

definition stopWords :: "string set" where
  "stopWords = {''the'', ''a'', ''an'', ''and'', ''or'', ''of'', ''to'', ''in'', ''is'', ''was'', ''are'', ''were'', ''for'', ''on'', ''at'', ''it'',
     ''that'', ''this'', ''with'', ''as'', ''by'', ''from'', ''has'', ''have''}"

definition contentWords :: "'s l1_env \<Rightarrow> string \<Rightarrow> string set" where
  "contentWords env s = set (filter (\<lambda>field. length field > 2 \<and> field \<notin> stopWords) (ln_words env (ln_lower env s)))"

definition covers :: "'s l1_env \<Rightarrow> string \<Rightarrow> string \<Rightarrow> bool" where
  "covers env statement answer =
     (let wanted = contentWords env answer; have = contentWords env statement; found = card (wanted \<inter> have) in
      if card wanted = 0 then False
      else ee_rnd env (of_nat found / of_nat (card wanted)) \<ge> ee_rnd env (66 / 100))"

definition render_claims :: "'s l1_env \<Rightarrow> ExtractResult \<Rightarrow> string list" where
  "render_claims env r = sort_by (\<le>)
     (map (\<lambda>a. ''a|'' @ a_Subject a @ ''|'' @ a_Predicate a @ ''|'' @ a_Object a) (xs_Assert r)
      @ map (\<lambda>t. ''r|'' @ ln_fact env (r_Fact t)) (xs_Retract r))"

definition sameClaims :: "'s l1_env \<Rightarrow> ExtractResult \<Rightarrow> ExtractResult \<Rightarrow> bool" where
  "sameClaims env a b \<longleftrightarrow> render_claims env a = render_claims env b"

definition replayStable :: "'s l1_env \<Rightarrow> 's Memory \<Rightarrow> 's Extractor \<Rightarrow> ScopeID \<Rightarrow> Question \<Rightarrow> Fact list \<Rightarrow> 's \<Rightarrow> (err + bool) \<times> 's" where
  "replayStable env mem x scope q known s =
     (if length (sessions (qn_Haystack q)) = 0 then (Inr True, s)
      else case Recall (ee_rnd env) (ee_views env (qn_ID q) 0) (ee_elapsed env (qn_ID q) 0) (ee_ctx_err env) mem
             \<lparr>rr_Scope = scope, rr_Query = qn_Query q, rr_AsOf = zero_time, rr_OccurredFrom = zero_time, rr_OccurredTo = zero_time, rr_Binding = [], rr_Roles = [],
              rr_Channels = [ChannelLexical], rr_CandidatesPerChannel = 0, rr_Limit = 8, rr_FactLimit = 0, rr_MinFactConfidence = Fin 0, rr_Subjects = [], rr_MaxTokens = 0\<rparr> s of
        (Inl e, s') \<Rightarrow> (Inl e, s')
      | (Inr eps, s') \<Rightarrow>
          if length (rc_Episodes eps) = 0 then (Inr True, s')
          else let reread = sort_by (le_key ep_Seq) (map re_Episode (rc_Episodes eps));
                   ask = (\<lambda>n. ex_Extract x \<lparr>xr_Scope = scope, xr_Episodes = reread, xr_Known = known, xr_Now = ln_now env (qn_ID q) n\<rparr> s')
               in case ask 2 of Inl e \<Rightarrow> (Inl e, s') | Inr first \<Rightarrow>
                  (case ask 3 of Inl e \<Rightarrow> (Inl e, s') | Inr second \<Rightarrow> (Inr (sameClaims env first second), s')))"

subsection \<open>One question\<close>

text \<open>The sessions one at a time, draining between them.\<close>

fun feed_sessions :: "'s l1_env \<Rightarrow> 's Memory \<Rightarrow> 's Worker \<Rightarrow> ScopeID \<Rightarrow> AppendRequest list list \<Rightarrow> 's \<Rightarrow> err option \<times> 's" where
  "feed_sessions env mem worker scope [] s = (None, s)"
| "feed_sessions env mem worker scope (session # rest) s =
     (case ingest mem scope session s of (Some e, s1) \<Rightarrow> (Some e, s1) | (None, s1) \<Rightarrow>
      case drain (ee_render env) (ee_ctx env) worker s1 of (Some e, s2) \<Rightarrow> (Some e, s2) | (None, s2) \<Rightarrow> feed_sessions env mem worker scope rest s2)"

definition claim_of :: "'s l1_env \<Rightarrow> Fact \<Rightarrow> string" where
  "claim_of env f = ln_lower env (f_Subject f @ [CHR 0x00] @ f_Predicate f)"

text \<open>The loop over the facts counts the open and the closed ones and collects, for each claim, the objects its open facts hold.\<close>

definition add_object :: "string \<Rightarrow> string list \<Rightarrow> string list" where
  "add_object object objects = (if object \<in> set objects then objects else objects @ [object])"

fun tally :: "'s l1_env \<Rightarrow> string \<Rightarrow> Fact list \<Rightarrow> L1Result \<times> (string \<times> string list) list \<Rightarrow> L1Result \<times> (string \<times> string list) list" where
  "tally env answer [] acc = acc"
| "tally env answer (f # fs) (result, opened) =
     (let (result1, opened1) =
            (if IsOpen (f_Valid f) then (result\<lparr>lr_Open := lr_Open result + 1\<rparr>, by_type [] (add_object (f_Object f)) (claim_of env f) opened)
             else (result\<lparr>lr_Closed := lr_Closed result + 1\<rparr>, opened));
          result2 = (if covers env (f_Statement f) answer then result1\<lparr>lr_AnswerCovered := True\<rparr> else result1)
      in tally env answer fs (result2, opened1))"

definition l1_result :: "'s l1_env \<Rightarrow> Question \<Rightarrow> Fact list \<Rightarrow> L1Result" where
  "l1_result env q fs =
     (let (result, opened) = tally env (qn_Answer q) fs
        (\<lparr>lr_ID = qn_ID q, lr_Type = qn_Type q, lr_Episodes = length (qn_Haystack q), lr_Facts = length fs, lr_Open = 0, lr_Closed = 0,
          lr_Contradictions = 0, lr_AnswerCovered = False, lr_ReplayStable = None, lr_Duration = 0\<rparr>, [])
      in result\<lparr>lr_Contradictions := length (filter (\<lambda>(_, objects). length objects > 1) opened), lr_Duration := ln_duration env (qn_ID q)\<rparr>)"

definition runL1 ::
  "'s l1_env \<Rightarrow> 's L1Config \<Rightarrow> 's Memory \<Rightarrow> 's Worker \<Rightarrow> 's FactStore \<Rightarrow> 's Extractor \<Rightarrow> Question \<Rightarrow> 's \<Rightarrow> (err + L1Result) \<times> 's" where
  "runL1 env cfg mem worker fp x q s =
     (let scope = ''l1:'' @ qn_ID q in
      case feed_sessions env mem worker scope (sessions (qn_Haystack q)) s of (Some e, s1) \<Rightarrow> (Inl e, s1) | (None, s1) \<Rightarrow>
      case fp_Facts fp \<lparr>fq_Scope = scope, fq_Extractor = ex_Model x, fq_AsOf = ln_now env (qn_ID q) 0, fq_At = ln_now env (qn_ID q) 1, fq_IncludeClosed = True,
             fq_Subjects = [], fq_Predicates = [], fq_MinConfidence = Fin 0, fq_Text = '''', fq_Limit = 1000\<rparr> s1 of
        Inl e \<Rightarrow> (Inl e, s1)
      | Inr fs \<Rightarrow>
          let result = l1_result env q fs in
          case (if lc_Replay cfg
                then (case replayStable env mem x scope q fs s1 of (Inl e, s2) \<Rightarrow> (Inl e, s2) | (Inr same, s2) \<Rightarrow> (Inr (result\<lparr>lr_ReplayStable := Some same\<rparr>), s2))
                else (Inr result, s1)) of
            (Inl e, s2) \<Rightarrow> (Inl e, s2)
          | (Inr result', s2) \<Rightarrow>
              (case lc_Store cfg of None \<Rightarrow> (Inr result', s2) | Some store \<Rightarrow>
               case st_Forget store \<lparr>fr_Scope = scope, fr_Episodes = []\<rparr> s2 of Inl e \<Rightarrow> (Inl e, s2) | Inr (_, s3) \<Rightarrow> (Inr result', s3)))"

subsection \<open>Aggregating extraction\<close>

definition type_addL1 :: "L1Result \<Rightarrow> L1TypeSummary \<Rightarrow> L1TypeSummary" where
  "type_addL1 r t =
     t\<lparr>lt_Questions := lt_Questions t + 1, lt_superseded := (if lr_Closed r > 0 then lt_superseded t + 1 else lt_superseded t),
       lt_contradicted := (if lr_Contradictions r > 0 then lt_contradicted t + 1 else lt_contradicted t),
       lt_covered := (if lr_AnswerCovered r then lt_covered t + 1 else lt_covered t)\<rparr>"

definition new_typeL1 :: "string \<Rightarrow> L1TypeSummary" where
  "new_typeL1 name =
     \<lparr>lt_Type = name, lt_Questions = 0, lt_SupersessionRate = 0, lt_ContradictionRate = 0, lt_AnswerCoverage = 0, lt_superseded = 0, lt_contradicted = 0, lt_covered = 0\<rparr>"

definition addL1 :: "L1Result \<Rightarrow> L1Summary \<Rightarrow> L1Summary" where
  "addL1 r s =
     s\<lparr>ls_Questions := ls_Questions s + 1, ls_episodes := ls_episodes s + lr_Episodes r, ls_facts := ls_facts s + lr_Facts r,
       ls_superseded := (if lr_Closed r > 0 then ls_superseded s + 1 else ls_superseded s),
       ls_contradicted := (if lr_Contradictions r > 0 then ls_contradicted s + 1 else ls_contradicted s),
       ls_covered := (if lr_AnswerCovered r then ls_covered s + 1 else ls_covered s),
       ls_Replayed := (if lr_ReplayStable r \<noteq> None then ls_Replayed s + 1 else ls_Replayed s),
       ls_stable := (if lr_ReplayStable r = Some True then ls_stable s + 1 else ls_stable s),
       ls_durations := ls_durations s @ [lr_Duration r],
       ls_ByType := by_type (new_typeL1 (lr_Type r)) (type_addL1 r) (lr_Type r) (ls_ByType s)\<rparr>"

definition type_finishL1 :: "(rat \<Rightarrow> rat) \<Rightarrow> L1TypeSummary \<Rightarrow> L1TypeSummary" where
  "type_finishL1 rnd t =
     (if lt_Questions t = 0 then t
      else let n = of_nat (lt_Questions t) in
        t\<lparr>lt_SupersessionRate := rnd (of_nat (lt_superseded t) / n), lt_ContradictionRate := rnd (of_nat (lt_contradicted t) / n),
          lt_AnswerCoverage := rnd (of_nat (lt_covered t) / n)\<rparr>)"

definition finishL1 :: "(rat \<Rightarrow> rat) \<Rightarrow> L1Summary \<Rightarrow> L1Summary" where
  "finishL1 rnd s =
     (let n = of_nat (ls_Questions s);
          s1 = (if ls_Questions s > 0
                then s\<lparr>ls_SupersessionRate := rnd (of_nat (ls_superseded s) / n), ls_ContradictionRate := rnd (of_nat (ls_contradicted s) / n),
                       ls_AnswerCoverage := rnd (of_nat (ls_covered s) / n)\<rparr> else s);
          s2 = (if ls_episodes s > 0 then s1\<lparr>ls_FactsPerEpisode := rnd (of_nat (ls_facts s) / of_nat (ls_episodes s))\<rparr> else s1);
          s3 = (if ls_Replayed s > 0 then s2\<lparr>ls_ReplayStability := rnd (of_nat (ls_stable s) / of_nat (ls_Replayed s))\<rparr> else s2);
          durations = sort_by (\<le>) (ls_durations s)
      in s3\<lparr>ls_ByType := map (\<lambda>(name, t). (name, type_finishL1 rnd t)) (ls_ByType s), ls_durations := durations,
            ls_P50 := percentile rnd durations (1 / 2), ls_P95 := percentile rnd durations (95 / 100)\<rparr>)"

definition new_L1Summary :: "string \<Rightarrow> L1Summary" where
  "new_L1Summary name =
     \<lparr>ls_Dataset = name, ls_Questions = 0, ls_Skipped = 0, ls_FactsPerEpisode = 0, ls_SupersessionRate = 0, ls_ContradictionRate = 0, ls_AnswerCoverage = 0,
      ls_ReplayStability = 0, ls_Replayed = 0, ls_ByType = [], ls_P50 = 0, ls_P95 = 0, ls_episodes = 0, ls_facts = 0, ls_superseded = 0, ls_contradicted = 0,
      ls_covered = 0, ls_stable = 0, ls_durations = []\<rparr>"

fun run_L1_questions ::
  "'s l1_env \<Rightarrow> 's L1Config \<Rightarrow> 's Memory \<Rightarrow> 's Worker \<Rightarrow> 's FactStore \<Rightarrow> 's Extractor \<Rightarrow> (err + Question) list \<Rightarrow> L1Summary \<Rightarrow> 's \<Rightarrow> (err + L1Summary) \<times> 's" where
  "run_L1_questions env cfg mem worker fp x [] summary s = (Inr summary, s)"
| "run_L1_questions env cfg mem worker fp x (Inl e # qs) summary s = (Inl e, s)"
| "run_L1_questions env cfg mem worker fp x (Inr q # qs) summary s =
     (if qn_Answer q = '''' then run_L1_questions env cfg mem worker fp x qs (summary\<lparr>ls_Skipped := ls_Skipped summary + 1\<rparr>) s
      else case runL1 env cfg mem worker fp x q s of (Inl e, s') \<Rightarrow> (Inl e, s')
           | (Inr result, s') \<Rightarrow> run_L1_questions env cfg mem worker fp x qs (addL1 result summary) s')"

definition RunL1 :: "'s l1_env \<Rightarrow> 's L1Config \<Rightarrow> Dataset \<Rightarrow> 's \<Rightarrow> (err + L1Summary) \<times> 's" where
  "RunL1 env cfg ds s =
     (case lc_Memory cfg of None \<Rightarrow> (Inl ErrInvalidConfig, s) | Some mem \<Rightarrow>
      case lc_Worker cfg of None \<Rightarrow> (Inl ErrInvalidConfig, s) | Some worker \<Rightarrow>
      case lc_Facts cfg of None \<Rightarrow> (Inl ErrInvalidConfig, s) | Some fp \<Rightarrow>
      case lc_Extractor cfg of None \<Rightarrow> (Inl ErrInvalidConfig, s) | Some x \<Rightarrow>
      case run_L1_questions env cfg mem worker fp x (ds_Questions ds) (new_L1Summary (ds_Name ds)) s of
        (Inl e, s') \<Rightarrow> (Inl e, s') | (Inr summary, s') \<Rightarrow> (Inr (finishL1 (ee_rnd env) summary), s'))"

subsection \<open>Conversations\<close>

definition one_session :: "AppendRequest list \<Rightarrow> bool" where
  "one_session ss \<longleftrightarrow> session_of ` set ss = {session_of (hd ss)}"

lemma one_session_single: "one_session [r]"
  by (simp add: one_session_def)

lemma one_session_snoc: "one_session ss \<Longrightarrow> session_of r = session_of (hd ss) \<Longrightarrow> one_session (ss @ [r])"
  by (cases ss) (simp_all add: one_session_def)

lemma sessions_loop_partition:
  assumes "\<forall>ss \<in> set out. one_session ss" "distinct_adj (map (\<lambda>ss. session_of (hd ss)) out)"
    and "out \<noteq> [] \<longrightarrow> session_of (hd (last out)) = current"
  shows "concat (sessions_loop h current out) = concat out @ h \<and> (\<forall>ss \<in> set (sessions_loop h current out). one_session ss)
    \<and> distinct_adj (map (\<lambda>ss. session_of (hd ss)) (sessions_loop h current out))"
  using assms
proof (induction h current out rule: sessions_loop.induct)
  case (2 request rest current out)
  show ?case
  proof (cases "length out = 0 \<or> session_of request \<noteq> current")
    case True
    let ?out = "out @ [[request]]"
    have "distinct_adj (map (\<lambda>ss. session_of (hd ss)) ?out)"
      using "2.prems"(2,3) True by (cases "out = []") (simp_all add: distinct_adj_append_iff last_map)
    moreover have "\<forall>ss \<in> set ?out. one_session ss" using "2.prems"(1) one_session_single by auto
    moreover have "?out \<noteq> [] \<longrightarrow> session_of (hd (last ?out)) = session_of request" by simp
    moreover have "sessions_loop (request # rest) current out = sessions_loop rest (session_of request) ?out" using True by (simp add: Let_def)
    moreover have "concat ?out @ rest = concat out @ request # rest" by simp
    ultimately show ?thesis using "2.IH"(1)[OF refl True] by metis
  next
    case False
    then obtain pre ss where out: "out = pre @ [ss]" by (metis length_0_conv rev_exhaust)
    let ?out = "pre @ [ss @ [request]]"
    have one: "one_session ss" "session_of request = session_of (hd ss)" using "2.prems" False out by auto
    then have ss: "ss \<noteq> []" by (auto simp: one_session_def)
    have "distinct_adj (map (\<lambda>ss. session_of (hd ss)) ?out)" using "2.prems"(2) ss by (simp add: out)
    moreover have "\<forall>ss \<in> set ?out. one_session ss" using "2.prems"(1) one_session_snoc[OF one] by (auto simp: out)
    moreover have "?out \<noteq> [] \<longrightarrow> session_of (hd (last ?out)) = current" using "2.prems"(3) ss by (simp add: out)
    moreover have "sessions_loop (request # rest) current out = sessions_loop rest current ?out" using False by (simp add: Let_def out)
    moreover have "concat ?out @ rest = concat out @ request # rest" "butlast out @ [last out @ [request]] = ?out" by (simp_all add: out)
    ultimately show ?thesis using "2.IH"(2)[OF refl False] by metis
  qed
qed simp

lemma sessions_parts:
  "concat (sessions h) = h" "\<forall>ss \<in> set (sessions h). one_session ss"
  "distinct_adj (map (\<lambda>ss. session_of (hd ss)) (sessions h))"
  using sessions_loop_partition[of "[]" "''''" h] by (simp_all add: sessions_def)

subsection \<open>What is counted\<close>

lemma by_type_objects:
  fixes opened :: "(string \<times> string list) list"
  assumes "distinct (map fst opened)"
  shows "distinct (map fst (by_type [] (add_object x) key opened))"
    "map_of (by_type [] (add_object x) key opened) k =
       (if k = key then Some (add_object x (case map_of opened key of None \<Rightarrow> [] | Some xs \<Rightarrow> xs)) else map_of opened k)"
proof -
  let ?f = "\<lambda>(n, t). (n, if n = key then add_object x t else t)"
  have fst: "map fst (map ?f opened) = map fst opened" by (induction opened) auto
  have upd: "map_of (map ?f opened) k = map_option (\<lambda>t. if k = key then add_object x t else t) (map_of opened k)" by (induction opened) auto
  show "distinct (map fst (by_type [] (add_object x) key opened))"
  proof (cases "map_of opened key")
    case None
    then have "key \<notin> fst ` set opened" by (simp add: map_of_eq_None_iff)
    then show ?thesis unfolding by_type_def None option.case using assms by simp
  next
    case (Some xs)
    then show ?thesis unfolding by_type_def Some option.case fst using assms by simp
  qed
  show "map_of (by_type [] (add_object x) key opened) k =
       (if k = key then Some (add_object x (case map_of opened key of None \<Rightarrow> [] | Some xs \<Rightarrow> xs)) else map_of opened k)"
    by (cases "map_of opened key") (auto simp: by_type_def upd map_add_def option.map_ident split: option.splits)
qed

definition open_objects :: "'s l1_env \<Rightarrow> Fact list \<Rightarrow> string \<Rightarrow> string set" where
  "open_objects env fs key = {f_Object f | f. f \<in> set fs \<and> IsOpen (f_Valid f) \<and> claim_of env f = key}"

definition collected :: "'s l1_env \<Rightarrow> Fact list \<Rightarrow> (string \<times> string list) list \<Rightarrow> bool" where
  "collected env fs opened \<longleftrightarrow> distinct (map fst opened)
     \<and> (\<forall>key. case map_of opened key of None \<Rightarrow> open_objects env fs key = {} | Some xs \<Rightarrow> distinct xs \<and> set xs = open_objects env fs key)"

lemma collected_add:
  assumes "collected env fs opened" "IsOpen (f_Valid f)"
  shows "collected env (fs @ [f]) (by_type [] (add_object (f_Object f)) (claim_of env f) opened)"
proof -
  have d: "distinct (map fst opened)" using assms(1) by (simp add: collected_def)
  have o: "open_objects env (fs @ [f]) key = (if key = claim_of env f then insert (f_Object f) (open_objects env fs key) else open_objects env fs key)" for key
    using assms(2) by (auto simp: open_objects_def)
  have "case map_of opened key of None \<Rightarrow> open_objects env fs key = {} | Some xs \<Rightarrow> distinct xs \<and> set xs = open_objects env fs key" for key
    using assms(1) by (simp add: collected_def)
  note c = this
  have "case map_of (by_type [] (add_object (f_Object f)) (claim_of env f) opened) key of None \<Rightarrow> open_objects env (fs @ [f]) key = {}
      | Some xs \<Rightarrow> distinct xs \<and> set xs = open_objects env (fs @ [f]) key" for key
    using c[of key] unfolding by_type_objects(2)[OF d] o by (cases "map_of opened key") (auto simp: add_object_def)
  then show ?thesis unfolding collected_def using by_type_objects(1)[OF d] by blast
qed

lemma collected_skip:
  assumes "collected env fs opened" "\<not> IsOpen (f_Valid f)"
  shows "collected env (fs @ [f]) opened"
proof -
  have "open_objects env (fs @ [f]) = open_objects env fs" using assms(2) by (auto simp: open_objects_def fun_eq_iff)
  then show ?thesis using assms(1) unfolding collected_def by metis
qed

fun gather :: "'s l1_env \<Rightarrow> Fact list \<Rightarrow> (string \<times> string list) list \<Rightarrow> (string \<times> string list) list" where
  "gather env [] opened = opened"
| "gather env (f # fs) opened = gather env fs (if IsOpen (f_Valid f) then by_type [] (add_object (f_Object f)) (claim_of env f) opened else opened)"

lemma tally_eq:
  "tally env answer fs (r, opened) =
     (r\<lparr>lr_Open := lr_Open r + length (filter (\<lambda>f. IsOpen (f_Valid f)) fs), lr_Closed := lr_Closed r + length (filter (\<lambda>f. \<not> IsOpen (f_Valid f)) fs),
        lr_AnswerCovered := (lr_AnswerCovered r \<or> (\<exists>f \<in> set fs. covers env (f_Statement f) answer))\<rparr>, gather env fs opened)"
proof (induction fs arbitrary: r opened)
  case (Cons f fs)
  show ?case by (cases "IsOpen (f_Valid f)"; cases "covers env (f_Statement f) answer") (simp_all add: Cons)
qed simp

lemma gather_collected: "collected env seen opened \<Longrightarrow> collected env (seen @ fs) (gather env fs opened)"
proof (induction fs arbitrary: seen opened)
  case (Cons f fs)
  then have "collected env (seen @ [f]) (if IsOpen (f_Valid f) then by_type [] (add_object (f_Object f)) (claim_of env f) opened else opened)"
    using collected_add collected_skip by auto
  from Cons.IH[OF this] show ?case by simp
qed simp

lemma collected_count:
  assumes "collected env fs opened"
  shows "length (filter (\<lambda>(_, xs). length xs > 1) opened) = card {key. \<exists>x \<in> open_objects env fs key. \<exists>y \<in> open_objects env fs key. x \<noteq> y}"
proof -
  let ?many = "filter (\<lambda>(_, xs). length xs > 1) opened"
  have d: "distinct (map fst opened)" and c: "case map_of opened key of None \<Rightarrow> open_objects env fs key = {} | Some xs \<Rightarrow> distinct xs \<and> set xs = open_objects env fs key" for key
    using assms by (auto simp: collected_def)
  have two: "(\<exists>x \<in> set xs. \<exists>y \<in> set xs. x \<noteq> y) \<longleftrightarrow> length xs > 1" if "distinct xs" for xs :: "string list"
  proof -
    have "length xs > 1 \<longleftrightarrow> card (set xs) > 1" using that by (simp add: distinct_card)
    also have "\<dots> \<longleftrightarrow> \<not> card (set xs) \<le> Suc 0" by linarith
    finally show ?thesis using card_le_Suc0_iff_eq[of "set xs"] by (simp only: finite_set) blast
  qed
  have "key \<in> fst ` set ?many \<longleftrightarrow> (\<exists>x \<in> open_objects env fs key. \<exists>y \<in> open_objects env fs key. x \<noteq> y)" for key
  proof (cases "map_of opened key")
    case None
    then have "key \<notin> fst ` set opened" by (simp add: map_of_eq_None_iff)
    then have "key \<notin> fst ` set ?many" by auto
    then show ?thesis using c[of key] None by simp
  next
    case (Some xs)
    have "(key, ys) \<in> set opened \<longleftrightarrow> ys = xs" for ys using Some map_of_eq_Some_iff[OF d, of key] by (metis option.inject)
    moreover have "key \<in> fst ` set ?many \<longleftrightarrow> (\<exists>ys. (key, ys) \<in> set opened \<and> length ys > 1)" by force
    ultimately have "key \<in> fst ` set ?many \<longleftrightarrow> length xs > 1" by simp
    then show ?thesis using c[of key] Some two[of xs] by simp
  qed
  then have "fst ` set ?many = {key. \<exists>x \<in> open_objects env fs key. \<exists>y \<in> open_objects env fs key. x \<noteq> y}" by blast
  moreover have "distinct (map fst ?many)" using d by (simp add: distinct_map_filter)
  moreover have "length ?many = card (set (map fst ?many))" using distinct_card[of "map fst ?many"] calculation(2) by simp
  ultimately show ?thesis by simp
qed

text \<open>
  What is counted of a question's facts is what is said: the open and the closed facts are all of them, a contradiction is a claim (subject and predicate, up to case) that two open facts hold with
  different objects, each claim counted once however many objects it has, and the answer is covered when some fact covers it.
\<close>

theorem l1_result_counts:
  "lr_Facts (l1_result env q fs) = length fs \<and> lr_Open (l1_result env q fs) + lr_Closed (l1_result env q fs) = length fs
   \<and> lr_Open (l1_result env q fs) = length (filter (\<lambda>f. IsOpen (f_Valid f)) fs)
   \<and> lr_Contradictions (l1_result env q fs) = card {key. \<exists>f \<in> set fs. \<exists>g \<in> set fs. IsOpen (f_Valid f) \<and> IsOpen (f_Valid g)
        \<and> claim_of env f = key \<and> claim_of env g = key \<and> f_Object f \<noteq> f_Object g}
   \<and> lr_AnswerCovered (l1_result env q fs) = (\<exists>f \<in> set fs. covers env (f_Statement f) (qn_Answer q))"
proof -
  have "collected env [] []" by (simp add: collected_def open_objects_def)
  from collected_count[OF gather_collected[OF this, of fs]]
  have "length (filter (\<lambda>(_, xs). length xs > 1) (gather env fs [])) = card {key. \<exists>x \<in> open_objects env fs key. \<exists>y \<in> open_objects env fs key. x \<noteq> y}" by simp
  moreover have "{key. \<exists>x \<in> open_objects env fs key. \<exists>y \<in> open_objects env fs key. x \<noteq> y} = {key. \<exists>f \<in> set fs. \<exists>g \<in> set fs. IsOpen (f_Valid f) \<and> IsOpen (f_Valid g)
        \<and> claim_of env f = key \<and> claim_of env g = key \<and> f_Object f \<noteq> f_Object g}"
    by (rule Collect_cong) (unfold open_objects_def, blast)
  ultimately have n: "length (filter (\<lambda>(_, xs). length xs > 1) (gather env fs [])) = card {key. \<exists>f \<in> set fs. \<exists>g \<in> set fs. IsOpen (f_Valid f) \<and> IsOpen (f_Valid g)
        \<and> claim_of env f = key \<and> claim_of env g = key \<and> f_Object f \<noteq> f_Object g}" by simp
  show ?thesis unfolding l1_result_def tally_eq Let_def prod.case using n sum_length_filter_compl[of "\<lambda>f. IsOpen (f_Valid f)" fs] by simp
qed

subsection \<open>Replays\<close>

text \<open>Claims are compared as multisets of their printed forms, and the printed forms of different claims can agree.\<close>

lemma sameClaims_refl: "sameClaims env a a"
  by (simp add: sameClaims_def)

lemma sameClaims_collision:
  assumes "a_Subject a = ''x'' \<and> a_Predicate a = ''y|z'' \<and> a_Object a = ''w''" "a_Subject b = ''x|y'' \<and> a_Predicate b = ''z'' \<and> a_Object b = ''w''"
  shows "sameClaims env \<lparr>xs_Assert = [a], xs_Retract = []\<rparr> \<lparr>xs_Assert = [b], xs_Retract = []\<rparr>"
  using assms by (simp add: sameClaims_def render_claims_def)

subsection \<open>Draining between the conversations\<close>

lemma drain_passes_keeps:
  assumes "\<And>s r s'. I s \<Longrightarrow> DrainOnce render ctx worker s = (r, s') \<Longrightarrow> I s'" "I s" "drain_passes n render ctx worker s = (r, s')"
  shows "I s'"
  using assms(2,3)
proof (induction n arbitrary: s)
  case (Suc n)
  obtain k e s1 where d: "DrainOnce render ctx worker s = ((k, e), s1)" by (metis prod.collapse)
  have "I s1" by (rule assms(1)[OF Suc.prems(1) d])
  then show ?case using Suc.IH Suc.prems(2) d by (auto simp: Let_def split: option.splits if_splits)
qed simp

text \<open>A pass that finishes no job ends the draining, whatever is still queued.\<close>

lemma drain_gives_up: assumes "DrainOnce render ctx worker s = ((0, None), s')" shows "drain render ctx worker s = (None, s')"
proof -
  from assms have "drain_passes (Suc 999) render ctx worker s = (None, s')" unfolding drain_passes.simps Let_def by (simp only: prod.case option.case if_True refl)
  moreover have "maxDrainPasses = Suc 999" by (simp add: maxDrainPasses_def)
  ultimately show ?thesis by (simp only: drain_def)
qed

lemma drain_log:
  assumes "NewWorker clk dflt cfg = Inr worker" "worker_config sv cfg" "world_ok s" "drain render ctx worker s = (r, s')"
  shows "world_ok s' \<and> abs_log (w_db s') = abs_log (w_db s)"
proof -
  have "job_moves a a" for a using job_run.start by (auto simp: job_moves_def)
  then have "worker_inv (w_db s) s" using assms(3) by (simp add: worker_inv_def same_log_def list_all2_refl)
  from drain_passes_keeps[where I = "worker_inv (w_db s)", OF pg_worker.DrainOnce_keeps[OF worker_config_on[OF assms(1,2)]] this assms(4)[unfolded drain_def]]
  have "worker_inv (w_db s) s'" .
  then show ?thesis using abs_log_same by (auto simp: worker_inv_def)
qed

lemma ingest_world_ok:
  assumes "m_store mem = pg_store sv" "m_clock mem = pg_clock sv" "world_ok w" "ingest mem scope h w = (None, w')"
  shows "world_ok w'"
proof -
  have "windows_ok (w_db w')" if "windows_ok (w_db w)" "ingest mem scope h w = (None, w')" for w
    using that
  proof (induction h arbitrary: w rule: length_induct)
    case (1 h w)
    show ?case
    proof (cases "h = []")
      case False
      then obtain eps w1 where b: "AppendBatch mem (map (\<lambda>r. r\<lparr>ar_Scope := scope\<rparr>) (take MaxAppendBatch h)) w = (Inr eps, w1)"
        "ingest mem scope (drop MaxAppendBatch h) w1 = (None, w')"
        using "1.prems"(2) by (subst (asm) ingest.simps) (auto split: prod.splits sum.splits)
      have "facts (w_db w1) = facts (w_db w)" by (rule AppendBatch_Append[OF b(1) assms(1,2)]) (rule Append_prefix(3))
      then have "windows_ok (w_db w1)" using "1.prems"(1) by (simp add: windows_ok_def)
      moreover have "length (drop MaxAppendBatch h) < length h" using False by (simp add: limit_defs)
      ultimately show ?thesis using "1.IH" b(2) by blast
    qed (use "1.prems" in \<open>simp add: ingest.simps\<close>)
  qed
  note windows = this
  have "db_inv (w_db w)" "windows_ok (w_db w)" using assms(3) by (simp_all add: world_ok_def)
  then show ?thesis using ingest_grows[OF assms(1,2) _ assms(4)] windows[OF _ assms(4)] by (simp add: world_ok_def)
qed

lemma feed_sessions_grows:
  assumes "m_store mem = pg_store sv" "m_clock mem = pg_clock sv" "NewWorker clk dflt cfg = Inr worker" "worker_config sv cfg"
    and "world_ok w" "feed_sessions env mem worker scope parts w = (None, w')"
  shows "world_ok w' \<and> grows (abs_log (w_db w)) scope (map ar_Content (concat parts)) (abs_log (w_db w'))"
  using assms(5,6)
proof (induction parts arbitrary: w)
  case Nil
  then show ?case by (simp add: grows_nil)
next
  case (Cons part parts)
  then obtain w1 w2 where s: "ingest mem scope part w = (None, w1)" "drain (ee_render env) (ee_ctx env) worker w1 = (None, w2)"
    "feed_sessions env mem worker scope parts w2 = (None, w')"
    by (auto split: prod.splits option.splits)
  note g = ingest_grows[OF assms(1,2) _ s(1)] and ok = ingest_world_ok[OF assms(1,2) Cons.prems(1) s(1)]
  note d = drain_log[OF assms(3,4) ok s(2)]
  have "grows (abs_log (w_db w)) scope (map ar_Content part) (abs_log (w_db w2))" using g Cons.prems(1) d by (simp add: world_ok_def)
  from grows_append[OF this] Cons.IH[OF _ s(3)] d show ?case by simp
qed

text \<open>
  Splitting a haystack loses nothing and reorders nothing: the conversations joined are the haystack, each is one unbroken run of turns with one session id, none is empty, and
  neighbouring conversations have different ids.
\<close>

theorem sessions_partition:
  "concat (sessions h) = h \<and> [] \<notin> set (sessions h) \<and> (\<forall>i < length (sessions h). card (session_of ` set (sessions h ! i)) = 1)
   \<and> distinct_adj (map (\<lambda>ss. session_of (hd ss)) (sessions h))"
proof (intro conjI allI impI)
  note P = sessions_parts[of h]
  show "concat (sessions h) = h" "distinct_adj (map (\<lambda>ss. session_of (hd ss)) (sessions h))" by (rule P)+
  show "[] \<notin> set (sessions h)" using P(2) by (auto simp: one_session_def)
  fix i assume "i < length (sessions h)"
  then have "one_session (sessions h ! i)" using P(2) nth_mem by blast
  then show "card (session_of ` set (sessions h ! i)) = 1" by (simp add: one_session_def)
qed

theorem sessions_partition_witness: "length (sessions [sample_append]) = 1 \<and> card (session_of ` set (sessions [sample_append] ! 0)) = 1"
proof -
  have "sessions [sample_append] = [[sample_append]]" by (simp add: sessions_def Let_def)
  then show ?thesis using sessions_partition[of "[sample_append]"] by auto
qed

text \<open>
  C38. Feeding a haystack conversation by conversation, with a worker running between them, leaves the same log as appending it in one piece: a fresh scope then holds exactly the haystack, in order and
  numbered from one, and no other scope has changed. The database stays consistent.
\<close>

theorem feed_sessions_log:
  assumes "m_store mem = pg_store sv" "m_clock mem = pg_clock sv" "NewWorker clk dflt cfg = Inr worker" "worker_config sv cfg" "world_ok w"
    and fresh: "lg_entries (abs_log (w_db w)) scope = []" "lg_last (abs_log (w_db w)) scope = 0"
    and ok: "feed_sessions env mem worker scope (sessions haystack) w = (None, w')"
  shows "map er_content (lg_entries (abs_log (w_db w')) scope) = map ar_Content haystack
    \<and> map er_seq (lg_entries (abs_log (w_db w')) scope) = map (\<lambda>k. int k + 1) [0..<length haystack]
    \<and> (\<forall>other. other \<noteq> scope \<longrightarrow> lg_entries (abs_log (w_db w')) other = lg_entries (abs_log (w_db w)) other) \<and> world_ok w'"
  using feed_sessions_grows[OF assms(1-5) ok] fresh unfolding sessions_parts(1) by (auto simp: grows_def)

definition busy_server :: server where
  "busy_server = sample_server\<lparr>sv_locked := \<lambda>_ _. True\<rparr>"

definition busy_config :: "world WorkerConfig" where
  "busy_config = sample_worker_config\<lparr>wc_Store := Some (pg_store busy_server), wc_Clock := Some (pg_clock busy_server)\<rparr>"

definition busy_worker :: "world Worker" where
  "busy_worker = projr (NewWorker (pg_clock busy_server) ''host/1'' busy_config)"

lemma busy_worker: "NewWorker (pg_clock busy_server) ''host/1'' busy_config = Inr busy_worker" "worker_config busy_server busy_config"
proof -
  have ports: "st_asQueue (pg_store busy_server) = Some (pg_queue busy_server)"
    "st_asFactStore (pg_store busy_server) = Some (pg_facts busy_server)" by (simp_all add: pg_store_def)
  have "\<exists>w. NewWorker (pg_clock busy_server) ''host/1'' busy_config = Inr w"
    by (simp add: NewWorker_def busy_config_def sample_worker_config_def sample_embedder_def sample_extractor_def resolveQueue_def resolveFactStore_def ports)
  then show "NewWorker (pg_clock busy_server) ''host/1'' busy_config = Inr busy_worker" by (auto simp: busy_worker_def)
  show "worker_config busy_server busy_config" by (simp add: worker_config_def busy_config_def sample_worker_config_def)
qed

text \<open>While other workers hold every row, a pass leases nothing.\<close>

lemma busy_DrainOnce:
  assumes "db_inv (w_db s)" "db_ready (w_db s)"
  shows "\<exists>s'. DrainOnce render ctx busy_worker s = ((0, None), s')"
proof -
  let ?req = "lease_request busy_worker (sv_now busy_server (w_calls s))"
  note N = NewWorker_Inr[OF busy_worker(1)]
  have id: "wk_id busy_worker = ''w1''" using N(9) by (simp add: busy_config_def sample_worker_config_def)
  have v: "validateLease ?req = None"
    using N(5,6,8) by (simp add: validateLease_def lease_request_def IsZero_def JobKind_Valid_def id busy_server_def sample_server_def)
  have tok: "sv_text_ok busy_server (lr_Worker ?req)" by (simp add: lease_request_def id busy_server_def sample_server_def ascii_simps)
  have none: "lease_candidates (sv_locked busy_server (w_calls s + 1)) ?req (jobs (w_db s)) = []"
    by (simp add: lease_candidates_def lease_ready_def busy_server_def)
  obtain js d where L: "Lease (sv_text_ok busy_server) (sv_locked busy_server (w_calls s + 1)) ?req (w_db s) = Inr (js, d)" and js: "map j_ID js = []"
    using Lease_ok[where text_ok = "sv_text_ok busy_server" and locked = "sv_locked busy_server (w_calls s + 1)", OF assms(1) v assms(2) tok refl refl]
    unfolding none by auto
  then show ?thesis using worker_config_on[OF busy_worker] by (simp add: DrainOnce_def worker_on_def pg_clock_def pg_queue_def on_db_def)
qed

definition busy_mem :: "world Memory" where
  "busy_mem = sample_mem\<lparr>m_store := pg_store busy_server, m_clock := pg_clock busy_server\<rparr>"

definition busy_env :: "world l1_env" where
  "busy_env =
     \<lparr>ee_rnd = \<lambda>x. x, ee_lg = \<lambda>_. 1, ee_views = \<lambda>_ _ _. sample_fresh, ee_elapsed = \<lambda>_ _ _. 0, ee_render = \<lambda>_ _. '''', ee_ctx = \<lambda>_. None, ee_ctx_err = None,
      ee_ingested = \<lambda>_. 0, ee_recalled = \<lambda>_ _. 0, ln_lower = \<lambda>s. s, ln_words = \<lambda>s. [s], ln_fact = \<lambda>_. '''', ln_now = \<lambda>_ _. zero_time, ln_duration = \<lambda>_. 0\<rparr>"

lemma busy_feed: "\<exists>w'. feed_sessions busy_env busy_mem busy_worker ''l1:q'' (sessions sample_haystack) sample_fresh = (None, w')"
proof -
  have parts: "sessions sample_haystack = [sample_haystack]" by (simp add: sessions_def sample_haystack_def Let_def session_of_def)
  obtain w1 where i: "ingest busy_mem ''l1:q'' sample_haystack sample_fresh = (None, w1)" "db_ready (w_db w1)"
    using sample_ingest[of busy_server "\<lambda>_ _. True" busy_mem "''l1:q''"] by (auto simp: busy_server_def busy_mem_def)
  have "db_inv (w_db w1)" using ingest_grows[OF _ _ _ i(1), of busy_server] by (simp add: busy_mem_def sample_fresh_def db_inv_empty)
  from busy_DrainOnce[OF this i(2)] obtain w2 where "DrainOnce (ee_render busy_env) (ee_ctx busy_env) busy_worker w1 = ((0, None), w2)" by blast
  from drain_gives_up[OF this] show ?thesis using i(1) by (simp add: parts)
qed

theorem feed_sessions_log_witness:
  "\<exists>w'. feed_sessions busy_env busy_mem busy_worker ''l1:q'' (sessions sample_haystack) sample_fresh = (None, w')
     \<and> map er_content (lg_entries (abs_log (w_db w')) ''l1:q'') = [''hi'', ''yo''] \<and> map er_seq (lg_entries (abs_log (w_db w')) ''l1:q'') = [1, 2]"
proof -
  obtain w' where w': "feed_sessions busy_env busy_mem busy_worker ''l1:q'' (sessions sample_haystack) sample_fresh = (None, w')" using busy_feed by blast
  have m: "m_store busy_mem = pg_store busy_server" "m_clock busy_mem = pg_clock busy_server" by (simp_all add: busy_mem_def)
  have "windows_ok (empty_db 2)" by (simp add: windows_ok_def empty_db_def)
  then have s: "world_ok sample_fresh" by (simp add: world_ok_def sample_fresh_def db_inv_empty)
  have f: "lg_entries (abs_log (w_db sample_fresh)) ''l1:q'' = []" "lg_last (abs_log (w_db sample_fresh)) ''l1:q'' = 0"
    by (simp_all add: sample_fresh_def abs_log_empty log_empty_def)
  from feed_sessions_log[OF m busy_worker s f w'] show ?thesis
    using w' by (simp add: sample_haystack_def sample_append_def upt_rec)
qed

end
