(* ===== verification/Delivery.thy ===== *)
theory Delivery
  imports Worker
begin

section \<open>A job that is done has done its work\<close>

text \<open>
  The composition of the queue with what the jobs are for: whatever a worker runs, a row of the jobs table that says \<open>done\<close> can be believed. Every episode of a done encode
  job has a vector by the worker's model, and every episode of a done extract job is marked as read by its extractor.
\<close>

abbreviation mark_key :: "extraction_row \<Rightarrow> uuid \<times> string" where
  "mark_key x \<equiv> (xw_episode x, xw_extractor x)"

definition projected :: "ModelID \<Rightarrow> ExtractorID option \<Rightarrow> db \<Rightarrow> JobKind \<Rightarrow> EpisodeID list \<Rightarrow> bool" where
  "projected m x d kind eps \<longleftrightarrow>
     (kind = JobKindEncode \<longrightarrow> (\<forall>i \<in> set eps. (i, m) \<in> enc_key ` set (encodings d))) \<and>
     (kind = JobKindExtract \<longrightarrow> (\<forall>e \<in> set_option x. \<forall>i \<in> set eps. (i, e) \<in> mark_key ` set (extractions d)))"

definition done_is_projected :: "ModelID \<Rightarrow> ExtractorID option \<Rightarrow> db \<Rightarrow> bool" where
  "done_is_projected m x d \<longleftrightarrow> (\<forall>r \<in> set (jobs d). jr_state r = JobStateDone \<longrightarrow> projected m x d (jr_kind r) (jr_episodes r))"

text \<open>Projections only accumulate while a job runs.\<close>

definition grown :: "db \<Rightarrow> db \<Rightarrow> bool" where
  "grown d d' \<longleftrightarrow> enc_key ` set (encodings d) \<subseteq> enc_key ` set (encodings d') \<and> mark_key ` set (extractions d) \<subseteq> mark_key ` set (extractions d')"

lemma grown_refl [simp]: "grown d d"
  by (simp add: grown_def)

lemma grown_trans: "grown a b \<Longrightarrow> grown b c \<Longrightarrow> grown a c"
  unfolding grown_def by (meson subset_trans)

lemma projected_grown: "projected m x d kind eps \<Longrightarrow> grown d d' \<Longrightarrow> projected m x d' kind eps"
  unfolding projected_def grown_def by (meson subsetD)

lemma projected_jobs [simp]: "projected m x (d\<lparr>jobs := js\<rparr>) kind eps = projected m x d kind eps"
  by (simp add: projected_def)

lemma PutEncoding_grown:
  assumes "PutEncoding text_ok enc d = Inr (u, d')"
  shows "grown d d'" "(en_Episode enc, en_Model enc) \<in> enc_key ` set (encodings d')"
proof -
  note K = PutEncoding_keys[OF assms]
  show new: "(en_Episode enc, en_Model enc) \<in> enc_key ` set (encodings d')" using K(1) by force
  have "enc_key r \<in> enc_key ` set (encodings d')" if "r \<in> set (encodings d)" for r
    using K(2)[of r] that new by (cases "enc_key r = (en_Episode enc, en_Model enc)") auto
  then show "grown d d'" using PutEncoding_frame(4)[OF assms] by (auto simp: grown_def)
qed

lemma ApplyExtraction_grown:
  assumes inv: "db_inv d" and ok: "ApplyExtraction text_ok coll mint cmd d = Inr (fs, d')"
  shows "grown d d'" "i \<in> set (xc_Episodes cmd) \<Longrightarrow> (i, xc_Extractor cmd) \<in> mark_key ` set (extractions d')"
proof -
  obtain as :: "Assertion list" and found marked d1 rows where
    mark: "markExtractionSQL text_ok (xc_Episodes cmd) (xc_Scope cmd) (xc_Extractor cmd) (length as) (xc_At cmd) d = Inr ((found, marked), d1)"
    and len: "length (xc_Episodes cmd) \<le> found" and d': "d' = d1\<lparr>facts := rows\<rparr>"
    by (rule ApplyExtraction_Inr[OF ok]) (rule that; assumption)
  note M = mark_ok[OF inv mark]
  show "grown d d'" by (auto simp: grown_def d' M(4))
  assume i: "i \<in> set (xc_Episodes cmd)"
  have "distinct (map er_id (episodes d))" using inv by (simp add: db_inv_def episodes_ok_def)
  from found_all[OF this len[unfolded M(2)] i] obtain e where e: "e \<in> set (episodes d)" "er_id e = i" "er_scope e = xc_Scope cmd" by blast
  then have f: "e \<in> set (found_episodes (xc_Episodes cmd) (xc_Scope cmd) d)" using i by (simp add: found_episodes_def)
  show "(i, xc_Extractor cmd) \<in> mark_key ` set (extractions d')"
  proof (cases "has_marker d (xc_Extractor cmd) e")
    case True
    then obtain m where "m \<in> set (extractions d)" "mark_key m = (i, xc_Extractor cmd)" using e(2) by (auto simp: has_marker_def)
    moreover from this(1) have "m \<in> set (extractions d')" by (simp add: d' M(4))
    ultimately show ?thesis by (intro rev_image_eqI[of m]) simp_all
  next
    case False
    let ?row = "extraction_row_of (xc_Extractor cmd) (length as) (instant (xc_At cmd)) e"
    have "?row \<in> set (extractions d')" using f False by (auto simp: d' M(4))
    moreover have "mark_key ?row = (i, xc_Extractor cmd)" using e(2) by (simp add: extraction_row_of_def)
    ultimately show ?thesis by (intro rev_image_eqI[of ?row]) simp_all
  qed
qed

subsection \<open>Running one job\<close>

interpretation growing: job_ports "pg_store sv" "pg_facts sv" "pg_clock sv" "\<lambda>w. job_frame d0 w \<and> grown d0 (w_db w)"
proof
  show "job_frame d0 (snd (pg_clock sv w)) \<and> grown d0 (w_db (snd (pg_clock sv w)))" if "job_frame d0 w \<and> grown d0 (w_db w)" for w
    using that by (simp add: job_frame_def pg_clock_def world_ok_def)
  fix w w' :: world
  assume w: "job_frame d0 w \<and> grown d0 (w_db w)"
  show "job_frame d0 w' \<and> grown d0 (w_db w')" if p: "st_PutEncoding (pg_store sv) enc w = Inr (u, w')" for enc u
  proof -
    have "PutEncoding (sv_text_ok sv) enc (w_db w) = Inr (u, w_db w')" using p on_db_Inr(1) by (fastforce simp: pg_store_def)
    then show ?thesis using w pg_jobs.put[OF _ p] grown_trans PutEncoding_grown(1) by blast
  qed
  show "job_frame d0 w' \<and> grown d0 (w_db w')" if p: "fp_ApplyExtraction (pg_facts sv) cmd w = Inr (fs, w')" for cmd fs
  proof -
    have "ApplyExtraction (sv_text_ok sv) (sv_coll sv) (sv_mint sv (w_calls w) ''facts'') cmd (w_db w) = Inr (fs, w_db w')"
      using p on_db_Inr(1) by (fastforce simp: pg_facts_def)
    moreover have "db_inv (w_db w)" using w by (simp add: job_frame_def world_ok_def)
    ultimately show ?thesis using w pg_jobs.apply_extraction[OF _ p] grown_trans ApplyExtraction_grown(1) by blast
  qed
qed

lemma put_encodings_projects:
  assumes st: "wk_store w = pg_store sv"
  shows "put_encodings w ts xs s = (None, s') \<Longrightarrow>
    grown (w_db s) (w_db s') \<and> (\<forall>(ep, v) \<in> set xs. (ep_ID ep, em_Model (wk_embedder w)) \<in> enc_key ` set (encodings (w_db s')))"
proof (induction xs arbitrary: s)
  case (Cons x xs)
  obtain ep v where x: "x = (ep, v)" by (cases x)
  let ?enc = "\<lparr>en_Episode = ep_ID ep, en_Model = em_Model (wk_embedder w), en_Vector = v, en_Surprise = Fin 0, en_EncodedAt = ts\<rparr>"
  obtain s1 where p: "st_PutEncoding (pg_store sv) ?enc s = Inr ((), s1)" and rest: "put_encodings w ts xs s1 = (None, s')"
    using Cons.prems by (auto simp: x st split: sum.splits)
  have P: "PutEncoding (sv_text_ok sv) ?enc (w_db s) = Inr ((), w_db s1)" using p on_db_Inr(1) by (fastforce simp: pg_store_def)
  note IH = Cons.IH[OF rest] and G = PutEncoding_grown[OF P, simplified]
  have "(ep_ID ep, em_Model (wk_embedder w)) \<in> enc_key ` set (encodings (w_db s'))" using IH G(2) by (auto simp: grown_def)
  then show ?case using IH G(1) grown_trans by (auto simp: x)
qed simp

text \<open>The port a worker has, and what its jobs are measured by.\<close>

definition on_server :: "server \<Rightarrow> world Worker \<Rightarrow> bool" where
  "on_server sv w \<longleftrightarrow> worker_on (pg_store sv) (pg_queue sv) (pg_facts sv) (pg_clock sv) w"

abbreviation done_by :: "world Worker \<Rightarrow> db \<Rightarrow> bool" where
  "done_by w d \<equiv> done_is_projected (em_Model (wk_embedder w)) (map_option ex_Model (wk_extractor w)) d"

abbreviation projected_by :: "world Worker \<Rightarrow> db \<Rightarrow> JobKind \<Rightarrow> EpisodeID list \<Rightarrow> bool" where
  "projected_by w d \<equiv> projected (em_Model (wk_embedder w)) (map_option ex_Model (wk_extractor w)) d"

lemma encode_projects:
  assumes "wk_store w = pg_store sv" "encode w job s = (None, s')" "i \<in> set (j_Episodes job)"
  shows "(i, em_Model (wk_embedder w)) \<in> enc_key ` set (encodings (w_db s'))"
proof -
  obtain eps where eps: "read_episodes w job s = Inr eps" using assms(2) by (auto simp: encode_def split: sum.splits)
  then obtain vs t s1 where vs: "length vs = length eps" and p: "put_encodings w t (zip eps vs) s1 = (None, s')"
    using assms(2) by (auto simp: encode_def split: sum.splits if_splits prod.splits)
  obtain k where k: "k < length eps" "ep_ID (eps ! k) = i"
    using assms(3) read_episodes_ids[OF assms(1) eps] by (metis in_set_conv_nth length_map nth_map)
  then have "(eps ! k, vs ! k) \<in> set (zip eps vs)" using vs by (auto simp: in_set_zip)
  then show ?thesis using put_encodings_projects[OF assms(1) p] k(2) by fastforce
qed

lemma runJob_projects:
  assumes w: "on_server sv w" and s: "world_ok s" and ok: "runJob w job s = (None, s')"
  shows "projected_by w (w_db s') (j_Kind job) (j_Episodes job)"
proof -
  have st: "wk_store w = pg_store sv" and ck: "wk_clock w = pg_clock sv" and fp: "wk_facts w \<in> {None, Some (pg_facts sv)}"
    using w by (simp_all add: on_server_def worker_on_def)
  show ?thesis
    unfolding projected_def
  proof (intro conjI impI ballI)
    fix i assume "j_Kind job = JobKindEncode" "i \<in> set (j_Episodes job)"
    then show "(i, em_Model (wk_embedder w)) \<in> enc_key ` set (encodings (w_db s'))"
      using ok encode_projects[OF st] by (simp add: runJob_def)
  next
    fix i e assume kind: "j_Kind job = JobKindExtract" and e: "e \<in> set_option (map_option ex_Model (wk_extractor w))" and i: "i \<in> set (j_Episodes job)"
    have "JobKindExtract \<noteq> JobKindEncode" by simp
    then obtain x where x: "wk_extractor w = Some x" "e = ex_Model x" and ex: "extract_job w x (pg_facts sv) job s = (None, s')"
      using ok kind e fp by (auto simp: runJob_def split: option.splits)
    obtain cmd mint out where c: "xc_Extractor cmd = ex_Model x" "xc_Episodes cmd = j_Episodes job"
      and A: "ApplyExtraction (sv_text_ok sv) (sv_coll sv) mint cmd (w_db s) = Inr (out, w_db s')"
      by (rule extract_applied[OF ck ex])
    have "db_inv (w_db s)" using s by (simp add: world_ok_def)
    from ApplyExtraction_grown(2)[OF this A, of i] show "(i, e) \<in> mark_key ` set (extractions (w_db s'))" using c x i by simp
  qed
qed

lemma runJob_frame:
  assumes "on_server sv w" "world_ok s" "runJob w job s = (r, s')"
  shows "world_ok s'" "jobs (w_db s') = jobs (w_db s)" "grown (w_db s) (w_db s')"
proof -
  have w: "wk_store w = pg_store sv" "wk_clock w = pg_clock sv" "wk_facts w \<in> {None, Some (pg_facts sv)}"
    using assms(1) by (simp_all add: on_server_def worker_on_def)
  have "job_frame (w_db s) s \<and> grown (w_db s) (w_db s)" using assms(2) by (simp add: job_frame_def same_log_def)
  from growing.runJob_keeps[OF w this assms(3)] show "world_ok s'" "jobs (w_db s') = jobs (w_db s)" "grown (w_db s) (w_db s')"
    by (simp_all add: job_frame_def)
qed

subsection \<open>Queue calls\<close>

lemma done_grown:
  assumes "done_is_projected m x d" "jobs d' = jobs d" "grown d d'"
  shows "done_is_projected m x d'"
  using assms projected_grown unfolding done_is_projected_def by metis

lemma done_update:
  assumes "done_is_projected m x d" "d' = d\<lparr>jobs := update_where p f (jobs d)\<rparr>"
    and "\<And>r. r \<in> set (jobs d) \<Longrightarrow> p r \<Longrightarrow> jr_state (f r) = JobStateDone \<Longrightarrow> projected m x d (jr_kind (f r)) (jr_episodes (f r))"
  shows "done_is_projected m x d'"
  using assms(1,3) unfolding done_is_projected_def assms(2) by (auto simp: update_where_def)

text \<open>The row of a leased job, as the worker sees it.\<close>

definition matches :: "db \<Rightarrow> Job \<Rightarrow> bool" where
  "matches d job \<longleftrightarrow> (\<forall>r \<in> set (jobs d). jr_id r = j_ID job \<longrightarrow> jr_kind r = j_Kind job \<and> jr_episodes r = j_Episodes job)"

lemma matches_update:
  assumes "matches d job" "jobs d' = update_where p f (jobs d)" "\<And>r. jr_id (f r) = jr_id r \<and> job_key (f r) = job_key r"
  shows "matches d' job"
proof -
  have "jr_kind (f r) = jr_kind r \<and> jr_episodes (f r) = jr_episodes r" for r using assms(3)[of r] by (simp add: job_key_def)
  then show ?thesis using assms unfolding matches_def assms(2) by (auto simp: update_where_def)
qed

lemma Lease_matches:
  assumes inv: "db_inv d" and ok: "Lease text_ok locked req d = Inr (js, d')" and j: "job \<in> set js"
  shows "matches d' job"
proof -
  have "traverse scanJob (filter (\<lambda>r. jr_id r \<in> jr_id ` set (lease_candidates locked req (jobs d))) (jobs d')) = Inr js"
    using ok by (auto simp: Lease_def Let_def split: option.splits if_splits sum.splits)
  then have t: "\<exists>rs. set rs \<subseteq> set (jobs d') \<and> traverse scanJob rs = Inr js" by (rule_tac exI, rule_tac conjI) auto
  then obtain r where r: "r \<in> set (jobs d')" "scanJob r = Inr job" using traverse_set j by fast
  have "distinct (map jr_id (jobs d'))" using Lease_inv[OF inv ok] by (simp add: db_inv_def jobs_ok_def)
  then have "q = r" if "q \<in> set (jobs d')" "jr_id q = jr_id r" for q using that r(1) by (auto simp: distinct_map dest: inj_onD)
  moreover have "j_ID job = jr_id r" "j_Kind job = jr_kind r" "j_Episodes job = jr_episodes r" using r(2) by (auto simp: scanJob_def split: if_splits)
  ultimately show ?thesis unfolding matches_def by metis
qed

subsection \<open>A batch and the loop\<close>

lemma drain_job_done:
  assumes w: "on_server sv w" and s: "world_ok s" "done_by w (w_db s)" "matches (w_db s) job" and ok: "drain_job render w job s = (b, s')"
  shows "done_by w (w_db s')" "\<exists>p f. jobs (w_db s') = update_where p f (jobs (w_db s)) \<and> (\<forall>r. jr_id (f r) = jr_id r \<and> job_key (f r) = job_key r)"
proof -
  have q: "wk_queue w = pg_queue sv" and ck: "wk_clock w = pg_clock sv" using w by (simp_all add: on_server_def worker_on_def)
  obtain r s1 where r: "runJob w job s = (r, s1)" by (cases "runJob w job s")
  note F = runJob_frame[OF w s(1) r]
  let ?t = "sv_now sv (w_calls s1)" and ?s2 = "s1\<lparr>w_calls := w_calls s1 + 1\<rparr>"
  have c: "wk_clock w s1 = (?t, ?s2)" by (simp add: ck pg_clock_def)
  have d1: "done_by w (w_db s1)" by (rule done_grown[OF s(2) F(2,3)])
  have same: "\<exists>p f. jobs (w_db s1) = update_where p f (jobs (w_db s)) \<and> (\<forall>r. jr_id (f r) = jr_id r \<and> job_key (f r) = job_key r)"
    unfolding F(2) by (intro exI[of _ "\<lambda>_. False"] exI[of _ "\<lambda>r. r"]) (simp add: update_where_def)
  have "done_by w (w_db s') \<and> (\<exists>p f. jobs (w_db s') = update_where p f (jobs (w_db s)) \<and> (\<forall>r. jr_id (f r) = jr_id r \<and> job_key (f r) = job_key r))"
  proof (cases r)
    case None
    then have P: "projected_by w (w_db s1) (j_Kind job) (j_Episodes job)" using runJob_projects[OF w s(1)] r by simp
    show ?thesis
    proof (cases "q_Succeed (pg_queue sv) (j_ID job) (wk_id w) ?t ?s2")
      case (Inl e)
      then have "s' = ?s2" using ok r None c by (simp add: drain_job_def q)
      then show ?thesis using d1 same by simp
    next
      case (Inr us)
      obtain u where u: "us = (u, s')" using ok r None c Inr by (cases us) (simp add: drain_job_def q)
      have "Succeed (sv_text_ok sv) (j_ID job) (wk_id w) ?t (w_db s1) = Inr (u, w_db s')"
        using Inr u on_db_Inr(1) by (fastforce simp: pg_queue_def)
      note S = Succeed_Inr(1)[OF this]
      have "done_by w (w_db s')"
      proof (rule done_update[OF d1 S])
        fix r assume "r \<in> set (jobs (w_db s1))" "held_by (j_ID job) (wk_id w) r"
        then have "jr_kind r = j_Kind job" "jr_episodes r = j_Episodes job" using s(3) F(2) by (auto simp: held_by_def matches_def)
        then show "projected_by w (w_db s1) (jr_kind (succeed_row (instant ?t) r)) (jr_episodes (succeed_row (instant ?t) r))"
          using P by (simp add: succeed_row_def)
      qed
      moreover have "jobs (w_db s') = update_where (held_by (j_ID job) (wk_id w)) (succeed_row (instant ?t)) (jobs (w_db s))"
        using S F(2) by simp
      moreover have "\<forall>r. jr_id (succeed_row (instant ?t) r) = jr_id r \<and> job_key (succeed_row (instant ?t) r) = job_key r" by simp
      ultimately show ?thesis by blast
    qed
  next
    case (Some e)
    let ?u = "time_Add ?t (retryBackoff (j_Attempts job))"
    have s': "s' = reportFailure render w job e s1" using ok r Some by (simp add: drain_job_def)
    show ?thesis
    proof (cases "q_Fail (pg_queue sv) (j_ID job) (wk_id w) (Some (render job e)) ?t ?u ?s2")
      case (Inl e')
      then have "s' = ?s2" using s' c by (simp add: reportFailure_def q)
      then show ?thesis using d1 same by simp
    next
      case (Inr us)
      obtain u where u: "us = (u, s')" using s' c Inr by (cases us) (simp add: reportFailure_def q)
      have "Fail (sv_text_ok sv) (j_ID job) (wk_id w) (Some (render job e)) ?t ?u (w_db s1) = Inr (u, w_db s')"
        using Inr u on_db_Inr(1) by (fastforce simp: pg_queue_def)
      note S = Fail_Inr(1)[OF this]
      let ?f = "fail_row (instant ?t) (instant ?u) (truncateError (Some (render job e)))"
      have "done_by w (w_db s')" by (rule done_update[OF d1 S]) (auto simp: fail_row_def split: if_splits)
      moreover have "jobs (w_db s') = update_where (held_by (j_ID job) (wk_id w)) ?f (jobs (w_db s))" using S F(2) by simp
      moreover have "\<forall>r. jr_id (?f r) = jr_id r \<and> job_key (?f r) = job_key r" by simp
      ultimately show ?thesis by blast
    qed
  qed
  then show "done_by w (w_db s')" "\<exists>p f. jobs (w_db s') = update_where p f (jobs (w_db s)) \<and> (\<forall>r. jr_id (f r) = jr_id r \<and> job_key (f r) = job_key r)" by auto
qed

lemma worker_inv_refl: "world_ok s \<Longrightarrow> worker_inv (w_db s) s"
proof -
  have "job_moves a a" for a using job_run.start by (auto simp: job_moves_def)
  then show "world_ok s \<Longrightarrow> worker_inv (w_db s) s" by (simp add: worker_inv_def same_log_def list_all2_refl)
qed

lemma drain_jobs_done:
  assumes w: "on_server sv w"
  shows "world_ok s \<Longrightarrow> done_by w (w_db s) \<Longrightarrow> \<forall>job \<in> set js. matches (w_db s) job \<Longrightarrow> drain_jobs render ctx w i js n s = (r, s') \<Longrightarrow> done_by w (w_db s')"
proof (induction js arbitrary: i n s)
  case (Cons job js)
  show ?case
  proof (cases "ctx i")
    case None
    obtain b s1 where b: "drain_job render w job s = (b, s1)" by (cases "drain_job render w job s")
    have m: "matches (w_db s) job" using Cons.prems(3) by simp
    note D = drain_job_done[OF w Cons.prems(1,2) m b]
    have "worker_inv (w_db s) s1" using pg_worker.drain_job_keeps[OF w[unfolded on_server_def] worker_inv_refl[OF Cons.prems(1)] b] .
    then have ok: "world_ok s1" by (simp add: worker_inv_def)
    have "\<forall>job \<in> set js. matches (w_db s1) job" using D(2) Cons.prems(3) matches_update by (metis list.set_intros(2))
    from Cons.IH[OF ok D(1) this] show ?thesis using Cons.prems(4) b None by auto
  next
    case (Some e)
    then show ?thesis using Cons.prems by simp
  qed
qed simp

lemma DrainOnce_done:
  assumes w: "on_server sv w" and s: "world_ok s" "done_by w (w_db s)" and ok: "DrainOnce render ctx w s = (r, s')"
  shows "done_by w (w_db s')"
proof -
  let ?t = "sv_now sv (w_calls s)" and ?s1 = "s\<lparr>w_calls := w_calls s + 1\<rparr>"
  have c: "wk_clock w s = (?t, ?s1)" and q: "wk_queue w = pg_queue sv" using w by (simp_all add: on_server_def worker_on_def pg_clock_def)
  show ?thesis
  proof (cases "q_Lease (pg_queue sv) (lease_request w ?t) ?s1")
    case (Inl e)
    then have "s' = ?s1" using ok c by (simp add: DrainOnce_def q)
    then show ?thesis using s(2) by simp
  next
    case (Inr p)
    obtain js s2 where p: "p = (js, s2)" by (cases p)
    have L: "Lease (sv_text_ok sv) (sv_locked sv (w_calls s + 1)) (lease_request w ?t) (w_db s) = Inr (js, w_db s2)"
      using Inr p on_db_Inr(1) by (fastforce simp: pg_queue_def)
    have inv: "db_inv (w_db s)" using s(1) by (simp add: world_ok_def)
    have "worker_inv (w_db ?s1) s2" using pg_worker.lease[OF worker_inv_refl Inr[unfolded p]] s(1) by (simp add: world_ok_def)
    then have ok2: "world_ok s2" by (simp add: worker_inv_def)
    have d2: "done_by w (w_db s2)" by (rule done_update[OF s(2) Lease_Inr[OF L]]) (simp add: lease_row_def)
    have "\<forall>job \<in> set js. matches (w_db s2) job" using Lease_matches[OF inv L] by blast
    from drain_jobs_done[OF w ok2 d2 this] show ?thesis using ok c Inr p by (simp add: DrainOnce_def q)
  qed
qed

lemma run_tick_done:
  assumes w: "on_server sv w" and s: "world_ok (snd p)" "done_by w (w_db (snd p))"
  shows "world_ok (snd (snd (run_tick render ctx w p))) \<and> done_by w (w_db (snd (snd (run_tick render ctx w p))))"
proof -
  obtain t s1 where c: "wk_clock w (snd p) = (t, s1)" by (cases "wk_clock w (snd p)")
  have q: "wk_queue w = pg_queue sv" and "w_db s1 = w_db (snd p)" using w c by (auto simp: on_server_def worker_on_def pg_clock_def)
  then have s1: "world_ok s1" "done_by w (w_db s1)" using s by (simp_all add: world_ok_def)
  let ?s2 = "if time_Sub t (fst p) \<ge> wk_reclaim w then (case q_Reclaim (pg_queue sv) t s1 of Inl _ \<Rightarrow> s1 | Inr (_, s') \<Rightarrow> s') else s1"
  have "world_ok u \<and> done_by w (w_db u)" if R: "q_Reclaim (pg_queue sv) t s1 = Inr (n, u)" for n u
  proof
    show "world_ok u" using pg_worker.reclaim[OF worker_inv_refl[OF s1(1)] R] by (simp add: worker_inv_def)
    have "Reclaim t (w_db s1) = Inr (n, w_db u)" using R on_db_Inr(1) by (fastforce simp: pg_queue_def)
    from Reclaim_Inr(1)[OF this] show "done_by w (w_db u)"
      by (rule done_update[OF s1(2)]) (auto simp: reclaim_row_def split: if_splits)
  qed
  then have s2: "world_ok ?s2" "done_by w (w_db ?s2)" using s1 by (auto split: sum.splits)
  obtain n e s3 where d: "DrainOnce render ctx w ?s2 = ((n, e), s3)" by (metis prod.collapse)
  have "snd (snd (run_tick render ctx w p)) = s3"
    using c d q by (cases p) (auto simp: run_tick_def Let_def split: if_splits)
  moreover have "world_ok s3" using pg_worker.DrainOnce_keeps[OF w[unfolded on_server_def] worker_inv_refl[OF s2(1)] d] by (simp add: worker_inv_def)
  ultimately show ?thesis using DrainOnce_done[OF w s2 d] by simp
qed

lemma run_loop_done:
  "on_server sv w \<Longrightarrow> world_ok (snd p) \<Longrightarrow> done_by w (w_db (snd p)) \<Longrightarrow> done_by w (w_db (snd (run_loop render stop ctx w k fuel p)))"
proof (induction fuel arbitrary: k p)
  case (Suc fuel)
  then show ?case using run_tick_done[OF Suc.prems] by (auto split: option.splits)
qed simp

text \<open>
  C11. Done means done. Let every done job be projected when a worker starts: each episode of a done encode job has a vector by the worker's embedder, each episode of a done extract job is marked by its
  extractor. However long the worker runs, whatever its models answer, whatever fails and whenever it is
  cancelled, the same holds of every job it leaves done: no job is reported done before its work is in the database.
\<close>

theorem done_means_projected:
  assumes "NewWorker clk dflt cfg = Inr w" "worker_config sv cfg" "world_ok s"
    and "done_is_projected (em_Model (wk_embedder w)) (map_option ex_Model (wk_extractor w)) (w_db s)"
    and "Run render stop ctx w ticks s = (r, s')"
  shows "\<forall>row \<in> set (jobs (w_db s')). jr_state row = JobStateDone \<longrightarrow>
      (jr_kind row = JobKindEncode \<longrightarrow> (\<forall>i \<in> set (jr_episodes row). \<exists>n \<in> set (encodings (w_db s')). nr_episode n = i \<and> nr_model n = em_Model (wk_embedder w)))
    \<and> (jr_kind row = JobKindExtract \<longrightarrow> (\<forall>x. wk_extractor w = Some x \<longrightarrow>
         (\<forall>i \<in> set (jr_episodes row). \<exists>m \<in> set (extractions (w_db s')). xw_episode m = i \<and> xw_extractor m = ex_Model x)))"
proof -
  have "on_server sv w" using worker_config_on[OF assms(1,2)] by (simp add: on_server_def)
  from run_loop_done[OF this, of "(zero_time, s)" render stop ctx 0 ticks] assms(3-5)
  have "done_by w (w_db s')" by (simp add: Run_def)
  then show ?thesis unfolding done_is_projected_def projected_def by fastforce
qed

theorem done_means_projected_witness:
  "let d = w_db (snd (Run (\<lambda>_ _. ''failed'') (\<lambda>_. None) (\<lambda>_ _. None) sample_worker 3 sample_queued)) in
   list_all (\<lambda>row. if jr_state row = JobStateDone \<and> jr_kind row = JobKindEncode
      then list_all (\<lambda>i. list_ex (\<lambda>n. nr_episode n = i) (encodings d)) (jr_episodes row) else True) (jobs d)"
proof -
  obtain r s' where run: "Run (\<lambda>_ _. ''failed'') (\<lambda>_. None) (\<lambda>_ _. None) sample_worker 3 sample_queued = (r, s')" by (metis prod.collapse)
  have "done_is_projected (em_Model (wk_embedder sample_worker)) (map_option ex_Model (wk_extractor sample_worker)) (w_db sample_queued)"
    by (simp add: done_is_projected_def sample_queued_def JobStateDone_def)
  note D = done_means_projected[OF sample_worker sample_queued_ok this run]
  show ?thesis unfolding run snd_conv Let_def list_all_iff list_ex_iff using D by simp blast
qed

end
