(* ===== verification/End_To_End.thy ===== *)
theory End_To_End
  imports Delivery Eval
begin

section \<open>From an append to its projections\<close>

text \<open>
  The composition of the write path with the worker: what an append promises to have done later is done, or is still written down in the queue.
\<close>

lemma AppendBatch_result:
  assumes "AppendBatch mem reqs w = (Inr eps, w')" "m_store mem = pg_store sv" "m_clock mem = pg_clock sv"
  obtains now mint_e mint_j res where
    "Append (sv_text_ok sv) mint_e mint_j \<lparr>ac_Episodes = map (new_episode now) reqs, ac_Jobs = jobsFor mem (ar_Scope (hd reqs))\<rparr> (w_db w) = Inr (res, w_db w')"
    "length reqs \<le> MaxAppendBatch" "eps = as_Episodes res"
  using assms by (auto simp: AppendBatch_def pg_clock_def pg_store_def on_db_def Let_def split: if_splits option.splits sum.splits prod.splits)

text \<open>A job that was not inserted was already there, outstanding.\<close>

lemma insert_jobs_covers:
  assumes "\<forall>r \<in> set rs. inflight r" "r \<in> set rs"
  shows "\<exists>x \<in> set (snd (insert_jobs js rs)). inflight x \<and> job_key x = job_key r"
  using assms
proof (induction js rs rule: insert_jobs.induct)
  case (2 js q rs)
  show ?case
  proof (cases "job_conflicts js q")
    case True
    then obtain x where x: "x \<in> set js" "inflight x" "job_key x = job_key q" by (auto simp: job_conflicts_def)
    have "set js \<subseteq> set (snd (insert_jobs js rs))" by (simp add: insert_jobs_append)
    then show ?thesis using 2 True x by (cases "r = q") auto
  next
    case False
    have "q \<in> set (snd (insert_jobs (js @ [q]) rs))" by (simp add: insert_jobs_append)
    then show ?thesis using 2 False by (cases "r = q") (auto simp: Let_def split: prod.splits)
  qed
qed simp

lemma Append_owes:
  assumes inv: "db_inv d" and ok: "Append text_ok mint_e mint_j cmd d = Inr (res, d')" and spec: "spec \<in> set (ac_Jobs cmd)"
  shows "\<exists>x \<in> set (jobs d'). inflight x \<and> jr_kind x = nj_Kind spec \<and> set (map ep_ID (as_Episodes res)) \<subseteq> set (jr_episodes x)"
    and "done_is_projected m xt d \<Longrightarrow> done_is_projected m xt d'"
proof -
  let ?scope = "ne_Scope (hd (ac_Episodes cmd))" and ?ts = "ne_IngestedAt (hd (ac_Episodes cmd))"
  obtain rows js where sql: "appendSQL text_ok mint_e mint_j ?scope (int32_of (int (length (ac_Episodes cmd)))) ?ts (ac_Episodes cmd) (ac_Jobs cmd) d = Inr ((rows, js), d')"
    and res: "as_Episodes res = map2 appended_episode (ac_Episodes cmd) (sort_by (le_key er_seq) rows)"
    using Append_Inr(2)[OF ok] by blast
  note A = appendSQL_Inr[OF sql]
  let ?new = "append_job_rows mint_j ?scope (map er_id rows) ?ts (ac_Jobs cmd)"
  have jobs: "jobs d' = jobs d @ fst (insert_jobs (jobs d) ?new)" using A(2) by (simp add: A(4) append_db_jobs)
  have pending: "\<forall>r \<in> set ?new. jr_state r = JobStatePending" by (auto simp: append_job_rows_def append_job_row_def)
  then have flight: "\<forall>r \<in> set ?new. inflight r" by (simp add: inflight_def JobStatePending_def)
  obtain k where k: "k < length (ac_Jobs cmd)" "ac_Jobs cmd ! k = spec" using spec by (metis in_set_conv_nth)
  let ?r = "append_job_row (mint_j k) ?scope (map er_id rows) ?ts spec"
  have r: "?r \<in> set ?new" using k by (auto simp: append_job_rows_def)
  obtain x where x: "x \<in> set (snd (insert_jobs (jobs d) ?new))" "inflight x" "job_key x = job_key ?r"
    using insert_jobs_covers[OF flight r] by blast
  have "set (map ep_ID (as_Episodes res)) \<subseteq> set (map er_id rows)"
    unfolding res by (auto simp: appended_episode_def dest: set_zip_rightD)
  moreover have "jr_kind x = nj_Kind spec" "jr_episodes x = map er_id rows" using x(3) by (simp_all add: job_key_def append_job_row_def)
  moreover have "x \<in> set (jobs d')" using x(1) by (simp add: jobs insert_jobs_append)
  ultimately show "\<exists>x \<in> set (jobs d'). inflight x \<and> jr_kind x = nj_Kind spec \<and> set (map ep_ID (as_Episodes res)) \<subseteq> set (jr_episodes x)"
    using x(2) by (intro bexI[of _ x]) simp_all
  assume dp: "done_is_projected m xt d"
  have "grown d d'" using Append_prefix[OF ok] by (simp add: grown_def)
  moreover have "jr_state r \<noteq> JobStateDone" if "r \<in> set (fst (insert_jobs (jobs d) ?new))" for r
    using that insert_jobs_subset pending by fastforce
  ultimately show "done_is_projected m xt d'" using dp projected_grown unfolding done_is_projected_def jobs by fastforce
qed

lemma job_run_key: "job_run r n s \<Longrightarrow> job_key s = job_key r"
  by (induction rule: job_run.induct) (simp_all add: row_keeps_identity)

text \<open>
  C10. Nothing appended is lost. After a batch was appended and a worker has run, however long, with whatever failures: each episode of the batch has a vector by the worker's embedder,
  or an encode job that names it is pending, running or dead, where an operator sees it; and where facts are extracted, each is marked as read by the extractor or named by such an extract job.
\<close>

theorem nothing_appended_is_lost:
  assumes mem: "m_store mem = pg_store sv" "m_clock mem = pg_clock sv" and worker: "NewWorker clk dflt cfg = Inr w" "worker_config sv cfg"
    and s: "world_ok s" "done_is_projected (em_Model (wk_embedder w)) (map_option ex_Model (wk_extractor w)) (w_db s)"
    and append: "AppendBatch mem reqs s = (Inr eps, s1)" and run: "Run render stop ctx w ticks s1 = (r, s2)"
  shows "\<forall>ep \<in> set eps.
     ((\<exists>n \<in> set (encodings (w_db s2)). nr_episode n = ep_ID ep \<and> nr_model n = em_Model (wk_embedder w))
       \<or> (\<exists>row \<in> set (jobs (w_db s2)). jr_kind row = JobKindEncode \<and> ep_ID ep \<in> set (jr_episodes row) \<and> jr_state row \<in> {JobStatePending, JobStateRunning, JobStateDead}))
     \<and> (\<forall>x. m_facts mem \<noteq> None \<and> wk_extractor w = Some x \<longrightarrow>
         (\<exists>m \<in> set (extractions (w_db s2)). xw_episode m = ep_ID ep \<and> xw_extractor m = ex_Model x)
       \<or> (\<exists>row \<in> set (jobs (w_db s2)). jr_kind row = JobKindExtract \<and> ep_ID ep \<in> set (jr_episodes row) \<and> jr_state row \<in> {JobStatePending, JobStateRunning, JobStateDead}))"
proof
  fix ep assume ep: "ep \<in> set eps"
  obtain now mint_e mint_j res where ap: "Append (sv_text_ok sv) mint_e mint_j
      \<lparr>ac_Episodes = map (new_episode now) reqs, ac_Jobs = jobsFor mem (ar_Scope (hd reqs))\<rparr> (w_db s) = Inr (res, w_db s1)" (is "Append _ _ _ ?cmd _ = _")
    and len: "length reqs \<le> MaxAppendBatch" and eps: "eps = as_Episodes res"
    by (rule AppendBatch_result[OF append mem])
  have inv: "db_inv (w_db s)" using s(1) by (simp add: world_ok_def)
  have "length (ac_Episodes ?cmd) < 2 ^ 31" using len by (simp add: limit_defs)
  then have "db_inv (w_db s1)" by (rule Append_inv[OF inv _ ap])
  moreover have "windows_ok (w_db s1)" using s(1) Append_prefix(3)[OF ap] by (simp add: world_ok_def windows_ok_def)
  ultimately have ok1: "world_ok s1" by (simp add: world_ok_def)
  have on: "on_server sv w" using worker_config_on[OF worker] by (simp add: on_server_def)
  have enc: "\<lparr>nj_Kind = JobKindEncode, nj_Scope = ar_Scope (hd reqs), nj_Episodes = [], nj_RunAfter = zero_time, nj_MaxAttempts = 0\<rparr> \<in> set (ac_Jobs ?cmd)"
    by (simp add: jobsFor_def)
  have "done_by w (w_db s1)" by (rule Append_owes(2)[OF inv ap enc s(2)])
  then have dp: "done_by w (w_db s2)" using run_loop_done[OF on, of "(zero_time, s1)"] ok1 run by (metis Run_def snd_conv)
  have "worker_inv (w_db s1) s2" using pg_worker.Run_keeps[OF worker_config_on[OF worker] worker_inv_refl[OF ok1], of render stop ctx ticks] run by simp
  then have moves: "list_all2 job_moves (jobs (w_db s1)) (jobs (w_db s2))" and inv2: "db_inv (w_db s2)" by (simp_all add: worker_inv_def world_ok_def)
  have kept: "\<exists>row \<in> set (jobs (w_db s2)). jr_kind row = nj_Kind spec \<and> ep_ID ep \<in> set (jr_episodes row)
      \<and> (jr_state row = JobStateDone \<or> jr_state row \<in> {JobStatePending, JobStateRunning, JobStateDead})" if spec: "spec \<in> set (ac_Jobs ?cmd)" for spec
  proof -
    obtain x where x: "x \<in> set (jobs (w_db s1))" "jr_kind x = nj_Kind spec" "ep_ID ep \<in> set (jr_episodes x)"
      using Append_owes(1)[OF inv ap spec] ep eps by auto
    obtain y where y: "y \<in> set (jobs (w_db s2))" "job_moves x y" using moves x(1) by (metis list_all2_conv_all_nth in_set_conv_nth)
    then have "job_key y = job_key x" using job_run_key by (auto simp: job_moves_def)
    then have "jr_kind y = jr_kind x" "jr_episodes y = jr_episodes x" by (simp_all add: job_key_def)
    moreover have "job_check y" using inv2 y(1) by (simp add: db_inv_def jobs_ok_def)
    then have "JobState_Valid (jr_state y)"
      by (auto simp: job_check_def JobState_Valid_def JobStatePending_def JobStateRunning_def JobStateDone_def JobStateDead_def)
    ultimately show ?thesis using x y(1) by (intro bexI[of _ y]) (auto simp: JobState_Valid_def)
  qed
  have proj: "projected_by w (w_db s2) (jr_kind row) (jr_episodes row)" if "row \<in> set (jobs (w_db s2))" "jr_state row = JobStateDone" for row
    using dp that by (simp add: done_is_projected_def)
  show "((\<exists>n \<in> set (encodings (w_db s2)). nr_episode n = ep_ID ep \<and> nr_model n = em_Model (wk_embedder w))
       \<or> (\<exists>row \<in> set (jobs (w_db s2)). jr_kind row = JobKindEncode \<and> ep_ID ep \<in> set (jr_episodes row) \<and> jr_state row \<in> {JobStatePending, JobStateRunning, JobStateDead}))
     \<and> (\<forall>x. m_facts mem \<noteq> None \<and> wk_extractor w = Some x \<longrightarrow>
         (\<exists>m \<in> set (extractions (w_db s2)). xw_episode m = ep_ID ep \<and> xw_extractor m = ex_Model x)
       \<or> (\<exists>row \<in> set (jobs (w_db s2)). jr_kind row = JobKindExtract \<and> ep_ID ep \<in> set (jr_episodes row) \<and> jr_state row \<in> {JobStatePending, JobStateRunning, JobStateDead}))"
  proof (intro conjI allI impI)
    from kept[OF enc] obtain row where row: "row \<in> set (jobs (w_db s2))" "jr_kind row = JobKindEncode" "ep_ID ep \<in> set (jr_episodes row)"
      "jr_state row = JobStateDone \<or> jr_state row \<in> {JobStatePending, JobStateRunning, JobStateDead}" by auto
    have "jr_state row = JobStateDone \<Longrightarrow> \<exists>n \<in> set (encodings (w_db s2)). nr_episode n = ep_ID ep \<and> nr_model n = em_Model (wk_embedder w)"
      using proj[OF row(1)] row(2,3) unfolding projected_def by fastforce
    then show "(\<exists>n \<in> set (encodings (w_db s2)). nr_episode n = ep_ID ep \<and> nr_model n = em_Model (wk_embedder w))
       \<or> (\<exists>row \<in> set (jobs (w_db s2)). jr_kind row = JobKindEncode \<and> ep_ID ep \<in> set (jr_episodes row) \<and> jr_state row \<in> {JobStatePending, JobStateRunning, JobStateDead})"
      using row by blast
  next
    fix x assume x: "m_facts mem \<noteq> None \<and> wk_extractor w = Some x"
    then have ext: "\<lparr>nj_Kind = JobKindExtract, nj_Scope = ar_Scope (hd reqs), nj_Episodes = [], nj_RunAfter = zero_time, nj_MaxAttempts = 0\<rparr> \<in> set (ac_Jobs ?cmd)"
      by (simp add: jobsFor_def Let_def)
    from kept[OF ext] obtain row where row: "row \<in> set (jobs (w_db s2))" "jr_kind row = JobKindExtract" "ep_ID ep \<in> set (jr_episodes row)"
      "jr_state row = JobStateDone \<or> jr_state row \<in> {JobStatePending, JobStateRunning, JobStateDead}" by auto
    have "jr_state row = JobStateDone \<Longrightarrow> \<exists>m \<in> set (extractions (w_db s2)). xw_episode m = ep_ID ep \<and> xw_extractor m = ex_Model x"
      using proj[OF row(1)] row(2,3) x unfolding projected_def by fastforce
    then show "(\<exists>m \<in> set (extractions (w_db s2)). xw_episode m = ep_ID ep \<and> xw_extractor m = ex_Model x)
       \<or> (\<exists>row \<in> set (jobs (w_db s2)). jr_kind row = JobKindExtract \<and> ep_ID ep \<in> set (jr_episodes row) \<and> jr_state row \<in> {JobStatePending, JobStateRunning, JobStateDead})"
      using row by blast
  qed
qed

theorem nothing_appended_is_lost_witness:
  "\<exists>eps s1. AppendBatch sample_mem (map (\<lambda>r. r\<lparr>ar_Scope := ''eval:q''\<rparr>) sample_haystack) sample_fresh = (Inr eps, s1)
     \<and> (let d = w_db (snd (Run (\<lambda>_ _. ''failed'') (\<lambda>_. None) (\<lambda>_ _. None) sample_worker 3 s1)) in
          list_all (\<lambda>ep. list_ex (\<lambda>n. nr_episode n = ep_ID ep) (encodings d)
            \<or> list_ex (\<lambda>row. jr_kind row = JobKindEncode \<and> ep_ID ep \<in> set (jr_episodes row) \<and> jr_state row \<in> {JobStatePending, JobStateRunning, JobStateDead}) (jobs d)) eps)"
proof -
  have mem: "m_store sample_mem = pg_store sample_server" "m_clock sample_mem = pg_clock sample_server" by (simp_all add: sample_mem_def)
  obtain eps s1 where ap: "AppendBatch sample_mem (map (\<lambda>r. r\<lparr>ar_Scope := ''eval:q''\<rparr>) sample_haystack) sample_fresh = (Inr eps, s1)"
    using sample_batch[OF refl refl, of "''eval:q''" "\<lambda>_ _. False"] by (auto simp: sample_mem_def sample_server_def)
  have "windows_ok (empty_db 2)" by (simp add: windows_ok_def empty_db_def)
  then have s: "world_ok sample_fresh" by (simp add: world_ok_def sample_fresh_def db_inv_empty)
  have d: "done_is_projected (em_Model (wk_embedder sample_worker)) (map_option ex_Model (wk_extractor sample_worker)) (w_db sample_fresh)"
    by (simp add: done_is_projected_def sample_fresh_def empty_db_def)
  obtain r s2 where run: "Run (\<lambda>_ _. ''failed'') (\<lambda>_. None) (\<lambda>_ _. None) sample_worker 3 s1 = (r, s2)" by (metis prod.collapse)
  have "\<forall>ep \<in> set eps. (\<exists>n \<in> set (encodings (w_db s2)). nr_episode n = ep_ID ep)
          \<or> (\<exists>row \<in> set (jobs (w_db s2)). jr_kind row = JobKindEncode \<and> ep_ID ep \<in> set (jr_episodes row) \<and> jr_state row \<in> {JobStatePending, JobStateRunning, JobStateDead})"
    using nothing_appended_is_lost[OF mem sample_worker s d ap run] by blast
  then have "list_all (\<lambda>ep. list_ex (\<lambda>n. nr_episode n = ep_ID ep) (encodings (w_db s2))
            \<or> list_ex (\<lambda>row. jr_kind row = JobKindEncode \<and> ep_ID ep \<in> set (jr_episodes row) \<and> jr_state row \<in> {JobStatePending, JobStateRunning, JobStateDead}) (jobs (w_db s2))) eps"
    unfolding list_all_iff list_ex_iff .
  then show ?thesis using ap run by (intro exI[of _ eps] exI[of _ s1]) (simp only: Let_def snd_conv)
qed

end
