(* ===== verification/Spec2Isabelle.thy ===== *)
theory Spec2Isabelle
  imports Ops Extract Migrations Store_Machine Embedders Chat_Providers Eval_L1 End_To_End
begin

text \<open>
  Mempher is a memory for language-model agents over PostgreSQL. An application appends \<^emph>\<open>episodes\<close> (turns, events) to the append-only log of a scope; a \<^emph>\<open>worker\<close> turns them, off
  the write path and through a job queue, into vectors and into dated \<^emph>\<open>facts\<close>; and \<^emph>\<open>recall\<close> fuses a vector search and a text search, adds the facts that hold, and spends a token
  budget on the result. Operators watch the queue and backfill, erasure deletes a scope or named episodes from every table, and migrations install the schema.

  \<^bold>\<open>Theories and the code they model\<close>, from the bottom up.

  \<^item> \<open>Go_Prelude\<close>, \<open>Go_Strings\<close>, \<open>Go_Time\<close>: what the code uses of Go. Errors are values of \<open>err\<close>, fallible functions return \<open>err + 'a\<close>; sorting is \<open>sort_by\<close> with the locale
    \<open>total_preorder\<close>; strings are byte strings with the UTF-8 decoder, \<open>ValidString\<close> and \<open>TrimSpace\<close>; dates and timestamps are parsed as \<^verbatim>\<open>time.Parse\<close> does.
  \<^item> \<open>Types\<close> (\<^verbatim>\<open>id.go\<close>, \<^verbatim>\<open>episode.go\<close>, \<^verbatim>\<open>fact.go\<close>, \<^verbatim>\<open>queue.go\<close>, \<^verbatim>\<open>errors.go\<close> and the request types), \<open>Validity_Window\<close>, \<open>Validate\<close> (\<^verbatim>\<open>validate.go\<close>), \<open>Tokens\<close> (\<^verbatim>\<open>tokens.go\<close>),
    \<open>Fusion\<close> (\<^verbatim>\<open>fusion.go\<close>): the data, every \<^verbatim>\<open>Validate\<close> method, the token counter and reciprocal rank fusion.
  \<^item> \<open>Schema\<close> (\<^verbatim>\<open>postgres/migrations/*.sql\<close>): the rows, checks, keys and references; \<open>db_inv\<close> is their conjunction. On it stand \<open>Episode_Log\<close> (\<^verbatim>\<open>postgres/episode.go\<close>), \<open>Job_Queue\<close>
    (\<^verbatim>\<open>postgres/queue.go\<close>, \<^verbatim>\<open>ops/inspect.go\<close>), \<open>Encodings\<close> (\<^verbatim>\<open>postgres/encoding.go\<close>), \<open>Facts\<close> (\<^verbatim>\<open>postgres/fact.go\<close>), \<open>Search\<close> (\<^verbatim>\<open>postgres/search.go\<close>) and \<open>Erasure\<close>
    (\<^verbatim>\<open>postgres/forget.go\<close>): each method is a function of the database that returns an error or a result and the database it leaves; an SQL statement is a definition of its own.
  \<^item> \<open>Ports\<close> (\<^verbatim>\<open>store.go\<close> and the other interfaces): records of functions over an arbitrary state, and \<open>pg_store\<close>, \<open>pg_queue\<close>, \<open>pg_facts\<close>, \<open>pg_clock\<close>, the PostgreSQL adapter behind them.
    Over the ports: \<open>Memory\<close> (\<^verbatim>\<open>mempher.go\<close>), \<open>Worker\<close> (\<^verbatim>\<open>worker.go\<close>), \<open>Ops\<close> (\<^verbatim>\<open>ops/*.go\<close>, \<^verbatim>\<open>postgres/scope.go\<close>). Their lemmas live in locales (\<open>recall_ports\<close>, \<open>job_ports\<close>, \<open>worker_ports\<close>,
    \<open>backfill_ports\<close>, \<open>scope_frame\<close>) that state what a client relies on, and each is interpreted on the adapter.
  \<^item> \<open>Store_Machine\<close>: all mutating operations as one labelled step relation, and the abstract log it refines (locale \<open>simulation\<close>).
  \<^item> \<open>Delivery\<close> and \<open>End_To_End\<close>: the queue, the worker and the write path together: a job that is done has its work in the database, and what was appended is projected or still
    written down in the queue.
  \<^item> \<open>Migrations\<close> (\<^verbatim>\<open>postgres/migrations.go\<close>, \<^verbatim>\<open>migrate.go\<close>, \<^verbatim>\<open>inspect.go\<close>, \<^verbatim>\<open>store.go\<close>): loading, the advisory lock, the ledger, applying, connecting.
  \<^item> \<open>Extract_Prompt\<close>, \<open>Extract\<close> (\<^verbatim>\<open>extract/*.go\<close>): the extractor that asks a model. \<open>Http\<close>, \<open>Chat_Providers\<close> (\<^verbatim>\<open>extract/openai\<close>, \<^verbatim>\<open>extract/anthropic\<close>) and \<open>Embed_OpenAI\<close>
    (\<^verbatim>\<open>embed/openai\<close>): the provider adapters.
  \<^item> \<open>Test_Doubles\<close> (\<^verbatim>\<open>memphertest\<close>): the clock, embedder and extractor of the tests. \<open>Embedders\<close>: the contract of an embedder as the locale \<open>embedder_kind\<close>, used by the worker
    and provided by the adapter and by the test double.
  \<^item> \<open>Eval\<close> and \<open>Eval_L1\<close> (\<^verbatim>\<open>eval/*.go\<close>): scoring recall and extraction on a benchmark.

  \<^bold>\<open>What the lemmas show.\<close> The log: an append numbers its episodes on from the last and adds the jobs, replay returns what was appended, erasure leaves nothing of what it covers and nothing else
  changes; every sequence of operations is the same sequence on an abstract log, and keeps every constraint of the schema. The queue: only due, unexhausted jobs are leased, only the holder of a lease
  finishes it, retries end. The worker: a batch settles every job it leased, an encode job pairs every episode with its own vector, an extract job takes effect once however often it is
  delivered, a job is done only once its work is in the database, and nothing appended is lost, for as long as it runs. Facts: history is kept, a query returns exactly what it describes. Recall: what comes back is in the scope and within the cuts
  whatever happens concurrently, within the budget, and degrades channel by channel. Operators: a backfill that says it is done has left no episode without its projection or a job for it. Migrations: a
  run applies a prefix of what is pending, refuses a foreign history and is idempotent. The model-facing parts: everything handed to the store passes its validation, the schema sent in
  strict mode requires everything, and each text gets its own vector. The harness: scores are within bounds, and feeding a benchmark leaves the log its labels refer to.

  \<^bold>\<open>Parameters.\<close> What is not under the repository's control is an argument: of the server, the text it accepts (\<open>sv_text_ok\<close>), the collation, the text ranking and matching, the vector distance, the order of scans,
  the ids it mints, the rows others hold locked and its clock; the rounding of floating point; the outcome of running a rendered migration, the lock attempts and the files embedded; the model, the
  HTTP client and the JSON codecs; hashing, case folding and Unicode classes. Hypotheses on them state documented behaviour only (minted ids are fresh, scans invent no row, a collation is a
  total preorder, rounding is monotone), and each has a witness. Instants are whole numbers of the unit the database keeps, with a location that only Go's \<^verbatim>\<open>==\<close> looks at. Machine integers wrap where the code can
  reach it (token counting, the int32 of a statement's arguments, sort comparators); elsewhere the limits the validation enforces keep values in range, and token sums are unbounded.

  \<^bold>\<open>Loops and fuel.\<close> Loops over a list are structural or have a measure. Polling for the migration lock takes at most one attempt per \<open>lockPollInterval\<close> of its timeout, which bounds its recursion; the page
  loops of a backfill take fuel, and \<open>Backfill_covers\<close> shows that more than the rows to visit is enough; the loop of \<open>Run\<close> is cut at any number of ticks, and its invariants hold for every number. Draining a queue is bounded
  by the code itself (\<open>maxDrainPasses\<close>).

  \<^bold>\<open>Not modelled.\<close> Failures of the connection and of the driver between two statements, transactions being atomic; the goroutines of a recall beyond the fact that each channel reads a state of its
  own; logging, progress callbacks, the texts of errors and the printed tables; the metrics of the pool. \<^verbatim>\<open>internal/pgtest\<close> starts containers and \<^verbatim>\<open>examples/quickstart\<close> wires the parts together and prints:
  neither has logic of its own.
\<close>

end
